(* ===== verification/Prelude.thy ===== *)
theory Prelude
  imports Main "HOL-Library.Char_ord" "HOL-Library.List_Lexorder" "HOL-Library.Word"
begin

text \<open>
  Shared ground of the plusfish development: the faults a C++ operation can end in, the
  functions of the C and C++ standard library the sources call on bytes and strings
  (in the "C" locale), and \<open>std::map\<close> as an association list in ascending key order.
  A \<open>std::string\<close> is a \<^typ>\<open>string\<close> (a list of 8-bit characters), \<open>c_str()\<close> cuts it
  at the first NUL, and positions are \<^typ>\<open>nat\<close> with \<^const>\<open>None\<close> for \<open>npos\<close>.
\<close>

named_theorems cstring_simps \<open>unfolding of the C string functions\<close>
named_theorems omap_simps \<open>lookup and update laws of ordered maps\<close>
named_theorems frame_simps \<open>what an operation leaves unchanged\<close>

section \<open>Faults\<close>

text \<open>
  Undefined behaviour and uncaught exceptions are values: reading through a null or a
  freed pointer, indexing a vector out of range, an invalid string length, an integer
  division by zero. \<open>Diverges\<close> is a call that never returns.
\<close>

datatype fault = NullPointer | UseAfterFree | OutOfRange | LengthError | DivideByZero | Diverges

type_synonym 'a result = "fault + 'a"

definition and_then :: "'a result \<Rightarrow> ('a \<Rightarrow> 'b result) \<Rightarrow> 'b result" where
  "and_then r f = (case r of Inl e \<Rightarrow> Inl e | Inr x \<Rightarrow> f x)"

text \<open>A \<open>for\<close> loop whose body can end in a fault.\<close>

fun for_each :: "('a \<Rightarrow> 's \<Rightarrow> 's result) \<Rightarrow> 'a list \<Rightarrow> 's \<Rightarrow> 's result" where
  "for_each f [] s = Inr s"
| "for_each f (x # xs) s = and_then (f x s) (for_each f xs)"

section \<open>Bytes\<close>

abbreviation byte :: "char \<Rightarrow> nat" where
  "byte c \<equiv> of_char c"

definition NUL :: char where "NUL = CHR 0x00"
definition CR :: char where "CR = CHR 0x0D"
definition LF :: char where "LF = CHR 0x0A"
definition TAB :: char where "TAB = CHR 0x09"

definition isdigit :: "char \<Rightarrow> bool" where
  "isdigit c \<longleftrightarrow> 48 \<le> byte c \<and> byte c \<le> 57"

definition isupper :: "char \<Rightarrow> bool" where
  "isupper c \<longleftrightarrow> 65 \<le> byte c \<and> byte c \<le> 90"

definition islower :: "char \<Rightarrow> bool" where
  "islower c \<longleftrightarrow> 97 \<le> byte c \<and> byte c \<le> 122"

definition isalnum :: "char \<Rightarrow> bool" where
  "isalnum c \<longleftrightarrow> isdigit c \<or> isupper c \<or> islower c"

definition isspace :: "char \<Rightarrow> bool" where
  "isspace c \<longleftrightarrow> byte c = 32 \<or> (9 \<le> byte c \<and> byte c \<le> 13)"

definition tolower :: "char \<Rightarrow> char" where
  "tolower c = (if isupper c then char_of (byte c + 32) else c)"

section \<open>C strings\<close>

definition c_str :: "string \<Rightarrow> string" where
  "c_str s = takeWhile (\<lambda>c. c \<noteq> NUL) s"

text \<open>The comparison functions, as the test \<open>\<dots> == 0\<close> the sources make of their result.\<close>

definition strcmp_eq :: "string \<Rightarrow> string \<Rightarrow> bool" where
  "strcmp_eq a b \<longleftrightarrow> c_str a = c_str b"

definition strncmp_eq :: "string \<Rightarrow> string \<Rightarrow> nat \<Rightarrow> bool" where
  "strncmp_eq a b n \<longleftrightarrow> take n (c_str a) = take n (c_str b)"

definition strcasecmp_eq :: "string \<Rightarrow> string \<Rightarrow> bool" where
  "strcasecmp_eq a b \<longleftrightarrow> map tolower (c_str a) = map tolower (c_str b)"

definition strncasecmp_eq :: "string \<Rightarrow> string \<Rightarrow> nat \<Rightarrow> bool" where
  "strncasecmp_eq a b n \<longleftrightarrow> map tolower (take n (c_str a)) = map tolower (take n (c_str b))"

text \<open>First position of a pattern, as \<open>std::string::find\<close> and \<open>strstr\<close> return it.\<close>

fun str_find :: "string \<Rightarrow> string \<Rightarrow> nat option" where
  "str_find p [] = (if p = [] then Some 0 else None)"
| "str_find p (c # s) =
     (if take (length p) (c # s) = p then Some 0 else map_option Suc (str_find p s))"

definition strstr :: "string \<Rightarrow> string \<Rightarrow> nat option" where
  "strstr content p = str_find (c_str p) (c_str content)"

definition strcasestr :: "string \<Rightarrow> string \<Rightarrow> nat option" where
  "strcasestr content p = str_find (map tolower (c_str p)) (map tolower (c_str content))"

definition str_find_char :: "char \<Rightarrow> string \<Rightarrow> nat option" where
  "str_find_char c s = str_find [c] s"

definition str_find_char_from :: "char \<Rightarrow> nat \<Rightarrow> string \<Rightarrow> nat option" where
  "str_find_char_from c n s = map_option (\<lambda>i. i + n) (str_find_char c (drop n s))"

fun str_rfind_char :: "char \<Rightarrow> string \<Rightarrow> nat option" where
  "str_rfind_char c [] = None"
| "str_rfind_char c (x # s) =
     (case str_rfind_char c s of Some i \<Rightarrow> Some (Suc i) | None \<Rightarrow> if x = c then Some 0 else None)"

definition substr :: "string \<Rightarrow> nat \<Rightarrow> nat \<Rightarrow> string" where
  "substr s pos n = take n (drop pos s)"

section \<open>Decimal output\<close>

definition dec_digit :: "nat \<Rightarrow> char" where
  "dec_digit d = char_of (48 + d)"

fun nat_dec :: "nat \<Rightarrow> string" where
  "nat_dec n = (if n < 10 then [dec_digit n] else nat_dec (n div 10) @ [dec_digit (n mod 10)])"

declare nat_dec.simps [simp del]

definition to_string :: "int \<Rightarrow> string" where
  "to_string i = (if i < 0 then CHR ''-'' # nat_dec (nat (- i)) else nat_dec (nat i))"

section \<open>Splitting and joining\<close>

text \<open>
  The documented result of \<open>absl::StrSplit\<close> with a one-character delimiter or
  \<open>absl::ByAnyChar\<close>: the pieces between delimiters, empty ones included.
\<close>

fun split_by :: "(char \<Rightarrow> bool) \<Rightarrow> string \<Rightarrow> string list" where
  "split_by P [] = [[]]"
| "split_by P (c # s) =
     (if P c then [] # split_by P s
      else (case split_by P s of x # xs \<Rightarrow> (c # x) # xs | [] \<Rightarrow> [[c]]))"

definition skip_empty :: "string list \<Rightarrow> string list" where
  "skip_empty xs = filter (\<lambda>x. x \<noteq> []) xs"

fun join_with :: "string \<Rightarrow> string list \<Rightarrow> string" where
  "join_with sep [] = []"
| "join_with sep [x] = x"
| "join_with sep (x # y # xs) = x @ sep @ join_with sep (y # xs)"

section \<open>Ordered maps\<close>

text \<open>\<open>std::map\<close>: an association list in strictly ascending key order.\<close>

type_synonym ('k, 'v) omap = "('k \<times> 'v) list"

definition omap_ok :: "('k::linorder, 'v) omap \<Rightarrow> bool" where
  "omap_ok m \<longleftrightarrow> sorted_wrt (<) (map fst m)"

fun omap_set :: "'k::linorder \<Rightarrow> 'v \<Rightarrow> ('k, 'v) omap \<Rightarrow> ('k, 'v) omap" where
  "omap_set k v [] = [(k, v)]"
| "omap_set k v ((k', v') # m) =
     (if k < k' then (k, v) # (k', v') # m
      else if k = k' then (k, v) # m
      else (k', v') # omap_set k v m)"

definition omap_emplace :: "'k::linorder \<Rightarrow> 'v \<Rightarrow> ('k, 'v) omap \<Rightarrow> ('k, 'v) omap" where
  "omap_emplace k v m = (case map_of m k of Some _ \<Rightarrow> m | None \<Rightarrow> omap_set k v m)"

definition omap_get :: "'v \<Rightarrow> 'k::linorder \<Rightarrow> ('k, 'v) omap \<Rightarrow> 'v" where
  "omap_get d k m = (case map_of m k of Some v \<Rightarrow> v | None \<Rightarrow> d)"

text \<open>
  Hash sets and hash maps have no order of their own: a list without duplicates, whose order
  stands for the iteration order of one run.
\<close>

definition hset_insert :: "'a \<Rightarrow> 'a list \<Rightarrow> 'a list" where
  "hset_insert x xs = (if x \<in> set xs then xs else xs @ [x])"

definition hmap_erase :: "'k \<Rightarrow> ('k \<times> 'v) list \<Rightarrow> ('k \<times> 'v) list" where
  "hmap_erase k m = filter (\<lambda>e. fst e \<noteq> k) m"

definition hmap_put :: "'k \<Rightarrow> 'v \<Rightarrow> ('k \<times> 'v) list \<Rightarrow> ('k \<times> 'v) list" where
  "hmap_put k v m =
     (if map_of m k = None then m @ [(k, v)] else map (\<lambda>e. if fst e = k then (k, v) else e) m)"

section \<open>Lemmas: results\<close>

lemma and_then_Inr [simp]: "and_then (Inr x) f = f x"
  and and_then_Inl [simp]: "and_then (Inl e) f = Inl e"
  by (simp_all add: and_then_def)

lemma and_then_eq_Inr:
  "and_then r f = Inr y \<longleftrightarrow> (\<exists>x. r = Inr x \<and> f x = Inr y)"
  by (auto simp: and_then_def split: sum.splits)

lemma and_then_inv:
  assumes "and_then r f = Inr y" "\<And>x. r = Inr x \<Longrightarrow> P x" "\<And>x. P x \<Longrightarrow> f x = Inr y \<Longrightarrow> Q y"
  shows "Q y"
  using assms by (auto simp: and_then_eq_Inr)

lemma for_each_inv:
  assumes "\<And>x s s'. x \<in> set xs \<Longrightarrow> P s \<Longrightarrow> f x s = Inr s' \<Longrightarrow> P s'"
  shows "for_each f xs s = Inr s' \<Longrightarrow> P s \<Longrightarrow> P s'"
  using assms
proof (induction xs arbitrary: s)
  case (Cons x xs)
  then obtain s1 where "f x s = Inr s1" "for_each f xs s1 = Inr s'" by (auto simp: and_then_eq_Inr)
  with Cons show ?case by (metis list.set_intros)
qed simp

section \<open>Lemmas: strings\<close>

lemma c_str_no_NUL: "NUL \<notin> set s \<Longrightarrow> c_str s = s"
  by (simp add: c_str_def takeWhile_eq_all_conv) blast

lemma c_str_idem [simp]: "c_str (c_str s) = c_str s"
  by (simp add: c_str_def)

lemma NUL_notin_c_str [simp]: "NUL \<notin> set (c_str s)"
  by (auto simp: c_str_def dest: set_takeWhileD)

lemma str_find_Some_iff:
  "str_find p s = Some i \<longleftrightarrow>
     (i \<le> length s \<and> take (length p) (drop i s) = p \<and>
      (\<forall>j < i. take (length p) (drop j s) \<noteq> p))"
proof (induction s arbitrary: i)
  case Nil
  then show ?case by auto
next
  case (Cons c s)
  show ?case
  proof (cases "take (length p) (c # s) = p")
    case True
    then show ?thesis by (cases i) (simp_all, metis drop_0 zero_less_Suc)
  next
    case False
    have "(\<forall>j < Suc k. take (length p) (drop j (c # s)) \<noteq> p) \<longleftrightarrow>
        (\<forall>j < k. take (length p) (drop j s) \<noteq> p)" for k
      using False by (simp add: All_less_Suc2)
    with False Cons.IH show ?thesis by (cases i) auto
  qed
qed

lemma str_find_None_iff:
  "str_find p s = None \<longleftrightarrow> (\<forall>i \<le> length s. take (length p) (drop i s) \<noteq> p)"
proof (induction s)
  case Nil
  then show ?case by auto
next
  case (Cons c s)
  have "(\<forall>i \<le> length (c # s). take (length p) (drop i (c # s)) \<noteq> p) \<longleftrightarrow>
      take (length p) (c # s) \<noteq> p \<and> (\<forall>i \<le> length s. take (length p) (drop i s) \<noteq> p)"
    by (simp add: less_Suc_eq_le [symmetric] All_less_Suc2)
  with Cons show ?case by simp
qed

lemma str_find_sublist:
  "str_find p s \<noteq> None \<longleftrightarrow> (\<exists>us vs. s = us @ p @ vs)"
proof
  assume "str_find p s \<noteq> None"
  then obtain i where "str_find p s = Some i" by auto
  then have "take (length p) (drop i s) = p" by (simp add: str_find_Some_iff)
  then have "s = take i s @ p @ drop (length p) (drop i s)"
    by (metis append_take_drop_id)
  then show "\<exists>us vs. s = us @ p @ vs" by blast
next
  assume "\<exists>us vs. s = us @ p @ vs"
  then obtain us vs where "s = us @ p @ vs" by blast
  then have "length us \<le> length s" "take (length p) (drop (length us) s) = p" by simp_all
  then show "str_find p s \<noteq> None" by (auto simp: str_find_None_iff)
qed

lemma str_find_char_Some:
  "str_find_char c s = Some i \<Longrightarrow> i < length s \<and> s ! i = c \<and> c \<notin> set (take i s)"
proof (induction s arbitrary: i)
  case Nil
  then show ?case by (simp add: str_find_char_def)
next
  case (Cons x s)
  then show ?case
    by (cases i) (auto simp: str_find_char_def split: if_splits)
qed

lemma str_find_char_None [simp]: "str_find_char c s = None \<longleftrightarrow> c \<notin> set s"
  by (induction s) (auto simp: str_find_char_def)

lemma str_find_char_cut:
  assumes "c \<notin> set u"
  shows "str_find_char c (u @ c # v) = Some (length u)"
  using assms by (induction u) (auto simp: str_find_char_def)

lemma str_rfind_char_None [simp]: "str_rfind_char c s = None \<longleftrightarrow> c \<notin> set s"
  by (induction s) (auto split: option.splits)

lemma str_rfind_char_Some:
  "str_rfind_char c s = Some i \<Longrightarrow> i < length s \<and> s ! i = c \<and> c \<notin> set (drop (Suc i) s)"
  by (induction s arbitrary: i) (auto split: option.splits if_splits)

lemma str_rfind_char_cut:
  assumes "c \<notin> set v"
  shows "str_rfind_char c (u @ c # v) = Some (length u)"
  using assms by (induction u) (auto split: option.splits)

section \<open>Lemmas: decimals\<close>

lemma byte_dec_digit: "d < 10 \<Longrightarrow> byte (dec_digit d) = 48 + d"
  by (simp add: dec_digit_def)

lemma dec_digit_inj: "c < 10 \<Longrightarrow> d < 10 \<Longrightarrow> dec_digit c = dec_digit d \<longleftrightarrow> c = d"
  by (metis add_left_cancel byte_dec_digit)

lemma isdigit_dec_digit: "d < 10 \<Longrightarrow> isdigit (dec_digit d)"
  by (simp add: isdigit_def byte_dec_digit)

lemma nat_dec_digits: "\<forall>c \<in> set (nat_dec n). isdigit c"
proof (induction n rule: nat_dec.induct)
  case (1 n)
  show ?case
  proof (cases "n < 10")
    case True
    then show ?thesis by (subst nat_dec.simps) (simp add: isdigit_dec_digit)
  next
    case False
    with "1.IH" have "\<forall>c \<in> set (nat_dec (n div 10)). isdigit c" by simp
    with False show ?thesis
      by (subst nat_dec.simps) (auto simp: isdigit_dec_digit)
  qed
qed

lemma nat_dec_nonempty [simp]: "nat_dec n \<noteq> []"
  by (subst nat_dec.simps) simp

lemma nat_dec_inj: "nat_dec m = nat_dec n \<Longrightarrow> m = n"
proof (induction m arbitrary: n rule: nat_dec.induct)
  case (1 m)
  have unfold: "nat_dec k = (if k < 10 then [dec_digit k]
      else nat_dec (k div 10) @ [dec_digit (k mod 10)])" for k
    by (rule nat_dec.simps)
  show ?case
  proof (cases "m < 10")
    case True
    with "1.prems" show ?thesis
      using unfold [of m] unfold [of n] nat_dec_nonempty [of "n div 10"]
      by (auto simp: dec_digit_inj split: if_splits simp del: nat_dec_nonempty)
  next
    case False
    with "1.prems" have n: "\<not> n < 10"
      using unfold [of m] unfold [of n] by auto
    with False "1.prems" have eq: "nat_dec (m div 10) = nat_dec (n div 10)"
        "m mod 10 = n mod 10"
      using unfold [of m] unfold [of n] by (auto simp: dec_digit_inj)
    from "1.IH" [OF False eq(1)] eq(2) show ?thesis by (metis div_mult_mod_eq)
  qed
qed

section \<open>Lemmas: splitting\<close>

lemma split_by_nonempty [simp]: "split_by P s \<noteq> []"
  by (induction s) (auto split: list.splits)

lemma split_by_no_sep: "\<forall>c \<in> set s. \<not> P c \<Longrightarrow> split_by P s = [s]"
  by (induction s) auto

lemma split_by_pieces: "x \<in> set (split_by P s) \<Longrightarrow> c \<in> set x \<Longrightarrow> \<not> P c"
proof (induction s arbitrary: x)
  case (Cons a s)
  then show ?case by (auto split: if_splits list.splits) metis
qed simp

lemma split_by_append:
  assumes "\<forall>c \<in> set u. \<not> P c" "P d"
  shows "split_by P (u @ d # v) = u # split_by P v"
  using assms by (induction u) auto

lemma split_char_none [simp]: "d \<notin> set s \<Longrightarrow> split_by (\<lambda>c. c = d) s = [s]"
  by (rule split_by_no_sep) auto

lemma split_char_cut [simp]:
  "d \<notin> set u \<Longrightarrow> split_by (\<lambda>c. c = d) (u @ d # v) = u # split_by (\<lambda>c. c = d) v"
  by (rule split_by_append) auto

lemma split_by_join:
  assumes "xs \<noteq> []" "\<forall>x \<in> set xs. d \<notin> set x"
  shows "split_by (\<lambda>c. c = d) (join_with [d] xs) = xs"
  using assms
proof (induction "[d]" xs rule: join_with.induct)
  case 1
  then show ?case by simp
next
  case (2 x)
  then show ?case by (auto intro: split_by_no_sep)
next
  case (3 x y xs)
  then have "split_by (\<lambda>c. c = d) (x @ d # join_with [d] (y # xs)) =
      x # split_by (\<lambda>c. c = d) (join_with [d] (y # xs))"
    by (intro split_by_append) auto
  with 3 show ?case by simp
qed

lemma join_split_by: "join_with [d] (split_by (\<lambda>c. c = d) s) = s"
proof (induction s)
  case Nil
  then show ?case by simp
next
  case (Cons c s)
  obtain x xs where sp: "split_by (\<lambda>c. c = d) s = x # xs"
    by (metis list.exhaust split_by_nonempty)
  with Cons show ?case by (cases xs) auto
qed

section \<open>Lemmas: ordered maps and hash containers\<close>

lemma map_of_omap_set [simp, omap_simps]: "map_of (omap_set k v m) = (map_of m)(k \<mapsto> v)"
  by (induction m) (auto simp: fun_eq_iff)

lemma keys_omap_set: "fst ` set (omap_set k v m) = insert k (fst ` set m)"
proof (induction m)
  case (Cons e m)
  then show ?case by (cases e) (simp add: insert_commute)
qed simp

lemma omap_ok_Nil [simp]: "omap_ok []"
  by (simp add: omap_ok_def)

lemma omap_ok_set [intro, simp]: "omap_ok m \<Longrightarrow> omap_ok (omap_set k v m)"
  unfolding omap_ok_def
proof (induction m)
  case Nil
  then show ?case by simp
next
  case (Cons e m)
  obtain k' v' where e: "e = (k', v')" by (cases e)
  from Cons.prems e have hd: "\<forall>x \<in> fst ` set m. k' < x" by simp
  then have "\<forall>x \<in> fst ` set (omap_set k v m). k' < x" if "k' < k"
    using that by (simp add: keys_omap_set)
  with Cons e hd show ?case by auto
qed

lemma length_omap_set:
  "omap_ok m \<Longrightarrow>
     length (omap_set k v m) = (if map_of m k = None then Suc (length m) else length m)"
  unfolding omap_ok_def
proof (induction m)
  case Nil
  then show ?case by simp
next
  case (Cons e m)
  obtain k' v' where e: "e = (k', v')" by (cases e)
  show ?case
  proof (cases "k < k'")
    case True
    with Cons.prems e have "k \<notin> fst ` set m" by fastforce
    then have "map_of m k = None" by (simp add: map_of_eq_None_iff)
    with True e show ?thesis by simp
  next
    case False
    with Cons e show ?thesis by auto
  qed
qed

lemma map_of_omap_emplace [omap_simps]:
  "map_of (omap_emplace k v m) k' =
     (if k' = k \<and> map_of m k = None then Some v else map_of m k')"
  by (auto simp: omap_emplace_def split: option.splits)

lemma omap_ok_emplace [intro, simp]: "omap_ok m \<Longrightarrow> omap_ok (omap_emplace k v m)"
  by (auto simp: omap_emplace_def split: option.splits)

lemma omap_ok_distinct: "omap_ok m \<Longrightarrow> distinct (map fst m)"
  unfolding omap_ok_def by (simp add: strict_sorted_iff)

lemma omap_get_set [simp]:
  "omap_get d k (omap_set k' v m) = (if k = k' then v else omap_get d k m)"
  by (simp add: omap_get_def)

lemma set_hset_insert [simp]: "set (hset_insert x xs) = insert x (set xs)"
  by (auto simp: hset_insert_def)

lemma distinct_hset_insert [simp]: "distinct (hset_insert x xs) = distinct xs"
  by (auto simp: hset_insert_def)

lemma map_of_hmap_erase [simp]: "map_of (hmap_erase k m) = (map_of m)(k := None)"
  by (induction m) (auto simp: hmap_erase_def fun_eq_iff)

lemma map_of_hmap_put [simp]: "map_of (hmap_put k v m) = (map_of m)(k \<mapsto> v)"
proof -
  have upd: "map_of (map (\<lambda>e. if fst e = k then (k, v) else e) xs) k' =
      (if k' = k \<and> map_of xs k \<noteq> None then Some v else map_of xs k')"
    for xs :: "('a \<times> 'b) list" and k'
    by (induction xs) auto
  show ?thesis
    by (auto simp: hmap_put_def upd map_add_def fun_eq_iff split: option.splits)
qed

lemma length_hmap_erase_le: "length (hmap_erase k m) \<le> length m"
  by (simp add: hmap_erase_def)

end
