(* ===== verification/Url_Util.thy ===== *)
theory Url_Util
  imports Prelude
begin

text \<open>
  \<open>src/util/url.cc\<close>: stripping the query string and the file name off a URL. Positions are
  \<open>size_t\<close> in the source; the two places where they wrap around are written out:
  \<open>--params\<close> at position 0 gives \<open>npos\<close>, which \<open>resize\<close> refuses with
  \<open>std::length_error\<close>, and \<open>npos + 2\<close> is 1.
\<close>

definition strip_path_file :: "string \<Rightarrow> string" where
  "strip_path_file final_url =
     (let scheme_end = str_find ''//'' final_url;
          start = (case scheme_end of Some i \<Rightarrow> i + 2 | None \<Rightarrow> 1);
          first_slash = str_find_char_from (CHR ''/'') start final_url
      in case first_slash of
           None \<Rightarrow> final_url @ ''/''
         | Some _ \<Rightarrow>
             (case str_rfind_char (CHR ''/'') final_url of
                None \<Rightarrow> []
              | Some trailing_slash \<Rightarrow>
                  if trailing_slash = length final_url - 1 then final_url
                  else take (trailing_slash + 1) final_url))"

definition StripUrlFileSuffix :: "string \<Rightarrow> string result" where
  "StripUrlFileSuffix url =
     (case str_find_char (CHR ''?'') url of
        None \<Rightarrow> Inr (strip_path_file url)
      | Some 0 \<Rightarrow> Inl LengthError
      | Some (Suc params) \<Rightarrow> Inr (strip_path_file (take params url)))"

section \<open>Lemmas\<close>

text \<open>Where the path has a slash after the authority, everything behind the last one goes.\<close>

definition has_path_slash :: "string \<Rightarrow> bool" where
  "has_path_slash u \<longleftrightarrow>
     str_find_char_from (CHR ''/'')
       (case str_find ''//'' u of Some i \<Rightarrow> i + 2 | None \<Rightarrow> 1) u \<noteq> None"

lemma str_find_char_from_Some_iff:
  "str_find_char_from c n s \<noteq> None \<longleftrightarrow> c \<in> set (drop n s)"
  by (auto simp: str_find_char_from_def)

lemma has_path_slash_iff:
  "has_path_slash u \<longleftrightarrow>
     CHR ''/'' \<in> set (drop (case str_find ''//'' u of Some i \<Rightarrow> i + 2 | None \<Rightarrow> 1) u)"
  unfolding has_path_slash_def by (rule str_find_char_from_Some_iff)

lemma has_path_slash_mem: "has_path_slash u \<Longrightarrow> CHR ''/'' \<in> set u"
  by (auto simp: has_path_slash_iff dest: in_set_dropD)

lemma strip_path_file_no_slash:
  "\<not> has_path_slash u \<Longrightarrow> strip_path_file u = u @ ''/''"
  by (simp add: strip_path_file_def has_path_slash_def Let_def)

lemma strip_path_file_cut:
  assumes "has_path_slash (d @ CHR ''/'' # f)" "CHR ''/'' \<notin> set f"
  shows "strip_path_file (d @ CHR ''/'' # f) = d @ ''/''"
proof -
  have r: "str_rfind_char (CHR ''/'') (d @ CHR ''/'' # f) = Some (length d)"
    using assms(2) by (rule str_rfind_char_cut)
  show ?thesis
    using assms(1) unfolding strip_path_file_def has_path_slash_def Let_def
    by (auto simp: r split: option.splits)
qed

lemma split_last_slash:
  assumes "CHR ''/'' \<in> set u"
  obtains d f where "u = d @ CHR ''/'' # f" "CHR ''/'' \<notin> set f"
  using assms by (metis split_list_last)

lemma strip_path_file_last: "last (strip_path_file u) = CHR ''/''"
  by (metis has_path_slash_mem last_snoc split_last_slash strip_path_file_cut
      strip_path_file_no_slash)

lemma str_find_end:
  "str_find p s = Some i \<Longrightarrow> i + length p \<le> length s"
proof (induction s arbitrary: i)
  case (Cons c s)
  show ?case
  proof (cases "take (length p) (c # s) = p")
    case True
    then have "length p \<le> length (c # s)" by (metis length_take min.cobounded1)
    with True Cons.prems show ?thesis by simp
  qed (use Cons in auto)
qed (auto split: if_splits)

lemma str_find_take:
  assumes "str_find p s = Some i" "i + length p \<le> n"
  shows "str_find p (take n s) = Some i"
proof -
  have "take (length p) (drop j (take n s)) = take (length p) (drop j s)" if "j \<le> i" for j
    using that assms(2) by (simp add: drop_take min_def)
  with assms str_find_end [OF assms(1)] show ?thesis
    unfolding str_find_Some_iff by (auto simp: less_imp_le)
qed

lemma str_find_append_Some:
  assumes "str_find p s = Some i"
  shows "str_find p (s @ t) = Some i"
proof -
  have pre: "take (length p) (drop j (s @ t)) = take (length p) (drop j s)" if "j \<le> i" for j
    using that str_find_end [OF assms] by simp
  show ?thesis
    using assms unfolding str_find_Some_iff
    by (simp add: pre less_imp_le del: drop_append take_append)
qed

lemma has_path_slash_dir:
  assumes "str_find ''//'' u = Some i"
  shows "has_path_slash (strip_path_file u)"
proof (cases "has_path_slash u")
  case True
  obtain d f where u: "u = d @ CHR ''/'' # f" and f: "CHR ''/'' \<notin> set f"
    using has_path_slash_mem [OF True] by (rule split_last_slash)
  from True assms have "CHR ''/'' \<in> set (drop (i + 2) u)" by (simp add: has_path_slash_iff)
  with u f have le: "i + 2 \<le> length d"
    by (auto simp: drop_Cons' not_le dest: in_set_dropD split: if_splits)
  then have "str_find ''//'' (take (length d + 1) u) = Some i"
    using assms by (intro str_find_take) auto
  with le u f True show ?thesis
    by (simp add: strip_path_file_cut has_path_slash_iff)
next
  case False
  with str_find_end [OF assms] str_find_append_Some [OF assms, of "''/''"] show ?thesis
    by (simp add: strip_path_file_no_slash has_path_slash_iff)
qed

lemma strip_path_file_split:
  assumes "has_path_slash u"
  shows "\<exists>file. u = strip_path_file u @ file \<and> CHR ''/'' \<notin> set file"
proof -
  obtain d f where "u = d @ CHR ''/'' # f" "CHR ''/'' \<notin> set f"
    using has_path_slash_mem [OF assms] by (rule split_last_slash)
  with assms show ?thesis by (auto simp: strip_path_file_cut)
qed

lemma StripUrlFileSuffix_no_query:
  "CHR ''?'' \<notin> set url \<Longrightarrow> StripUrlFileSuffix url = Inr (strip_path_file url)"
  unfolding StripUrlFileSuffix_def
  by (subst str_find_char_None [THEN iffD2]) simp_all

section \<open>Properties\<close>

text \<open>
  for a URL without a query string \<open>StripUrlFileSuffix\<close> never fails and returns the URL's
  directory: the URL up to its last slash where there is one behind the authority, else the
  URL with a slash appended.
\<close>

theorem StripUrlFileSuffix_directory:
  assumes "CHR ''?'' \<notin> set url"
  shows "\<exists>dir. StripUrlFileSuffix url = Inr dir \<and> last dir = CHR ''/'' \<and>
     (if has_path_slash url then \<exists>file. url = dir @ file \<and> CHR ''/'' \<notin> set file
      else dir = url @ ''/'')"
  using StripUrlFileSuffix_no_query [OF assms] strip_path_file_last [of url]
    strip_path_file_no_slash [of url] strip_path_file_split [of url] by auto

theorem StripUrlFileSuffix_directory_witness:
  "CHR ''?'' \<notin> set ''http://h/a/f'' \<and>
   (\<exists>dir. StripUrlFileSuffix ''http://h/a/f'' = Inr dir \<and> last dir = CHR ''/'')"
  using StripUrlFileSuffix_directory [of "''http://h/a/f''"] by auto

text \<open>
  stripping a directory again changes nothing, for every absolute URL (one with a
  \<open>//\<close>) without a query string.
\<close>

theorem StripUrlFileSuffix_idem:
  assumes "CHR ''?'' \<notin> set url" "str_find ''//'' url = Some i"
    and "StripUrlFileSuffix url = Inr dir"
  shows "StripUrlFileSuffix dir = Inr dir"
proof -
  from assms have dir: "dir = strip_path_file url" by (simp add: StripUrlFileSuffix_no_query)
  have slash: "has_path_slash dir" unfolding dir using assms(2) by (rule has_path_slash_dir)
  obtain d where d: "dir = d @ ''/''"
    using strip_path_file_last [of url] has_path_slash_mem [OF slash] dir
    by (metis append_butlast_last_id empty_iff list.set(1))
  then have "strip_path_file dir = dir"
    using slash strip_path_file_cut [of d "[]"] by simp
  moreover have "CHR ''?'' \<notin> set dir"
    using assms(1) dir strip_path_file_split [of url] strip_path_file_no_slash [of url]
    by (cases "has_path_slash url") (auto, metis UnCI set_append)
  ultimately show ?thesis by (simp add: StripUrlFileSuffix_no_query)
qed

theorem StripUrlFileSuffix_idem_witness:
  "StripUrlFileSuffix ''http://h/a/'' = Inr ''http://h/a/''"
  by (rule StripUrlFileSuffix_idem [of "''http://h/a/f''" 5]) code_simp+

text \<open>
  with a query string the code cuts one character too many: it strips what is left after
  dropping the question mark and the character in front of it, so \<open>dir/?q\<close> loses \<open>dir\<close>;
  and a URL that starts with a question mark ends in \<open>std::length_error\<close>.
\<close>

theorem StripUrlFileSuffix_query:
  assumes "CHR ''?'' \<notin> set base"
  shows "StripUrlFileSuffix (base @ CHR ''?'' # query) =
     (if base = [] then Inl LengthError else StripUrlFileSuffix (butlast base))"
proof (cases base rule: rev_cases)
  case Nil
  then show ?thesis by (simp add: StripUrlFileSuffix_def str_find_char_def)
next
  case (snoc a c)
  have "str_find_char (CHR ''?'') (base @ CHR ''?'' # query) = Some (Suc (length a))"
    using str_find_char_cut [OF assms] snoc by simp
  with assms snoc show ?thesis
    unfolding StripUrlFileSuffix_def [of "base @ _"] by (simp add: StripUrlFileSuffix_no_query)
qed

theorem StripUrlFileSuffix_query_witness:
  "StripUrlFileSuffix (''http://h/dir/'' @ CHR ''?'' # ''q'') = Inr ''http://h/'' \<and>
   StripUrlFileSuffix ''?q'' = Inl LengthError"
proof
  have "StripUrlFileSuffix (butlast ''http://h/dir/'') = Inr ''http://h/''" by code_simp
  then show "StripUrlFileSuffix (''http://h/dir/'' @ CHR ''?'' # ''q'') = Inr ''http://h/''"
    using StripUrlFileSuffix_query [of "''http://h/dir/''" "''q''"] by simp
  show "StripUrlFileSuffix ''?q'' = Inl LengthError"
    using StripUrlFileSuffix_query [of "[]" "''q''"] by simp
qed

end
