(* ===== verification/Escaping.thy ===== *)
theory Escaping
  imports Prelude
begin

text \<open>
  \<open>src/parsers/util/escaping.cc\<close>: HTML escaping and unescaping. \<open>EscapeHtml\<close> maps each
  character; \<open>UnescapeHtml\<close> runs through a \<open>std::map\<close> of entities in key order and for each
  one replaces its first occurrence until there is none. Every entity is longer than what it
  is replaced by, so each of these loops ends.
\<close>

definition EscapeHtml_char :: "char \<Rightarrow> string" where
  "EscapeHtml_char c =
     (if c = CHR ''<'' then ''&lt;''
      else if c = CHR ''>'' then ''&gt;''
      else if c = CHR ''&'' then ''&amp;''
      else if c = CHR 0x22 then ''&quot;''
      else if c = CHR 0x27 then ''&apos;''
      else [c])"

definition EscapeHtml :: "string \<Rightarrow> string" where
  "EscapeHtml unescaped = concat (map EscapeHtml_char unescaped)"

definition html_entities :: "(string \<times> string) list" where
  "html_entities =
     [(''&#34;'', [CHR 0x22]), (''&#38;'', ''&''), (''&#39;'', [CHR 0x27]), (''&#60;'', ''<''),
      (''&#62;'', ''>''), (''&amp;'', ''&''), (''&apos;'', [CHR 0x27]), (''&gt;'', ''>''),
      (''&lt;'', ''<''), (''&quot;'', [CHR 0x22])]"

function replace_all :: "string \<Rightarrow> string \<Rightarrow> string \<Rightarrow> string" where
  "replace_all p r s =
     (case str_find p s of
        None \<Rightarrow> s
      | Some found \<Rightarrow>
          if length r < length p \<and> found + length p \<le> length s
          then replace_all p r (take found s @ r @ drop (found + length p) s)
          else s)"
  by pat_completeness auto
termination
  by (relation "measure (\<lambda>(p, r, s). length s)") auto

declare replace_all.simps [simp del]

definition UnescapeHtml :: "string \<Rightarrow> string" where
  "UnescapeHtml escaped = fold (\<lambda>(p, r) s. replace_all p r s) html_entities escaped"

section \<open>Lemmas: the replacement loop\<close>

lemma str_find_bound: "str_find p s = Some i \<Longrightarrow> i + length p \<le> length s"
proof -
  assume a: "str_find p s = Some i"
  then have "take (length p) (drop i s) = p" "i \<le> length s" by (simp_all add: str_find_Some_iff)
  then have "length p \<le> length (drop i s)" by (metis length_take min.cobounded1)
  with \<open>i \<le> length s\<close> show ?thesis by simp
qed

lemma replace_all_Some:
  assumes "str_find p s = Some i" "length r < length p"
  shows "replace_all p r s = replace_all p r (take i s @ r @ drop (i + length p) s)"
  using assms str_find_bound [OF assms(1)] by (subst replace_all.simps) simp

lemma replace_all_None: "str_find p s = None \<Longrightarrow> replace_all p r s = s"
  by (subst replace_all.simps) simp

text \<open>No occurrence of the entity is left when the loop ends.\<close>

lemma replace_all_gone:
  "length r < length p \<Longrightarrow> str_find p (replace_all p r s) = None"
proof (induction "length s" arbitrary: s rule: less_induct)
  case less
  show ?case
  proof (cases "str_find p s")
    case (Some i)
    let ?s = "take i s @ r @ drop (i + length p) s"
    have "length ?s < length s" using less.prems str_find_bound [OF Some] by simp
    with less Some show ?thesis by (simp add: replace_all_Some)
  qed (simp add: replace_all_None)
qed

text \<open>A piece of text in which no occurrence can start is passed over.\<close>

definition passes :: "string \<Rightarrow> string \<Rightarrow> bool" where
  "passes p u \<longleftrightarrow> (\<forall>j < length u. \<forall>s. take (length p) (drop j u @ s) \<noteq> p)"

lemma str_find_passes:
  "passes p u \<Longrightarrow> str_find p (u @ s) = map_option (\<lambda>i. length u + i) (str_find p s)"
proof (induction u)
  case Nil
  then show ?case by (simp add: option.map_ident)
next
  case (Cons c u)
  from Cons.prems have u: "passes p u" by (fastforce simp: passes_def)
  from Cons.prems have "take (length p) (drop 0 (c # u) @ s) \<noteq> p"
    unfolding passes_def by blast
  then have "take (length p) (c # u @ s) \<noteq> p" by simp
  with Cons.IH [OF u] show ?case by (simp add: option.map_comp comp_def)
qed

lemma replace_all_passes:
  assumes "passes p u" "length r < length p"
  shows "replace_all p r (u @ s) = u @ replace_all p r s"
proof (induction "length s" arbitrary: s rule: less_induct)
  case less
  show ?case
  proof (cases "str_find p s")
    case (Some i)
    let ?s = "take i s @ r @ drop (i + length p) s"
    have "str_find p (u @ s) = Some (length u + i)"
      using str_find_passes [OF assms(1)] Some by simp
    then have "replace_all p r (u @ s) = replace_all p r (u @ ?s)"
      using assms(2) by (simp add: replace_all_Some add.assoc)
    moreover have "length ?s < length s" using assms(2) str_find_bound [OF Some] by simp
    ultimately show ?thesis
      using less.hyps [of ?s] Some assms(2) by (simp add: replace_all_Some)
  qed (simp add: replace_all_None str_find_passes [OF assms(1)])
qed

lemma passes_nth:
  assumes "take (length p) (drop j u @ s) = p" "k < length p" "j + k < length u"
  shows "p ! k = u ! (j + k)"
proof -
  have "p ! k = take (length p) (drop j u @ s) ! k" using assms(1) by simp
  also have "\<dots> = (drop j u @ s) ! k" using assms(2) by (rule nth_take)
  also have "\<dots> = u ! (j + k)" using assms(3) by (simp add: nth_append less_diff_conv add.commute)
  finally show ?thesis .
qed

lemma passes_no_amp: "CHR ''&'' \<notin> set u \<Longrightarrow> p = CHR ''&'' # q \<Longrightarrow> passes p u"
  unfolding passes_def using passes_nth [of p _ u _ 0] by (metis add.right_neutral length_greater_0_conv
      list.distinct(1) nth_Cons_0 nth_mem)

section \<open>Lemmas: escaped text as tokens\<close>

text \<open>
  Between two rounds of \<open>UnescapeHtml\<close> an escaped text is a list of characters, some of them
  still written as an entity.
\<close>

definition named_entities :: "(char \<times> string) list" where
  "named_entities =
     [(CHR ''<'', ''&lt;''), (CHR ''>'', ''&gt;''), (CHR 0x22, ''&quot;''), (CHR 0x27, ''&apos;'')]"

definition spell :: "char set \<Rightarrow> char \<Rightarrow> string" where
  "spell E c = (case map_of named_entities c of
     Some e \<Rightarrow> if c \<in> E then e else [c] | None \<Rightarrow> [c])"

definition spell_all :: "char set \<Rightarrow> string \<Rightarrow> string" where
  "spell_all E s = concat (map (spell E) s)"

lemma EscapeHtml_spell:
  assumes "CHR ''&'' \<notin> set s"
  shows "EscapeHtml s = spell_all UNIV s"
  using assms unfolding EscapeHtml_def spell_all_def
  by (intro arg_cong [of _ _ concat] map_cong refl)
    (auto simp: EscapeHtml_char_def spell_def named_entities_def)

lemma spell_all_empty: "spell_all {} s = s"
proof -
  have "spell {} c = [c]" for c by (simp add: spell_def split: option.split)
  then show ?thesis by (induction s) (simp_all add: spell_all_def)
qed

lemma spell_cases:
  "spell E c = [c] \<or> spell E c \<in> snd ` set named_entities"
proof (cases "map_of named_entities c")
  case (Some e)
  then show ?thesis using map_of_SomeD [OF Some] by (force simp: spell_def)
qed (simp add: spell_def)

lemma passes_differ:
  assumes "p ! 1 \<noteq> u ! 1 \<or> p ! 2 \<noteq> u ! 2" "3 \<le> length u" "3 \<le> length p"
    "p ! 0 = CHR ''&''" "CHR ''&'' \<notin> set (tl u)"
  shows "passes p u"
  unfolding passes_def
proof (intro allI impI notI)
  fix j s assume j: "j < length u" and eq: "take (length p) (drop j u @ s) = p"
  note nth = passes_nth [OF eq]
  show False
  proof (cases j)
    case 0
    with nth [of 1] nth [of 2] assms show ?thesis by (auto simp: numeral_2_eq_2)
  next
    case (Suc m)
    have "u ! j = CHR ''&''" using nth [of 0] j assms(3,4) by (cases p) simp_all
    moreover have "u ! j \<in> set (tl u)" using Suc j by (simp add: nth_tl [symmetric])
    ultimately show ?thesis using assms(5) by simp
  qed
qed

lemma named_entity_shape:
  assumes "map_of named_entities c = Some e"
  shows "e ! 0 = CHR ''&''" "4 \<le> length e" "CHR ''&'' \<notin> set (tl e)" "c \<noteq> CHR ''&''"
  using assms by (auto simp: named_entities_def split: if_splits)

lemma named_entities_differ:
  assumes "map_of named_entities c = Some e" "map_of named_entities d = Some f" "c \<noteq> d"
  shows "e ! 1 \<noteq> f ! 1 \<or> e ! 2 \<noteq> f ! 2"
  using assms by (auto simp: named_entities_def split: if_splits)

text \<open>One round: an entity of the table is replaced everywhere.\<close>

lemma replace_all_spell:
  assumes ent: "map_of named_entities c = Some e"
    and amp: "CHR ''&'' \<notin> set s"
  shows "replace_all e [c] (spell_all E s) = spell_all (E - {c}) s"
  using amp
proof (induction s)
  case Nil
  then show ?case
    using ent by (auto simp: spell_all_def replace_all_None named_entities_def split: if_splits)
next
  case (Cons x s)
  have len: "length [c] < length e"
    using ent by (auto simp: named_entities_def split: if_splits)
  have IH: "replace_all e [c] (spell_all E s) = spell_all (E - {c}) s"
    using Cons by simp
  have pc: "passes e [y]" if "y \<noteq> CHR ''&''" for y
    using that named_entity_shape [OF ent] by (intro passes_no_amp [of _ _ "tl e"]) (auto, cases e, auto)
  show ?case
  proof (cases "x = c \<and> c \<in> E")
    case True
    then have "spell E x = e" using ent by (simp add: spell_def)
    then have "replace_all e [c] (spell_all E (x # s)) = replace_all e [c] ([c] @ spell_all E s)"
      using len by (simp add: spell_all_def replace_all_Some [of e _ 0] str_find_Some_iff)
    also have "\<dots> = [c] @ replace_all e [c] (spell_all E s)"
      using True Cons.prems len by (intro replace_all_passes pc) auto
    finally show ?thesis
      using IH True ent by (simp add: spell_all_def spell_def)
  next
    case False
    then have eq: "spell (E - {c}) x = spell E x" by (auto simp: spell_def split: option.split)
    have "passes e (spell E x)"
    proof (cases "spell E x = [x]")
      case True
      with Cons.prems show ?thesis by (auto intro: pc)
    next
      case False
      then obtain e' where e': "map_of named_entities x = Some e'" "spell E x = e'" "x \<in> E"
        by (auto simp: spell_def split: option.splits if_splits)
      with \<open>\<not> (x = c \<and> c \<in> E)\<close> have "x \<noteq> c" by auto
      with named_entities_differ [OF ent e'(1)] named_entity_shape [OF ent]
        named_entity_shape [OF e'(1)] e'(2)
      show ?thesis by (intro passes_differ) auto
    qed
    with len IH eq show ?thesis by (simp add: spell_all_def replace_all_passes)
  qed
qed

text \<open>Entities that do not occur are passed over.\<close>

lemma replace_all_spell_other:
  assumes "p \<in> {''&#34;'', ''&#38;'', ''&#39;'', ''&#60;'', ''&#62;'', ''&amp;''}"
    and "CHR ''&'' \<notin> set s" and "length r < length p"
  shows "replace_all p r (spell_all E s) = spell_all E s"
  using assms(2)
proof (induction s)
  case Nil
  then show ?case using assms(1) by (auto simp: spell_all_def replace_all_None)
next
  case (Cons x s)
  have "passes p (spell E x)"
    using spell_cases [of E x]
  proof
    assume "spell E x = [x]"
    with Cons.prems assms(1) show ?thesis by (auto intro: passes_no_amp)
  next
    assume "spell E x \<in> snd ` set named_entities"
    with assms(1) show ?thesis by (intro passes_differ) (auto simp: named_entities_def)
  qed
  with Cons assms(3) show ?case by (simp add: spell_all_def replace_all_passes)
qed

section \<open>Lemmas: escaping is injective\<close>

lemma EscapeHtml_char_nonempty: "EscapeHtml_char c \<noteq> []"
  by (simp add: EscapeHtml_char_def)

lemma EscapeHtml_char_prefix_free:
  "EscapeHtml_char c @ x = EscapeHtml_char d @ y \<Longrightarrow> c = d"
  by (auto simp: EscapeHtml_char_def split: if_splits)

lemma EscapeHtml_inj: "EscapeHtml s = EscapeHtml t \<Longrightarrow> s = t"
proof (induction s arbitrary: t)
  case Nil
  then show ?case by (cases t) (simp_all add: EscapeHtml_def EscapeHtml_char_nonempty)
next
  case (Cons c s)
  then obtain d u where t: "t = d # u"
    by (cases t) (simp_all add: EscapeHtml_def EscapeHtml_char_nonempty)
  with Cons.prems have eq: "EscapeHtml_char c @ EscapeHtml s = EscapeHtml_char d @ EscapeHtml u"
    by (simp add: EscapeHtml_def)
  then have "c = d" by (rule EscapeHtml_char_prefix_free)
  with eq Cons.IH t show ?case by simp
qed

section \<open>Properties\<close>

text \<open>
  C39: unescaping undoes escaping for every text that has no ampersand of its own.
\<close>

theorem UnescapeHtml_EscapeHtml:
  assumes "CHR ''&'' \<notin> set s"
  shows "UnescapeHtml (EscapeHtml s) = s"
proof -
  note other = replace_all_spell_other [OF _ assms]
  note own = replace_all_spell [OF _ assms]
  have "UnescapeHtml (spell_all UNIV s) =
      spell_all (UNIV - {CHR 0x27} - {CHR ''>''} - {CHR ''<''} - {CHR 0x22}) s"
    by (simp add: UnescapeHtml_def html_entities_def other own named_entities_def)
  also have "\<dots> = spell_all {} s"
    unfolding spell_all_def
    by (intro arg_cong [of _ _ concat] map_cong refl)
      (auto simp: spell_def named_entities_def)
  finally show ?thesis using assms by (simp add: EscapeHtml_spell spell_all_empty)
qed

theorem UnescapeHtml_EscapeHtml_witness:
  "CHR ''&'' \<notin> set ''<b>x</b>'' \<and> UnescapeHtml (EscapeHtml ''<b>x</b>'') = ''<b>x</b>''"
  using UnescapeHtml_EscapeHtml [of "''<b>x</b>''"] by simp

text \<open>
  with an ampersand in the text the round trip fails: the ampersand that replaces
  \<open>&amp;\<close> is read again as the start of an entity, so the escaped form of \<open>&lt;\<close>
  comes back as an angle bracket.
\<close>

theorem UnescapeHtml_not_inverse:
  "EscapeHtml ''&lt;'' = ''&amp;lt;'' \<and> UnescapeHtml (EscapeHtml ''&lt;'') = ''<''"
  by code_simp

text \<open>
  escaped text has no character that opens or closes a tag or an attribute value, and
  distinct texts have distinct escaped forms.
\<close>

theorem EscapeHtml_safe:
  "set (EscapeHtml s) \<inter> {CHR ''<'', CHR ''>'', CHR 0x22, CHR 0x27} = {} \<and>
   (EscapeHtml s = EscapeHtml t \<longleftrightarrow> s = t)"
proof
  have "set (EscapeHtml_char c) \<inter> {CHR ''<'', CHR ''>'', CHR 0x22, CHR 0x27} = {}" for c
    by (simp add: EscapeHtml_char_def)
  then show "set (EscapeHtml s) \<inter> {CHR ''<'', CHR ''>'', CHR 0x22, CHR 0x27} = {}"
    by (fastforce simp: EscapeHtml_def)
  show "EscapeHtml s = EscapeHtml t \<longleftrightarrow> s = t"
    using EscapeHtml_inj by auto
qed

end
