(* ===== verification/Rate_Limiter.thy ===== *)
theory Rate_Limiter
  imports Prelude
begin

text \<open>
  \<open>src/util/ratelimiter.h\<close> and \<open>src/util/simpleratelimiter.{h,cc}\<close>. The locale
  \<open>rate_limiter\<close> is the interface the HTTP client relies on: an operation that takes a slot at
  a given time, an invariant and the number of slots used in the running period.
\<close>

record simple_rate_limiter =
  max_rate :: int
  used_in_period :: int
  period_end :: int

definition kRatePeriod :: int where "kRatePeriod = 1"

definition SimpleRateLimiter :: "int \<Rightarrow> simple_rate_limiter" where
  "SimpleRateLimiter rate_per_sec =
     \<lparr>max_rate = (if rate_per_sec \<le> 0 then 1 else rate_per_sec),
      used_in_period = 0, period_end = 0\<rparr>"

definition TakeRateSlotWithTime ::
  "int \<Rightarrow> simple_rate_limiter \<Rightarrow> bool \<times> simple_rate_limiter"
where
  "TakeRateSlotWithTime current_time_sec l =
     (if current_time_sec \<ge> period_end l
      then (True, l\<lparr>period_end := current_time_sec + kRatePeriod, used_in_period := 1\<rparr>)
      else if used_in_period l < max_rate l
      then (True, l\<lparr>used_in_period := used_in_period l + 1\<rparr>)
      else (False, l))"

text \<open>A run of calls at the given times; the result lists which calls were granted.\<close>

fun take_slots :: "(int \<Rightarrow> 's \<Rightarrow> bool \<times> 's) \<Rightarrow> int list \<Rightarrow> 's \<Rightarrow> bool list \<times> 's" where
  "take_slots slot [] l = ([], l)"
| "take_slots slot (t # ts) l =
     (let (g, l') = slot t l; (gs, l'') = take_slots slot ts l' in (g # gs, l''))"

section \<open>The interface\<close>

locale rate_limiter =
  fixes slot :: "int \<Rightarrow> 's \<Rightarrow> bool \<times> 's"
    and ok :: "'s \<Rightarrow> bool"
    and rate :: "'s \<Rightarrow> int"
    and used_at :: "int \<Rightarrow> 's \<Rightarrow> int"
  assumes ok_take: "ok s \<Longrightarrow> slot t s = (g, s') \<Longrightarrow> ok s'"
    and rate_take: "slot t s = (g, s') \<Longrightarrow> rate s' = rate s"
    and used_bounds: "ok s \<Longrightarrow> 0 \<le> used_at t s \<and> used_at t s \<le> rate s"
    and granted: "ok s \<Longrightarrow> slot t s = (True, s') \<Longrightarrow> used_at t s' = used_at t s + 1"
    and refused: "ok s \<Longrightarrow> slot t s = (False, s') \<Longrightarrow> used_at t s = rate s \<and> s' = s"
begin

lemma bounded_burst:
  "ok s \<Longrightarrow> take_slots slot (replicate n t) s = (gs, s') \<Longrightarrow>
     int (length (filter id gs)) = used_at t s' - used_at t s \<and> ok s' \<and> rate s' = rate s"
proof (induction n arbitrary: s gs s')
  case (Suc n)
  obtain g s1 where t: "slot t s = (g, s1)" by (cases "slot t s")
  obtain gs1 where r: "take_slots slot (replicate n t) s1 = (gs1, s')" and gs: "gs = g # gs1"
    using Suc.prems(2) t by (auto split: prod.splits)
  note IH = Suc.IH [OF ok_take [OF Suc.prems(1) t] r]
  show ?case
  proof (cases g)
    case True
    with IH granted [OF Suc.prems(1)] t rate_take [OF t] gs show ?thesis by simp
  next
    case False
    with refused [OF Suc.prems(1), of t s1] t have "s1 = s" by simp
    with False IH gs show ?thesis by simp
  qed
qed simp

lemma burst_at_most_rate:
  assumes "ok s" "take_slots slot (replicate n t) s = (gs, s')"
  shows "int (length (filter id gs)) \<le> rate s"
  using bounded_burst [OF assms] used_bounds [OF assms(1), of t] used_bounds [of s' t] by auto

lemma free_slot_granted:
  assumes "ok s" "used_at t s < rate s"
  shows "fst (slot t s)"
proof (rule ccontr)
  assume "\<not> fst (slot t s)"
  then have "slot t s = (False, snd (slot t s))" by (cases "slot t s") simp
  from refused [OF assms(1) this] assms(2) show False by simp
qed

end

section \<open>The simple rate limiter provides it\<close>

definition limiter_ok :: "simple_rate_limiter \<Rightarrow> bool" where
  "limiter_ok l \<longleftrightarrow> 0 \<le> used_in_period l \<and> used_in_period l \<le> max_rate l \<and> 1 \<le> max_rate l"

definition slots_used_at :: "int \<Rightarrow> simple_rate_limiter \<Rightarrow> int" where
  "slots_used_at t l = (if t \<ge> period_end l then 0 else used_in_period l)"

lemmas limiter_defs =
  limiter_ok_def slots_used_at_def TakeRateSlotWithTime_def SimpleRateLimiter_def kRatePeriod_def

interpretation simple: rate_limiter TakeRateSlotWithTime limiter_ok max_rate slots_used_at
  by unfold_locales (auto simp: limiter_defs split: if_splits)

lemma limiter_ok_new: "limiter_ok (SimpleRateLimiter r)"
  by (simp add: limiter_defs)

text \<open>The slots granted at second \<open>t\<close> in a run of calls at the given times.\<close>

fun granted_at :: "int \<Rightarrow> int list \<Rightarrow> simple_rate_limiter \<Rightarrow> nat" where
  "granted_at t [] l = 0"
| "granted_at t (now # ts) l =
     (let (g, l') = TakeRateSlotWithTime now l
      in (if g \<and> now = t then 1 else 0) + granted_at t ts l')"

lemma granted_at_later: "(\<forall>u \<in> set ts. t < u) \<Longrightarrow> granted_at t ts l = 0"
  by (induction ts arbitrary: l) (auto split: prod.splits)

lemma take_period:
  assumes "TakeRateSlotWithTime now l = (g, l')" "period_end l - 1 \<le> now"
  shows "period_end l' = now + 1"
  using assms by (auto simp: limiter_defs split: if_splits)

lemma granted_at_bound:
  assumes "limiter_ok l" "sorted ts" "\<forall>u \<in> set ts. period_end l - 1 \<le> u"
  shows "int (granted_at t ts l) + slots_used_at t l \<le> max_rate l"
  using assms
proof (induction ts arbitrary: l)
  case Nil
  then show ?case using simple.used_bounds [of l t] by simp
next
  case (Cons now ts)
  obtain g l' where take: "TakeRateSlotWithTime now l = (g, l')"
    by (cases "TakeRateSlotWithTime now l")
  from Cons.prems(3) take have pe: "period_end l' = now + 1" by (intro take_period) auto
  from Cons.prems(2) pe have ts: "\<forall>u \<in> set ts. period_end l' - 1 \<le> u" by auto
  note IH = Cons.IH [OF simple.ok_take [OF Cons.prems(1) take] _ ts]
  note rate = simple.rate_take [OF take] and bounds = simple.used_bounds [OF Cons.prems(1), of t]
  consider "now < t" | "now = t" | "t < now" by linarith
  then show ?case
  proof cases
    case 1
    with Cons.prems(3) have "slots_used_at t l = 0" by (auto simp: slots_used_at_def)
    moreover from 1 pe have "slots_used_at t l' = 0" by (simp add: slots_used_at_def)
    ultimately show ?thesis using IH Cons.prems(2) 1 take rate by simp
  next
    case 2
    show ?thesis
    proof (cases g)
      case True
      then show ?thesis
        using simple.granted [OF Cons.prems(1), of now l'] IH Cons.prems(2) 2 take rate by simp
    next
      case False
      then show ?thesis
        using simple.refused [OF Cons.prems(1), of now l'] IH Cons.prems(2) 2 take by simp
    qed
  next
    case 3
    with Cons.prems(2) have "granted_at t ts l' = 0" by (intro granted_at_later) auto
    with 3 take bounds show ?thesis by simp
  qed
qed

section \<open>Properties\<close>

text \<open>
  C37: the limiter keeps its promise over any run of calls whose clock does not go back: in
  no second are more slots granted than the configured rate (1 where the rate given is not
  positive), however many calls are made.
\<close>

theorem rate_per_second:
  assumes "sorted ts" "\<forall>u \<in> set ts. 0 \<le> u"
  shows "int (granted_at t ts (SimpleRateLimiter r)) \<le> max 1 r"
proof -
  have "\<forall>u \<in> set ts. period_end (SimpleRateLimiter r) - 1 \<le> u"
    using assms(2) by (auto simp: SimpleRateLimiter_def)
  from granted_at_bound [OF limiter_ok_new assms(1) this, of t] show ?thesis
    using simple.used_bounds [OF limiter_ok_new [of r], of t]
    by (simp add: SimpleRateLimiter_def split: if_splits)
qed

theorem rate_per_second_witness:
  "granted_at 7 [7, 7, 7, 8] (SimpleRateLimiter 2) = 2 \<and>
   int (granted_at 7 [7, 7, 7, 8] (SimpleRateLimiter 2)) \<le> max 1 2"
proof
  show "granted_at 7 [7, 7, 7, 8] (SimpleRateLimiter 2) = 2" by code_simp
  show "int (granted_at 7 [7, 7, 7, 8] (SimpleRateLimiter 2)) \<le> max 1 2"
    by (rule rate_per_second) simp_all
qed

text \<open>
  it does not refuse without need: a call is refused only when the running period has
  already used the whole rate, and the first call of a new period is always granted.
\<close>

theorem refused_only_at_rate:
  assumes "limiter_ok l"
  shows "fst (TakeRateSlotWithTime t l) \<longleftrightarrow> t \<ge> period_end l \<or> used_in_period l < max_rate l"
  using assms simple.free_slot_granted [of l t] by (auto simp: limiter_defs)

theorem refused_only_at_rate_witness:
  "limiter_ok (SimpleRateLimiter 3) \<and> fst (TakeRateSlotWithTime 5 (SimpleRateLimiter 3))"
  using refused_only_at_rate [OF limiter_ok_new, of 5 3] limiter_ok_new [of 3]
  by (simp add: SimpleRateLimiter_def)

end
