(* ===== verification/Proto.thy ===== *)
theory Proto
  imports Prelude
begin

text \<open>
  The messages and enums of \<open>src/proto\<close>. An \<open>optional\<close> field is an option
  (its presence bit is the \<open>has_\<close> accessor), a \<open>repeated\<close> field a list, and
  \<open>value_or\<close> is the generated getter that returns the field's default when it is unset.
  The enums that key a \<open>std::map\<close> are ordered by their field numbers.
\<close>

definition value_or :: "'a \<Rightarrow> 'a option \<Rightarrow> 'a" where
  "value_or d x = (case x of None \<Rightarrow> d | Some v \<Rightarrow> v)"

lemma value_or_simps [simp]: "value_or d None = d" "value_or d (Some v) = v"
  by (simp_all add: value_or_def)

section \<open>http\_common.proto\<close>

datatype mime_type =
    UNKNOWN_MIME | ASC_GENERIC | ASC_HTML | ASC_JAVASCRIPT | ASC_CSS | ASC_JSON | ASC_RTF
  | XML_GENERIC | XML_OPENSEARCH | XML_RSS | XML_ATOM | XML_WML | XML_CROSSDOMAIN | XML_SVG
  | XML_XHTML | IMG_JPEG | IMG_GIF | IMG_PNG | IMG_BMP | IMG_TIFF | IMG_ANI | AV_WAV | AV_MP3
  | AV_OGG | AV_RA | AV_AVI | AV_MPEG | AV_QT | AV_FLV | AV_RV | AV_WMEDIA | EXT_FLASH | EXT_PDF
  | EXT_JAR | EXT_CLASS | EXT_WORD | EXT_EXCEL | EXT_PPNT | BIN_ZIP | BIN_GZIP | BIN_CAB
  | APP_GENERIC | APP_OCTET | APP_UNKNOWN | APP_JAVASCRIPT | APP_XJAVASCRIPT | APP_JSON
  | APP_POSTSCRIPT

section \<open>severity.proto\<close>

datatype severity = SEVERITY_UNKNOWN | CRITICAL | HIGH | MODERATE | LOW | MINIMAL

fun severity_num :: "severity \<Rightarrow> nat" where
  "severity_num SEVERITY_UNKNOWN = 0"
| "severity_num CRITICAL = 1"
| "severity_num HIGH = 2"
| "severity_num MODERATE = 3"
| "severity_num LOW = 4"
| "severity_num MINIMAL = 5"

lemma severity_num_inj: "severity_num a = severity_num b \<longleftrightarrow> a = b"
  by (cases a; cases b; simp)

instantiation severity :: linorder
begin

definition less_eq_severity :: "severity \<Rightarrow> severity \<Rightarrow> bool" where
  "a \<le> b \<longleftrightarrow> severity_num a \<le> severity_num b"

definition less_severity :: "severity \<Rightarrow> severity \<Rightarrow> bool" where
  "a < b \<longleftrightarrow> severity_num a < severity_num b"

instance
  by standard (auto simp: less_eq_severity_def less_severity_def severity_num_inj [symmetric])

end

section \<open>http\_request.proto\<close>

datatype metadata_type = UNKNOWN_TYPE | AVERAGE_APPLICATION_TIME_USEC

instantiation metadata_type :: linorder
begin

definition less_eq_metadata_type :: "metadata_type \<Rightarrow> metadata_type \<Rightarrow> bool" where
  "a \<le> b \<longleftrightarrow> a = UNKNOWN_TYPE \<or> b = AVERAGE_APPLICATION_TIME_USEC"

definition less_metadata_type :: "metadata_type \<Rightarrow> metadata_type \<Rightarrow> bool" where
  "a < b \<longleftrightarrow> a = UNKNOWN_TYPE \<and> b = AVERAGE_APPLICATION_TIME_USEC"

instance
proof
  fix x y z :: metadata_type
  show "x < y \<longleftrightarrow> x \<le> y \<and> \<not> y \<le> x" and "x \<le> x" and "x \<le> y \<or> y \<le> x"
    by (cases x; cases y; simp add: less_eq_metadata_type_def less_metadata_type_def)+
  show "x \<le> y \<Longrightarrow> y \<le> z \<Longrightarrow> x \<le> z" and "x \<le> y \<Longrightarrow> y \<le> x \<Longrightarrow> x = y"
    by (cases x; cases y; cases z; simp add: less_eq_metadata_type_def)+
qed

end

datatype value_type = VALUE_UNKNOWN | VALUE_STRING | VALUE_NUMBER | VALUE_JSON

datatype request_method = EMPTY | GET | HEAD | OPTIONS | POST | PUT | TRACE

record request_field =
  f_name :: "string option"
  f_value :: "string option"
  f_type :: "value_type option"
  f_modified :: "bool option"

record http_request =
  hr_header :: "request_field list"
  hr_param :: "request_field list"
  hr_body_param :: "request_field list"
  hr_fragment :: "request_field list"
  hr_path :: "request_field list"
  hr_port :: "int option"
  hr_host :: "string option"
  hr_ip :: "string option"
  hr_ssl :: "bool option"
  hr_method :: "request_method option"
  hr_url :: "string option"
  hr_client_time_total_usec :: "int option"
  hr_client_time_application_usec :: "int option"
  hr_client_completion_time_ms :: "int option"
  hr_raw_url :: "string option"
  hr_raw_fragment :: "string option"

definition empty_field :: request_field where
  "empty_field = \<lparr>f_name = None, f_value = None, f_type = None, f_modified = None\<rparr>"

definition empty_request :: http_request where
  "empty_request =
     \<lparr>hr_header = [], hr_param = [], hr_body_param = [], hr_fragment = [], hr_path = [],
      hr_port = None, hr_host = None, hr_ip = None, hr_ssl = None, hr_method = None,
      hr_url = None, hr_client_time_total_usec = None, hr_client_time_application_usec = None,
      hr_client_completion_time_ms = None, hr_raw_url = None, hr_raw_fragment = None\<rparr>"

text \<open>The generated getters, with the defaults of the message definitions.\<close>

abbreviation field_name :: "request_field \<Rightarrow> string" where
  "field_name f \<equiv> value_or [] (f_name f)"

abbreviation field_value :: "request_field \<Rightarrow> string" where
  "field_value f \<equiv> value_or [] (f_value f)"

abbreviation req_ssl :: "http_request \<Rightarrow> bool" where
  "req_ssl p \<equiv> value_or False (hr_ssl p)"

abbreviation req_method :: "http_request \<Rightarrow> request_method" where
  "req_method p \<equiv> value_or GET (hr_method p)"

abbreviation req_host :: "http_request \<Rightarrow> string" where
  "req_host p \<equiv> value_or [] (hr_host p)"

abbreviation req_port :: "http_request \<Rightarrow> int" where
  "req_port p \<equiv> value_or 0 (hr_port p)"

section \<open>http\_response.proto\<close>

datatype response_code =
    UNKNOWN_CODE | CONTINUE | SWITCHING | OK | CREATED | ACCEPTED | NON_AUTHORITATIVE
  | NO_CONTENT | RESET_CONTENT | PARTIAL_CONTENT | MULTIPLE_CHOISES | MOVED_PERM | MOVED_TEMP
  | SEE_OTHER | NOT_MODIFIED | USE_PROXY | TEMP_REDIRECT | BAD_REQUEST | UNAUTHORIZED
  | PAYMENT_REQUIRED | FORBIDDEN | NOT_FOUND | METHOD_NOT_ALLOWED | NOT_ACCEPTABLE
  | PROXY_AUTHENTICATION_REQUIRED | REQUEST_TIMEOUT | CONFLICT | GONE | LENGTH_REQUIRED
  | PRECOND_FAILED | ENTITY_TOO_BIG | URI_TOO_BIG | UNKNOWN_MEDIA | BAD_RANGE
  | BAD_EXPECTATION | INTERNAL_SERVER_ERROR | NOT_IMPLEMENTED | BAD_GATEWAY
  | SERVICE_UNAVAILABLE | GATEWAY_TIMEOUT | BAD_VERSION

definition response_codes :: "(int \<times> response_code) list" where
  "response_codes =
     [(0, UNKNOWN_CODE), (100, CONTINUE), (101, SWITCHING), (200, OK), (201, CREATED),
      (202, ACCEPTED), (203, NON_AUTHORITATIVE), (204, NO_CONTENT), (205, RESET_CONTENT),
      (206, PARTIAL_CONTENT), (300, MULTIPLE_CHOISES), (301, MOVED_PERM), (302, MOVED_TEMP),
      (303, SEE_OTHER), (304, NOT_MODIFIED), (305, USE_PROXY), (307, TEMP_REDIRECT),
      (400, BAD_REQUEST), (401, UNAUTHORIZED), (402, PAYMENT_REQUIRED), (403, FORBIDDEN),
      (404, NOT_FOUND), (405, METHOD_NOT_ALLOWED), (406, NOT_ACCEPTABLE),
      (407, PROXY_AUTHENTICATION_REQUIRED), (408, REQUEST_TIMEOUT), (409, CONFLICT),
      (410, GONE), (411, LENGTH_REQUIRED), (412, PRECOND_FAILED), (413, ENTITY_TOO_BIG),
      (414, URI_TOO_BIG), (415, UNKNOWN_MEDIA), (416, BAD_RANGE), (417, BAD_EXPECTATION),
      (500, INTERNAL_SERVER_ERROR), (501, NOT_IMPLEMENTED), (502, BAD_GATEWAY),
      (503, SERVICE_UNAVAILABLE), (504, GATEWAY_TIMEOUT), (505, BAD_VERSION)]"

definition ResponseCode_IsValid :: "int \<Rightarrow> bool" where
  "ResponseCode_IsValid n \<longleftrightarrow> map_of response_codes n \<noteq> None"

definition ResponseCode :: "int \<Rightarrow> response_code" where
  "ResponseCode n = value_or UNKNOWN_CODE (map_of response_codes n)"

record header_field =
  h_name :: "string option"
  h_value :: "string option"

record http_response =
  hp_code :: "response_code option"
  hp_mime_type :: "mime_type option"
  hp_header :: "header_field list"
  hp_response_body :: "string option"

definition empty_response :: http_response where
  "empty_response =
     \<lparr>hp_code = None, hp_mime_type = None, hp_header = [], hp_response_body = None\<rparr>"

abbreviation resp_code :: "http_response \<Rightarrow> response_code" where
  "resp_code p \<equiv> value_or UNKNOWN_CODE (hp_code p)"

abbreviation resp_mime :: "http_response \<Rightarrow> mime_type" where
  "resp_mime p \<equiv> value_or UNKNOWN_MIME (hp_mime_type p)"

abbreviation resp_body :: "http_response \<Rightarrow> string" where
  "resp_body p \<equiv> value_or [] (hp_response_body p)"

section \<open>issue\_details.proto\<close>

datatype issue_type =
    INVALID | XSS_REFLECTED | XSS_REFLECTED_TAG | XSS_REFLECTED_ATTRIBUTE
  | XSS_REFLECTED_JAVASCRIPT | XSS_STORED | FILE_INCLUSION_LOCAL | FILE_INCLUSION_REMOTE
  | MIXED_CONTENT | CRLF_INJECTION | SHELL_INJECTION | PLAINTEXT_LOGIN_FORM
  | PLAINTEXT_LOGIN_FORM_TARGET | GENERIC_MIME | TEMPLATE_INJECTION | SQL_INJECTION
  | BLIND_SQL_INJECTION | BLIND_SHELL_INJECTION | XSRF_PASSIVE | OBJECT_FOUND
  | INFORMATION_LEAK | STACKTRACE_LEAK | SOURCE_CODE_MIME | APPLICATION_ERROR | SLOW_SERVER

fun issue_num :: "issue_type \<Rightarrow> nat" where
  "issue_num INVALID = 0"
| "issue_num XSS_REFLECTED = 1"
| "issue_num XSS_REFLECTED_TAG = 2"
| "issue_num XSS_REFLECTED_ATTRIBUTE = 3"
| "issue_num XSS_REFLECTED_JAVASCRIPT = 4"
| "issue_num XSS_STORED = 5"
| "issue_num FILE_INCLUSION_LOCAL = 10"
| "issue_num FILE_INCLUSION_REMOTE = 11"
| "issue_num MIXED_CONTENT = 12"
| "issue_num CRLF_INJECTION = 13"
| "issue_num SHELL_INJECTION = 14"
| "issue_num PLAINTEXT_LOGIN_FORM = 15"
| "issue_num PLAINTEXT_LOGIN_FORM_TARGET = 16"
| "issue_num GENERIC_MIME = 17"
| "issue_num TEMPLATE_INJECTION = 18"
| "issue_num SQL_INJECTION = 19"
| "issue_num BLIND_SQL_INJECTION = 20"
| "issue_num BLIND_SHELL_INJECTION = 21"
| "issue_num XSRF_PASSIVE = 22"
| "issue_num OBJECT_FOUND = 23"
| "issue_num INFORMATION_LEAK = 50"
| "issue_num STACKTRACE_LEAK = 51"
| "issue_num SOURCE_CODE_MIME = 52"
| "issue_num APPLICATION_ERROR = 53"
| "issue_num SLOW_SERVER = 80"

lemma issue_num_inj: "issue_num a = issue_num b \<longleftrightarrow> a = b"
  by (cases a; cases b; simp)

instantiation issue_type :: linorder
begin

definition less_eq_issue_type :: "issue_type \<Rightarrow> issue_type \<Rightarrow> bool" where
  "a \<le> b \<longleftrightarrow> issue_num a \<le> issue_num b"

definition less_issue_type :: "issue_type \<Rightarrow> issue_type \<Rightarrow> bool" where
  "a < b \<longleftrightarrow> issue_num a < issue_num b"

instance
  by standard (auto simp: less_eq_issue_type_def less_issue_type_def issue_num_inj [symmetric])

end

record issue_details =
  is_type :: "issue_type option"
  is_issue_name :: "string option"
  is_request :: "http_request option"
  is_response :: "http_response option"
  is_severity :: "severity option"
  is_request_id :: "int option"
  is_extra_info :: "string option"
  is_response_snippet :: "string option"
  is_response_body_offset :: "int option"

definition empty_issue :: issue_details where
  "empty_issue =
     \<lparr>is_type = None, is_issue_name = None, is_request = None, is_response = None,
      is_severity = None, is_request_id = None, is_extra_info = None,
      is_response_snippet = None, is_response_body_offset = None\<rparr>"

abbreviation issue_type_of :: "issue_details \<Rightarrow> issue_type" where
  "issue_type_of i \<equiv> value_or INVALID (is_type i)"

abbreviation issue_severity_of :: "issue_details \<Rightarrow> severity" where
  "issue_severity_of i \<equiv> value_or SEVERITY_UNKNOWN (is_severity i)"

section \<open>generator.proto\<close>

datatype target_type = TARGET_UNKNOWN | HEADERS | URL_PARAMS | BODY_PARAMS | PATH_ELEMENTS

record payload_target =
  pt_type :: "target_type option"
  pt_target_name :: "string list"
  pt_last_field_only :: "bool option"

datatype payload_type = PAYLOAD_UNKNOWN | PAYLOAD_STRING | NUMBER_RANGE

record payload =
  pl_type :: "payload_type option"
  pl_arg :: "string list"

datatype injection_method = INVALID_METHOD | SET_VALUE | APPEND_TO_VALUE | PREFIX_VALUE

datatype encoding_type = ENCODING_AUTO | ENCODING_NONE | ENCODING_URL | ENCODING_HTML

record generator_rule =
  gr_method :: "injection_method list"
  gr_encoding :: "encoding_type list"
  gr_target :: "payload_target list"
  gr_payload :: "payload option"

section \<open>matching.proto\<close>

datatype match_method =
  METHOD_NONE | METHOD_CONTAINS | METHOD_REGEX | METHOD_EQUALS | METHOD_TIMING | METHOD_PREFIX

datatype match_target =
  TARGET_UNSPECIFIED | RESPONSE_BODY | RESPONSE_HEADER_VALUE | REQUEST_URL

record timing =
  tm_min_duration_ms :: "32 word option"
  tm_max_duration_ms :: "32 word option"

record match =
  ma_method :: "match_method option"
  ma_value :: "string list"
  ma_case_insensitive :: "bool option"
  ma_negative_match :: "bool option"
  ma_timing :: "timing option"

record condition =
  co_target :: "match_target option"
  co_match :: "match list"
  co_field :: "string option"

record match_rule =
  mr_condition :: "condition list"

section \<open>advisory.proto and security\_check.proto\<close>

record advisory =
  ad_severity :: "severity option"
  ad_title :: "string option"

record security_test =
  st_name :: "string option"
  st_issue_type :: "issue_type option"
  st_generator_rule :: "generator_rule option"
  st_allow_serial_evaluation :: "bool option"
  st_matching_rule :: "match_rule option"
  st_advisory :: "advisory option"

type_synonym security_check_config = "security_test list"

section \<open>report.proto\<close>

datatype report_type = REPORT_UNSPECIFIED | TEXT | JSON

end
