(* ===== verification/Externals.thy ===== *)
theory Externals
  imports Proto
begin

text \<open>
  What plusfish calls and does not contain. Code of other packages is a parameter: the record
  \<open>externals\<close> has one function per routine of Abseil, RE2, googleurl, Gumbo and protobuf that
  the sources use, and the predicates below name the documented behaviour the code relies on.
  A GURL is the tuple of answers its accessors give; a Gumbo document is the tree the library
  hands to the filters. The command-line flags (\<open>ABSL_FLAG\<close>) are one record.
\<close>

section \<open>googleurl\<close>

record gurl =
  g_spec :: string
  g_is_valid :: bool
  g_host :: string
  g_EffectiveIntPort :: int
  g_SchemeIsSecure :: bool
  g_path :: string
  g_has_query :: bool
  g_query :: string

section \<open>Gumbo\<close>

text \<open>
  The tags the filters test for, the rest by number. \<open>original_tag\<close> points into the parsed
  buffer and is not terminated at the end of the tag, so read as a C string it is the rest of
  the document from the tag on (\<^const>\<open>None\<close> where the parser made the element up). Gumbo
  gives every attribute a value, the empty string if the document has none.
\<close>

datatype gumbo_tag =
    GUMBO_TAG_FORM | GUMBO_TAG_INPUT | GUMBO_TAG_TEXTAREA | GUMBO_TAG_SELECT | GUMBO_TAG_META
  | GUMBO_TAG_SCRIPT | GUMBO_TAG_UNKNOWN | GUMBO_TAG_OTHER nat

record gumbo_attribute =
  at_name :: string
  at_value :: string

record gumbo_text =
  tx_text :: string
  tx_original_text :: string

datatype gumbo_node =
    GUMBO_NODE_ELEMENT gumbo_element
  | GUMBO_NODE_TEXT gumbo_text
  | GUMBO_NODE_COMMENT gumbo_text
  | GUMBO_NODE_OTHER
and gumbo_element =
  GumboElement (el_tag: gumbo_tag) (el_original_tag: "string option")
    (el_attributes: "gumbo_attribute list") (el_children: "gumbo_node list")
    (el_start_offset: int) (el_start_line: int)

section \<open>The library functions\<close>

record externals =
  GURL :: "string \<Rightarrow> gurl"
  Resolve :: "gurl \<Rightarrow> string \<Rightarrow> gurl"
  StrSplit :: "(char \<Rightarrow> bool) \<Rightarrow> string \<Rightarrow> string list"
  StartsWithIgnoreCase :: "string \<Rightarrow> string \<Rightarrow> bool"
  SimpleAtoi :: "string \<Rightarrow> int option"
  RE2_ok :: "string \<Rightarrow> bool"
  PartialMatch :: "string \<Rightarrow> string \<Rightarrow> bool"
  FullMatch :: "string \<Rightarrow> string \<Rightarrow> bool"
  FullMatch_int64 :: "string \<Rightarrow> string \<Rightarrow> int option"
  PartialMatch_int64 :: "string \<Rightarrow> string \<Rightarrow> int option"
  FindAndConsume :: "string \<Rightarrow> string \<Rightarrow> (string \<times> string) option"
  gumbo_parse :: "string \<Rightarrow> gumbo_element option"
  gumbo_get_attribute :: "gumbo_attribute list \<Rightarrow> string \<Rightarrow> gumbo_attribute option"
  MessageEquals :: "issue_details \<Rightarrow> issue_details \<Rightarrow> bool"

text \<open>\<open>absl::StrSplit\<close> returns the pieces between the delimiters.\<close>

definition split_law :: "externals \<Rightarrow> bool" where
  "split_law L \<longleftrightarrow> (\<forall>P s. StrSplit L P s = split_by P s)"

text \<open>\<open>absl::StartsWithIgnoreCase\<close> compares the letters of a prefix in either case.\<close>

definition starts_law :: "externals \<Rightarrow> bool" where
  "starts_law L \<longleftrightarrow>
     (\<forall>s p. StartsWithIgnoreCase L s p \<longleftrightarrow>
        length p \<le> length s \<and> map tolower (take (length p) s) = map tolower p)"

text \<open>\<open>gumbo_get_attribute\<close> returns an attribute of the vector, of that name in either case.\<close>

definition attribute_law :: "externals \<Rightarrow> bool" where
  "attribute_law L \<longleftrightarrow>
     (\<forall>attrs name. gumbo_get_attribute L attrs name =
        find (\<lambda>a. map tolower (at_name a) = map tolower name) attrs)"

text \<open>\<open>MessageDifferencer::Equals\<close> compares messages field by field.\<close>

definition message_law :: "externals \<Rightarrow> bool" where
  "message_law L \<longleftrightarrow> (\<forall>a b. MessageEquals L a b \<longleftrightarrow> a = b)"

text \<open>A valid URL has a path, and it starts with a slash.\<close>

definition gurl_law :: "externals \<Rightarrow> bool" where
  "gurl_law L \<longleftrightarrow>
     (\<forall>s. g_is_valid (GURL L s) \<longrightarrow> take 1 (g_path (GURL L s)) = ''/'') \<and>
     (\<forall>g s. g_is_valid (Resolve L g s) \<longrightarrow> take 1 (g_path (Resolve L g s)) = ''/'')"

text \<open>\<open>absl::SimpleAtoi\<close> reads the decimal digits of an \<open>int\<close>.\<close>

definition atoi_law :: "externals \<Rightarrow> bool" where
  "atoi_law L \<longleftrightarrow> (\<forall>n < 2 ^ 31. SimpleAtoi L (nat_dec n) = Some (int n))"

text \<open>\<open>RE2::FindAndConsume\<close> moves the input past a match of a pattern that matches no empty
  string: the patterns \<open>res\<close> are such patterns.\<close>

definition consume_law :: "externals \<Rightarrow> string list \<Rightarrow> bool" where
  "consume_law L res \<longleftrightarrow>
     (\<forall>re \<in> set res. \<forall>s c rest. FindAndConsume L re s = Some (c, rest) \<longrightarrow> length rest < length s)"

section \<open>Flags\<close>

record flags =
  fl_user_agent :: string
  fl_pivot_request_limit :: int
  fl_pivot_child_limit :: int
  fl_max_issues_per_check_per_url :: int
  fl_max_issues_per_url :: int
  fl_max_issues_per_check :: int
  fl_extract_links :: bool
  fl_discard_binary_responses :: bool
  fl_connection_limit :: int
  fl_max_response_read_size :: int
  fl_http_proxy :: string
  fl_max_graceful_shutdown_duration :: int
  fl_text_report_file :: string
  fl_json_report_file :: string
  fl_request_timeout_sec :: int
  fl_response_buffer_size :: int
  fl_cookie_file :: string
  fl_client_ssl_cert :: string
  fl_client_ssl_key :: string
  fl_client_ssl_key_password :: string
  fl_max_request_rate_sec :: int
  fl_max_auditor_runners :: int
  fl_response_time_threshold_ms :: int
  fl_response_time_measurements :: int
  fl_max_scan_duration_sec :: int
  fl_report_type :: string
  fl_include_regex_list :: string
  fl_exclude_regex_list :: string
  fl_default_headers :: string
  fl_enable_console_reporting :: bool
  fl_checks_config_path :: string
  fl_bruteforce_wordlist :: string
  fl_bruteforce_extensions :: string
  fl_requests_asciipb_file :: string

definition default_flags :: flags where
  "default_flags =
     \<lparr>fl_user_agent = ''Plusfish'', fl_pivot_request_limit = 100, fl_pivot_child_limit = 100,
      fl_max_issues_per_check_per_url = 3, fl_max_issues_per_url = 25,
      fl_max_issues_per_check = 100, fl_extract_links = True,
      fl_discard_binary_responses = True, fl_connection_limit = 10,
      fl_max_response_read_size = 512 * 1024, fl_http_proxy = [],
      fl_max_graceful_shutdown_duration = 300, fl_text_report_file = ''/dev/stdout'',
      fl_json_report_file = ''report.json'', fl_request_timeout_sec = 10,
      fl_response_buffer_size = 256 * 1024, fl_cookie_file = [], fl_client_ssl_cert = [],
      fl_client_ssl_key = [], fl_client_ssl_key_password = [], fl_max_request_rate_sec = 100,
      fl_max_auditor_runners = 10, fl_response_time_threshold_ms = 8000,
      fl_response_time_measurements = 3, fl_max_scan_duration_sec = 86400, fl_report_type = [],
      fl_include_regex_list = [], fl_exclude_regex_list = [], fl_default_headers = [],
      fl_enable_console_reporting = True, fl_checks_config_path = [], fl_bruteforce_wordlist = [],
      fl_bruteforce_extensions = [], fl_requests_asciipb_file = []\<rparr>"

text \<open>An \<open>int\<close> in a comparison with a \<open>size_t\<close> is converted to 64 unsigned bits.\<close>

definition size_of_int :: "int \<Rightarrow> nat" where
  "size_of_int i = nat (i mod 2 ^ 64)"

lemma size_of_int_small: "0 \<le> i \<Longrightarrow> i < 2 ^ 64 \<Longrightarrow> size_of_int i = nat i"
  by (simp add: size_of_int_def)

lemma size_of_int_negative:
  assumes "- (2 ^ 31) \<le> i" "i < 0"
  shows "2 ^ 63 \<le> size_of_int i"
proof -
  have "i mod 2 ^ 64 = (i + 2 ^ 64) mod 2 ^ 64" by simp
  also have "\<dots> = i + 2 ^ 64" using assms by (intro mod_pos_pos_trivial) simp_all
  finally show ?thesis using assms by (simp add: size_of_int_def)
qed

section \<open>A concrete library\<close>

text \<open>
  One instance of the parameters that satisfies the laws, for evaluating the model on concrete
  inputs: a URL parser for absolute \<open>http\<close> and \<open>https\<close> URLs with a lower-case host and an
  optional port, and regular expressions that match literally.
\<close>

fun dec_value :: "nat \<Rightarrow> string \<Rightarrow> nat option" where
  "dec_value n [] = Some n"
| "dec_value n (c # s) = (if isdigit c then dec_value (10 * n + (byte c - 48)) s else None)"

definition simple_atoi :: "string \<Rightarrow> int option" where
  "simple_atoi s = (if s = [] then None else map_option int (dec_value 0 s))"

definition no_gurl :: gurl where
  "no_gurl = \<lparr>g_spec = [], g_is_valid = False, g_host = [], g_EffectiveIntPort = -1,
     g_SchemeIsSecure = False, g_path = [], g_has_query = False, g_query = []\<rparr>"

definition simple_path :: "string \<Rightarrow> string" where
  "simple_path tail =
     (let pa = takeWhile (\<lambda>c. c \<noteq> CHR ''?'') tail in if take 1 pa = ''/'' then pa else ''/'')"

definition simple_gurl :: "string \<Rightarrow> gurl" where
  "simple_gurl s =
     (case str_find ''://'' s of
        None \<Rightarrow> no_gurl
      | Some i \<Rightarrow>
          let sch = take i s; rest = drop (i + 3) s;
              auth = takeWhile (\<lambda>c. c \<noteq> CHR ''/'' \<and> c \<noteq> CHR ''?'') rest;
              tail = drop (length auth) rest;
              h = takeWhile (\<lambda>c. c \<noteq> CHR '':'') auth;
              secure = (sch = ''https'');
              p = (if h = auth then Some (if secure then 443 else 80)
                   else simple_atoi (drop (length h + 1) auth));
              q = dropWhile (\<lambda>c. c \<noteq> CHR ''?'') tail
          in (case p of
                Some n \<Rightarrow>
                  \<lparr>g_spec = s, g_is_valid = ((sch = ''http'' \<or> secure) \<and> h \<noteq> []), g_host = h,
                   g_EffectiveIntPort = n, g_SchemeIsSecure = secure, g_path = simple_path tail,
                   g_has_query = (q \<noteq> []), g_query = drop 1 q\<rparr>
              | None \<Rightarrow> no_gurl))"

definition simple_resolve :: "gurl \<Rightarrow> string \<Rightarrow> gurl" where
  "simple_resolve g s =
     (if g_is_valid g \<and> take 1 s = ''/'' then g\<lparr>g_spec := s, g_path := s, g_has_query := False, g_query := []\<rparr>
      else no_gurl)"

definition simple_lib :: externals where
  "simple_lib =
     \<lparr>GURL = simple_gurl, Resolve = simple_resolve, StrSplit = split_by,
      StartsWithIgnoreCase = (\<lambda>s p. length p \<le> length s \<and>
        map tolower (take (length p) s) = map tolower p),
      SimpleAtoi = simple_atoi, RE2_ok = (\<lambda>re. re \<noteq> ''(''),
      PartialMatch = (\<lambda>s re. str_find re s \<noteq> None), FullMatch = (\<lambda>s re. s = re),
      FullMatch_int64 = (\<lambda>s re. simple_atoi s), PartialMatch_int64 = (\<lambda>s re. simple_atoi s),
      FindAndConsume = (\<lambda>re s. None), gumbo_parse = (\<lambda>s. None),
      gumbo_get_attribute =
        (\<lambda>attrs name. find (\<lambda>a. map tolower (at_name a) = map tolower name) attrs),
      MessageEquals = (=)\<rparr>"

lemma split_law_simple [simp]: "split_law simple_lib"
  by (simp add: split_law_def simple_lib_def)

lemma starts_law_simple [simp]: "starts_law simple_lib"
  by (simp add: starts_law_def simple_lib_def)

lemma attribute_law_simple [simp]: "attribute_law simple_lib"
  by (simp add: attribute_law_def simple_lib_def)

lemma message_law_simple [simp]: "message_law simple_lib"
  by (simp add: message_law_def simple_lib_def)

lemma consume_law_simple [simp]: "consume_law simple_lib res"
  by (simp add: consume_law_def simple_lib_def)

lemma dec_value_append:
  "dec_value n (s @ [c]) =
     (case dec_value n s of None \<Rightarrow> None
      | Some m \<Rightarrow> if isdigit c then Some (10 * m + (byte c - 48)) else None)"
  by (induction s arbitrary: n) auto

lemma dec_value_nat_dec: "dec_value 0 (nat_dec n) = Some n"
proof (induction n rule: nat_dec.induct)
  case (1 n)
  show ?case
  proof (cases "n < 10")
    case True
    then show ?thesis by (simp add: nat_dec.simps [of n] isdigit_dec_digit byte_dec_digit)
  next
    case False
    then have "dec_value 0 (nat_dec n) = Some (10 * (n div 10) + n mod 10)"
      using 1 by (simp add: nat_dec.simps [of n] dec_value_append isdigit_dec_digit byte_dec_digit)
    then show ?thesis by simp
  qed
qed

lemma atoi_law_simple [simp]: "atoi_law simple_lib"
  by (simp add: atoi_law_def simple_lib_def simple_atoi_def dec_value_nat_dec)

lemma simple_gurl_cases: "simple_gurl s = no_gurl \<or> (\<exists>t. g_path (simple_gurl s) = simple_path t)"
  unfolding simple_gurl_def Let_def
  by (cases "str_find ''://'' s"; simp only: option.case simp_thms; split option.split) auto

lemma simple_gurl_path:
  assumes "g_is_valid (simple_gurl s)"
  shows "take 1 (g_path (simple_gurl s)) = ''/''"
proof -
  have "take 1 (simple_path t) = ''/''" for t
    by (simp add: simple_path_def Let_def)
  moreover from assms have "simple_gurl s \<noteq> no_gurl" by (auto simp: no_gurl_def)
  ultimately show ?thesis using simple_gurl_cases [of s] by metis
qed

lemma gurl_law_simple [simp]: "gurl_law simple_lib"
  using simple_gurl_path
  by (auto simp: gurl_law_def simple_lib_def simple_resolve_def no_gurl_def)

end
