(* ===== verification/Http_Util.thy ===== *)
theory Http_Util
  imports Externals
begin

text \<open>
  \<open>src/util/http_util.{h,cc}\<close>: the header names and the mime type of a \<open>Content-type\<close>
  value. The table has \<open>image/svg+xml\<close> twice, as the source does.
\<close>

definition kContentType :: string where "kContentType = ''Content-type''"
definition kUserAgent :: string where "kUserAgent = ''User-Agent''"
definition kLocation :: string where "kLocation = ''Location''"
definition kReferer :: string where "kReferer = ''Referer''"

definition kContentTypes :: "(string \<times> mime_type) list" where
  "kContentTypes =
     [(''text/plain'', ASC_GENERIC), (''text/html'', ASC_HTML), (''text/xml'', XML_GENERIC),
      (''text/rtf'', ASC_RTF), (''text/vnd.wap.wml'', XML_WML),
      (''text/x-cross-domain-policy'', XML_CROSSDOMAIN), (''text/css'', ASC_CSS),
      (''text/json'', ASC_JSON), (''text/javascript'', ASC_JAVASCRIPT),
      (''image/svg+xml'', XML_SVG), (''image/jpeg'', IMG_JPEG), (''image/gif'', IMG_GIF),
      (''image/png'', IMG_PNG), (''image/x-ms-bmp'', IMG_BMP), (''image/tiff'', IMG_TIFF),
      (''image/svg+xml'', XML_SVG), (''video/avi'', AV_AVI), (''video/mpeg'', AV_MPEG),
      (''video/quicktime'', AV_QT), (''video/flv'', AV_FLV), (''video/vnd.rn-realvideo'', AV_RV),
      (''video/x-ms-wmv'', AV_WMEDIA), (''audio/x-wav'', AV_WAV), (''audio/mpeg'', AV_MP3),
      (''audio/vnd.rn-realaudio'', AV_RA), (''application/binary'', APP_GENERIC),
      (''application/unknown'', APP_UNKNOWN), (''application/octet-stream'', APP_OCTET),
      (''application/javascript'', APP_JAVASCRIPT),
      (''application/x-javascript'', APP_JAVASCRIPT), (''application/json'', APP_JSON),
      (''application/postscript'', APP_POSTSCRIPT), (''application/rss+xml'', XML_RSS),
      (''application/atom+xml'', XML_ATOM), (''application/xhtml+xml'', XML_XHTML),
      (''application/x-shockwave-flash'', EXT_FLASH), (''application/pdf'', EXT_PDF),
      (''application/java-archive'', EXT_JAR), (''application/java-vm'', EXT_CLASS),
      (''application/msword'', EXT_WORD), (''application/vnd.ms-excel'', EXT_EXCEL),
      (''application/vnd.ms-powerpoint'', EXT_PPNT), (''application/zip'', BIN_ZIP),
      (''application/x-gzip'', BIN_GZIP), (''application/x-navi-animation'', IMG_ANI),
      (''application/vnd.ms-cab-compressed'', BIN_CAB), (''application/ogg'', AV_OGG),
      (''application/opensearchdescription+xml'', XML_OPENSEARCH)]"

fun mime_lookup :: "string \<Rightarrow> (string \<times> mime_type) list \<Rightarrow> mime_type" where
  "mime_lookup part [] = UNKNOWN_MIME"
| "mime_lookup part ((name, type) # rest) =
     (if strcasecmp_eq name part then type else mime_lookup part rest)"

text \<open>\<open>mime_parts[0]\<close> on an empty vector would be out of range.\<close>

definition GetMimeType :: "externals \<Rightarrow> string option \<Rightarrow> mime_type result" where
  "GetMimeType L content_type =
     (case content_type of
        None \<Rightarrow> Inr UNKNOWN_MIME
      | Some s \<Rightarrow>
          (case StrSplit L (\<lambda>c. c = CHR '';'') s of
             [] \<Rightarrow> Inl OutOfRange
           | part # _ \<Rightarrow> Inr (mime_lookup part kContentTypes)))"

section \<open>Lemmas\<close>

lemma GetMimeType_total: "split_law L \<Longrightarrow> \<exists>m. GetMimeType L ct = Inr m"
  by (auto simp: GetMimeType_def split_law_def split: option.split list.split)

lemma GetMimeType_params:
  assumes "split_law L" "CHR '';'' \<notin> set t"
  shows "GetMimeType L (Some (t @ CHR '';'' # ps)) = Inr (mime_lookup t kContentTypes)"
  using assms by (simp add: GetMimeType_def split_law_def)

lemma GetMimeType_plain:
  assumes "split_law L" "CHR '';'' \<notin> set t"
  shows "GetMimeType L (Some t) = Inr (mime_lookup t kContentTypes)"
  using assms by (simp add: GetMimeType_def split_law_def)

lemma mime_lookup_cong:
  "strcasecmp_eq s t \<Longrightarrow> mime_lookup s tab = mime_lookup t tab"
  by (induction tab) (auto simp: strcasecmp_eq_def)

lemma mime_lookup_hit:
  "map_of (map (\<lambda>(n, m). (map tolower (c_str n), m)) tab) (map tolower (c_str s)) = Some m \<Longrightarrow>
     mime_lookup s tab = m"
  by (induction tab) (auto simp: strcasecmp_eq_def split: if_splits)

section \<open>Properties\<close>

text \<open>
  the mime type of a \<open>Content-type\<close> value depends only on the part in front of the
  first semicolon, compared without regard to case, and is always found without a fault.
\<close>

theorem GetMimeType_media_type:
  assumes "split_law L" "CHR '';'' \<notin> set t" "CHR '';'' \<notin> set t'" "strcasecmp_eq t t'"
  shows "GetMimeType L (Some (t @ CHR '';'' # params)) = GetMimeType L (Some t')"
  using mime_lookup_cong [OF assms(4)] GetMimeType_params [OF assms(1,2)]
    GetMimeType_plain [OF assms(1,3)] by simp

theorem GetMimeType_media_type_witness:
  "GetMimeType simple_lib (Some (''Text/HTML'' @ CHR '';'' # '' charset=utf-8'')) = Inr ASC_HTML"
proof -
  have "strcasecmp_eq ''Text/HTML'' ''text/html''" by code_simp
  then have "GetMimeType simple_lib (Some (''Text/HTML'' @ CHR '';'' # '' charset=utf-8'')) =
      GetMimeType simple_lib (Some ''text/html'')"
    by (intro GetMimeType_media_type) simp_all
  also have "\<dots> = Inr ASC_HTML" by code_simp
  finally show ?thesis .
qed

end
