(* ===== verification/Clock.thy ===== *)
theory Clock
  imports Prelude
begin

text \<open>
  \<open>src/util/clock.h\<close> and the pacing of the main loop (\<open>src/plusfish.cc\<close>). The time of the system in
  seconds is an argument; a sleep is the argument \<open>usleep\<close> is called with. Sizes have 64 bits,
  \<open>useconds_t\<close> has 32.
\<close>

definition EpochTimeInMilliseconds :: "int \<Rightarrow> 64 word" where
  "EpochTimeInMilliseconds now = word_of_int (now * 1000)"

definition SleepMilliseconds :: "64 word \<Rightarrow> 32 word" where
  "SleepMilliseconds ms = ucast (ms * 1000)"

definition kFastLoopDelayMs :: int where "kFastLoopDelayMs = 2"

definition kLoopDelayWarningThresholdMs :: int where "kLoopDelayWarningThresholdMs = 1000"

text \<open>What the end of a round does: warn, sleep, or neither.\<close>

datatype pacing = LoopDelayWarning | Sleep "32 word" | NoDelay

definition loop_pacing :: "int \<Rightarrow> int \<Rightarrow> pacing" where
  "loop_pacing begin_time end_time =
     (let run_time_ms = EpochTimeInMilliseconds end_time - EpochTimeInMilliseconds begin_time in
      if run_time_ms > word_of_int kLoopDelayWarningThresholdMs then LoopDelayWarning
      else if run_time_ms < word_of_int kFastLoopDelayMs
      then Sleep (SleepMilliseconds (word_of_int kFastLoopDelayMs - run_time_ms))
      else NoDelay)"

lemma run_time_of_seconds:
  "EpochTimeInMilliseconds t' - EpochTimeInMilliseconds t = word_of_int ((t' - t) * 1000)"
  by (simp add: EpochTimeInMilliseconds_def left_diff_distrib)

lemma uint_of_seconds:
  assumes "\<bar>d\<bar> < 2 ^ 53"
  shows "uint (word_of_int (d * 1000) :: 64 word) = (if 0 \<le> d then d * 1000 else d * 1000 + 2 ^ 64)"
proof (cases "0 \<le> d")
  case True
  then show ?thesis using assms unfolding uint_word_of_int by simp
next
  case False
  have "(d * 1000) mod 2 ^ 64 = (d * 1000 + 2 ^ 64) mod 2 ^ 64" by simp
  also have "\<dots> = d * 1000 + 2 ^ 64" using False assms by (intro mod_pos_pos_trivial) simp_all
  finally show ?thesis using False unfolding uint_word_of_int by simp
qed

text \<open>
  The clock counts whole seconds, so the pacing sees no milliseconds: a round sleeps for two
  milliseconds exactly when it ends in the second in which it began, however long it took, and the
  warning, meant for rounds of more than one second, is given when the clock advanced by two or
  went back.
\<close>

lemma loop_pacing_seconds:
  assumes "\<bar>end_time - begin_time\<bar> < 2 ^ 53"
  shows "loop_pacing begin_time end_time =
     (if end_time = begin_time then Sleep 2000
      else if end_time = begin_time + 1 then NoDelay else LoopDelayWarning)"
proof -
  let ?d = "end_time - begin_time"
  have u: "uint (word_of_int (?d * 1000) :: 64 word) = (if 0 \<le> ?d then ?d * 1000 else ?d * 1000 + 2 ^ 64)"
    using assms by (rule uint_of_seconds)
  have warn: "(word_of_int kLoopDelayWarningThresholdMs < (word_of_int (?d * 1000) :: 64 word)) \<longleftrightarrow> ?d \<noteq> 0 \<and> ?d \<noteq> 1"
    unfolding word_less_def u using assms by (auto simp: kLoopDelayWarningThresholdMs_def)
  have fast: "((word_of_int (?d * 1000) :: 64 word) < word_of_int kFastLoopDelayMs) \<longleftrightarrow> ?d = 0"
    unfolding word_less_def u using assms by (auto simp: kFastLoopDelayMs_def)
  show ?thesis
    unfolding loop_pacing_def Let_def run_time_of_seconds warn fast
    by (auto simp: kFastLoopDelayMs_def SleepMilliseconds_def)
qed

end
