(* ===== verification/Base_Library.thy ===== *)
theory Base_Library
  imports Prelude
begin

unbundle bit_operations_syntax

text \<open>
  \<open>src/opensource/deps/base\<close>: the functions of the base library that have a body, in the variant
  for systems without a function of their own: \<open>string16.{h,cc}\<close>, and the byte swaps, \<open>strnlen\<close> and
  \<open>memrchr\<close> of \<open>port.h\<close>. A pointer is the list of what can be read from it
  (or, for a write, a position in a region); reading or writing past its end is \<^const>\<open>OutOfRange\<close>.
\<close>

section \<open>16-bit strings\<close>

type_synonym char16 = "16 word"

fun c16memcmp :: "char16 list \<Rightarrow> char16 list \<Rightarrow> nat \<Rightarrow> int result" where
  "c16memcmp s1 s2 0 = Inr 0"
| "c16memcmp (a # s1) (b # s2) (Suc n) =
     (if a \<noteq> b then Inr (if a < b then -1 else 1) else c16memcmp s1 s2 n)"
| "c16memcmp s1 s2 (Suc n) = Inl OutOfRange"

fun c16len :: "char16 list \<Rightarrow> nat result" where
  "c16len [] = Inl OutOfRange"
| "c16len (a # s) = (if a \<noteq> 0 then and_then (c16len s) (\<lambda>n. Inr (Suc n)) else Inr 0)"

text \<open>The position of the character found, \<^const>\<open>None\<close> for the null pointer.\<close>

fun c16memchr :: "char16 list \<Rightarrow> char16 \<Rightarrow> nat \<Rightarrow> nat option result" where
  "c16memchr s c 0 = Inr None"
| "c16memchr [] c (Suc n) = Inl OutOfRange"
| "c16memchr (a # s) c (Suc n) =
     (if a = c then Inr (Some 0) else and_then (c16memchr s c n) (\<lambda>r. Inr (map_option Suc r)))"

text \<open>
  The copies, within one region: \<open>s1\<close> and \<open>s2\<close> are positions. \<open>memmove\<close> copies as if through a
  second array, \<open>memcpy\<close> is undefined (a fault) where the two blocks overlap.
\<close>

definition c16memmove :: "char16 list \<Rightarrow> nat \<Rightarrow> nat \<Rightarrow> nat \<Rightarrow> char16 list result" where
  "c16memmove mem s1 s2 n =
     (if length mem < s1 + n \<or> length mem < s2 + n then Inl OutOfRange
      else Inr (take s1 mem @ take n (drop s2 mem) @ drop (s1 + n) mem))"

definition c16memcpy :: "char16 list \<Rightarrow> nat \<Rightarrow> nat \<Rightarrow> nat \<Rightarrow> char16 list result" where
  "c16memcpy mem s1 s2 n =
     (if n \<noteq> 0 \<and> s1 < s2 + n \<and> s2 < s1 + n then Inl OutOfRange else c16memmove mem s1 s2 n)"

fun c16memset :: "char16 list \<Rightarrow> nat \<Rightarrow> char16 \<Rightarrow> nat \<Rightarrow> char16 list result" where
  "c16memset mem s c 0 = Inr mem"
| "c16memset mem s c (Suc n) =
     (if s < length mem then c16memset (mem[s := c]) (Suc s) c n else Inl OutOfRange)"

text \<open>\<open>string16_char_traits\<close>: an \<open>int\<close> holds a character or the end of a file.\<close>

definition char16_eof :: int where "char16_eof = -1"

definition to_int_type :: "char16 \<Rightarrow> int" where "to_int_type c = uint c"

definition to_char_type :: "int \<Rightarrow> char16" where "to_char_type c = word_of_int c"

definition eq_int_type :: "int \<Rightarrow> int \<Rightarrow> bool" where "eq_int_type c1 c2 \<longleftrightarrow> c1 = c2"

definition not_eof :: "int \<Rightarrow> int" where "not_eof c = (if eq_int_type c char16_eof then 0 else c)"

section \<open>Bytes\<close>

definition bswap_16 :: "16 word \<Rightarrow> 16 word" where
  "bswap_16 x = push_bit 8 (x AND 0xFF) OR drop_bit 8 (x AND 0xFF00)"

definition bswap_32 :: "32 word \<Rightarrow> 32 word" where
  "bswap_32 x = push_bit 24 (x AND 0xFF) OR push_bit 8 (x AND 0xFF00) OR
     drop_bit 8 (x AND 0xFF0000) OR drop_bit 24 (x AND 0xFF000000)"

definition bswap_64 :: "64 word \<Rightarrow> 64 word" where
  "bswap_64 x =
     push_bit 56 (x AND 0xFF) OR push_bit 40 (x AND 0xFF00) OR
     push_bit 24 (x AND 0xFF0000) OR push_bit 8 (x AND 0xFF000000) OR
     drop_bit 8 (x AND 0xFF00000000) OR drop_bit 24 (x AND 0xFF0000000000) OR
     drop_bit 40 (x AND 0xFF000000000000) OR drop_bit 56 (x AND 0xFF00000000000000)"

text \<open>\<open>strnlen\<close> by way of \<open>memchr\<close>; \<open>memrchr\<close> walks back from the last byte.\<close>

fun base_memchr :: "string \<Rightarrow> char \<Rightarrow> nat \<Rightarrow> nat option result" where
  "base_memchr s c 0 = Inr None"
| "base_memchr [] c (Suc n) = Inl OutOfRange"
| "base_memchr (a # s) c (Suc n) =
     (if a = c then Inr (Some 0) else and_then (base_memchr s c n) (\<lambda>r. Inr (map_option Suc r)))"

definition base_strnlen :: "string \<Rightarrow> nat \<Rightarrow> nat result" where
  "base_strnlen s maxlen = and_then (base_memchr s NUL maxlen)
     (\<lambda>end. Inr (case end of Some n \<Rightarrow> n | None \<Rightarrow> maxlen))"

fun base_memrchr :: "string \<Rightarrow> int \<Rightarrow> nat \<Rightarrow> nat option result" where
  "base_memrchr s find_char 0 = Inr None"
| "base_memrchr s find_char (Suc cursor) =
     (if length s \<le> cursor then Inl OutOfRange
      else if of_char (s ! cursor) = (word_of_int find_char :: 8 word) then Inr (Some cursor)
      else base_memrchr s find_char cursor)"

section \<open>Lemmas\<close>

text \<open>The comparison is that of the first difference; it is zero exactly for equal blocks.\<close>

lemma c16memcmp_blocks:
  assumes "n \<le> length s1" "n \<le> length s2"
  shows "\<exists>r. c16memcmp s1 s2 n = Inr r \<and> (r = 0 \<longleftrightarrow> take n s1 = take n s2) \<and>
     (r < 0 \<longleftrightarrow> (take n s1, take n s2) \<in> lexord {(a, b). a < b})"
  using assms by (induction s1 s2 n rule: c16memcmp.induct) auto

lemma c16len_terminated: "0 \<in> set s \<Longrightarrow> c16len s = Inr (length (takeWhile (\<lambda>a. a \<noteq> 0) s))"
  by (induction s) auto

lemma c16len_unterminated: "0 \<notin> set s \<Longrightarrow> c16len s = Inl OutOfRange"
  by (induction s) auto

lemma c16memchr_first:
  "n \<le> length s \<Longrightarrow> c16memchr s c n = Inr (if c \<in> set (take n s) then Some (length (takeWhile (\<lambda>a. a \<noteq> c) s)) else None)"
  by (induction s c n rule: c16memchr.induct) auto

text \<open>What a copy leaves in each place, also when the blocks overlap.\<close>

lemma c16memmove_nth:
  assumes "c16memmove mem s1 s2 n = Inr mem'"
  shows "length mem' = length mem" "k < length mem \<Longrightarrow>
     mem' ! k = (if s1 \<le> k \<and> k < s1 + n then mem ! (s2 + (k - s1)) else mem ! k)"
proof -
  have fits: "s1 + n \<le> length mem" "s2 + n \<le> length mem"
      and mem': "mem' = take s1 mem @ take n (drop s2 mem) @ drop (s1 + n) mem"
    using assms by (auto simp: c16memmove_def split: if_splits)
  then show "length mem' = length mem" by simp
  have s1: "length (take s1 mem) = s1" and n: "length (take n (drop s2 mem)) = n" using fits by auto
  show "mem' ! k = (if s1 \<le> k \<and> k < s1 + n then mem ! (s2 + (k - s1)) else mem ! k)" if "k < length mem"
    unfolding mem' nth_append s1 n using fits that by auto
qed

lemma c16memcpy_is_memmove: "c16memcpy mem s1 s2 n = Inr mem' \<Longrightarrow> c16memmove mem s1 s2 n = Inr mem'"
  by (auto simp: c16memcpy_def split: if_splits)

lemma c16memset_nth:
  "c16memset mem s c n = Inr mem' \<Longrightarrow> length mem' = length mem \<and>
     (\<forall>k < length mem. mem' ! k = (if s \<le> k \<and> k < s + n then c else mem ! k))"
  by (induction mem s c n rule: c16memset.induct) (auto simp: nth_list_update split: if_splits)

text \<open>No character is taken for the end of a file, and a character survives the way through \<open>int\<close>.\<close>

lemma char16_int_roundtrip:
  "to_char_type (to_int_type c) = c" "\<not> eq_int_type (to_int_type c) char16_eof" "not_eof (to_int_type c) = to_int_type c"
proof -
  have "uint c \<noteq> -1" using uint_ge_0 [of c] by linarith
  then show "to_char_type (to_int_type c) = c" "\<not> eq_int_type (to_int_type c) char16_eof"
    "not_eof (to_int_type c) = to_int_type c"
    by (simp_all add: to_char_type_def to_int_type_def eq_int_type_def char16_eof_def not_eof_def)
qed

text \<open>A swap reverses the bytes: bit \<open>k\<close> of byte \<open>j\<close> is bit \<open>k\<close> of the byte on the other side.\<close>

lemma bswap_16_bit:
  assumes "j < 2" "k < 8"
  shows "bit (bswap_16 x) (8 * j + k) = bit x (8 * (1 - j) + k)"
proof -
  have m: "(0xFF :: 16 word) = push_bit 0 (mask 8)" "(0xFF00 :: 16 word) = push_bit 8 (mask 8)"
    by (simp_all add: mask_eq_exp_minus_1 push_bit_eq_mult)
  consider "j = 0" | "j = 1" using assms(1) by linarith
  then show ?thesis unfolding bswap_16_def m
    by cases (use assms(2) in \<open>simp_all add: bit_simps\<close>)
qed

lemma bswap_32_bit:
  assumes "j < 4" "k < 8"
  shows "bit (bswap_32 x) (8 * j + k) = bit x (8 * (3 - j) + k)"
proof -
  have m: "(0xFF :: 32 word) = push_bit 0 (mask 8)" "(0xFF00 :: 32 word) = push_bit 8 (mask 8)" "(0xFF0000 :: 32 word) = push_bit 16 (mask 8)" "(0xFF000000 :: 32 word) = push_bit 24 (mask 8)"
    by (simp_all add: mask_eq_exp_minus_1 push_bit_eq_mult)
  consider "j = 0" | "j = 1" | "j = 2" | "j = 3" using assms(1) by linarith
  then show ?thesis unfolding bswap_32_def m
    by cases (use assms(2) in \<open>simp_all add: bit_simps\<close>)
qed

lemma bswap_64_bit:
  assumes "j < 8" "k < 8"
  shows "bit (bswap_64 x) (8 * j + k) = bit x (8 * (7 - j) + k)"
proof -
  have m: "(0xFF :: 64 word) = push_bit 0 (mask 8)" "(0xFF00 :: 64 word) = push_bit 8 (mask 8)" "(0xFF0000 :: 64 word) = push_bit 16 (mask 8)" "(0xFF000000 :: 64 word) = push_bit 24 (mask 8)" "(0xFF00000000 :: 64 word) = push_bit 32 (mask 8)" "(0xFF0000000000 :: 64 word) = push_bit 40 (mask 8)" "(0xFF000000000000 :: 64 word) = push_bit 48 (mask 8)" "(0xFF00000000000000 :: 64 word) = push_bit 56 (mask 8)"
    by (simp_all add: mask_eq_exp_minus_1 push_bit_eq_mult)
  consider "j = 0" | "j = 1" | "j = 2" | "j = 3" | "j = 4" | "j = 5" | "j = 6" | "j = 7" using assms(1) by linarith
  then show ?thesis unfolding bswap_64_def m
    by cases (use assms(2) in \<open>simp_all add: bit_simps\<close>)
qed

text \<open>The law of a byte swap on words of \<open>b\<close> bytes, and what follows from it.\<close>

locale byte_swap =
  fixes swap :: "'a::len word \<Rightarrow> 'a word" and b :: nat
  assumes size: "LENGTH('a) = 8 * b"
    and bits: "j < b \<Longrightarrow> k < 8 \<Longrightarrow> bit (swap x) (8 * j + k) = bit x (8 * (b - 1 - j) + k)"
begin

lemma twice: "swap (swap x) = x"
proof (rule bit_word_eqI)
  fix n assume "n < LENGTH('a)"
  then have "n div 8 < b" using size by (simp add: less_mult_imp_div_less mult.commute)
  then have "bit (swap (swap x)) (8 * (n div 8) + n mod 8) = bit x (8 * (n div 8) + n mod 8)"
    using bits [of "n div 8" "n mod 8" "swap x"] bits [of "b - 1 - n div 8" "n mod 8" x] by simp
  then show "bit (swap (swap x)) n = bit x n" by simp
qed

lemma swap_inj: "swap x = swap y \<longleftrightarrow> x = y"
  using twice by metis

end

interpretation swap_16: byte_swap bswap_16 2
  by unfold_locales (simp_all add: bswap_16_bit)

interpretation swap_32: byte_swap bswap_32 4
  by unfold_locales (simp_all add: bswap_32_bit)

interpretation swap_64: byte_swap bswap_64 8
  by unfold_locales (simp_all add: bswap_64_bit)

text \<open>\<open>strnlen\<close> is the length up to the terminator, at most \<open>maxlen\<close>; \<open>memrchr\<close> finds the last occurrence.\<close>

lemma base_memchr_first:
  "n \<le> length s \<Longrightarrow> base_memchr s c n = Inr (if c \<in> set (take n s) then Some (length (takeWhile (\<lambda>a. a \<noteq> c) s)) else None)"
  by (induction s c n rule: base_memchr.induct) auto

lemma base_strnlen_bound:
  "n \<le> length s \<Longrightarrow> base_strnlen s n = Inr (length (takeWhile (\<lambda>a. a \<noteq> NUL) (take n s)))"
proof -
  assume n: "n \<le> length s"
  have "takeWhile (\<lambda>a. a \<noteq> NUL) s = takeWhile (\<lambda>a. a \<noteq> NUL) (take n s)" if "NUL \<in> set (take n s)"
    using takeWhile_append1 [OF that, of "\<lambda>a. a \<noteq> NUL" "drop n s"] by simp
  moreover have "length (takeWhile (\<lambda>a. a \<noteq> NUL) (take n s)) = n" if "NUL \<notin> set (take n s)"
  proof -
    have "takeWhile (\<lambda>a. a \<noteq> NUL) (take n s) = take n s" using that by (subst takeWhile_eq_all_conv) auto
    then show ?thesis using n by (simp only: length_take min_absorb2)
  qed
  ultimately show ?thesis using n by (auto simp: base_strnlen_def base_memchr_first)
qed

lemma base_memrchr_last:
  assumes "n \<le> length s"
  shows "\<exists>r. base_memrchr s c n = Inr r \<and> (case r of
     None \<Rightarrow> \<forall>i < n. of_char (s ! i) \<noteq> (word_of_int c :: 8 word)
   | Some k \<Rightarrow> k < n \<and> of_char (s ! k) = (word_of_int c :: 8 word) \<and>
       (\<forall>i. k < i \<and> i < n \<longrightarrow> of_char (s ! i) \<noteq> (word_of_int c :: 8 word)))"
  using assms
proof (induction n)
  case (Suc n)
  show ?case
  proof (cases "of_char (s ! n) = (word_of_int c :: 8 word)")
    case False
    then show ?thesis using Suc by (auto simp: less_Suc_eq split: option.splits)
  qed (use Suc in auto)
qed simp

end
