(* ===== verification/Gumbo_Parser.thy ===== *)
theory Gumbo_Parser
  imports Externals
begin

text \<open>
  \<open>src/parsers/gumbo_parser.{h,cc}\<close> and the filter interface \<open>src/parsers/gumbo_filter.h\<close>: the
  walk over a parsed document that hands every node to every filter. A filter is the record of
  its three virtual functions over the state \<open>'s\<close> the filters of a walk share. The parser
  keeps the root element of the last output, \<^const>\<open>None\<close> where \<open>output_\<close> is null.
\<close>

record 's gumbo_filter =
  gf_ParseElement :: "gumbo_element \<Rightarrow> 's \<Rightarrow> 's result"
  gf_ParseComment :: "gumbo_text \<Rightarrow> 's \<Rightarrow> 's result"
  gf_ParseText :: "gumbo_text \<Rightarrow> 's \<Rightarrow> 's result"

type_synonym gumbo_parser = "gumbo_element option"

definition GumboParser :: gumbo_parser where
  "GumboParser = None"

definition DestroyCurrentOutput :: "gumbo_parser \<Rightarrow> gumbo_parser" where
  "DestroyCurrentOutput p = None"

definition run_filter :: "gumbo_node \<Rightarrow> 's gumbo_filter \<Rightarrow> 's \<Rightarrow> 's result" where
  "run_filter node flt s =
     (case node of
        GUMBO_NODE_ELEMENT e \<Rightarrow> gf_ParseElement flt e s
      | GUMBO_NODE_COMMENT t \<Rightarrow> gf_ParseComment flt t s
      | GUMBO_NODE_TEXT t \<Rightarrow> gf_ParseText flt t s
      | GUMBO_NODE_OTHER \<Rightarrow> Inr s)"

text \<open>The children are only looked up in the loop over the filters.\<close>

fun FilterDocumentNode :: "'s gumbo_filter list \<Rightarrow> gumbo_node \<Rightarrow> 's \<Rightarrow> 's result"
  and filter_children :: "'s gumbo_filter list \<Rightarrow> gumbo_node list \<Rightarrow> 's \<Rightarrow> 's result"
where
  "FilterDocumentNode filters (GUMBO_NODE_ELEMENT (GumboElement tag ot attrs children offset line)) s =
     and_then
       (for_each (run_filter (GUMBO_NODE_ELEMENT (GumboElement tag ot attrs children offset line))) filters s)
       (\<lambda>s1. if filters = [] then Inr s1 else filter_children filters children s1)"
| "FilterDocumentNode filters node s = for_each (run_filter node) filters s"
| "filter_children filters [] s = Inr s"
| "filter_children filters (node # nodes) s =
     and_then (FilterDocumentNode filters node s) (filter_children filters nodes)"

definition FilterDocument :: "'s gumbo_filter list \<Rightarrow> gumbo_parser \<Rightarrow> 's \<Rightarrow> 's result" where
  "FilterDocument filters p s =
     (case p of
        None \<Rightarrow> Inl NullPointer
      | Some root \<Rightarrow> FilterDocumentNode filters (GUMBO_NODE_ELEMENT root) s)"

definition gumbo_Parse :: "externals \<Rightarrow> string \<Rightarrow> gumbo_parser \<Rightarrow> gumbo_parser" where
  "gumbo_Parse L buffer p = gumbo_parse L (c_str buffer)"

definition GetAttribute :: "externals \<Rightarrow> gumbo_attribute list \<Rightarrow> string \<Rightarrow> gumbo_attribute option" where
  "GetAttribute L attrs name = gumbo_get_attribute L attrs (c_str name)"

text \<open>\<open>emplace\<close> keeps the first value of a name.\<close>

definition FillAttributeMap :: "gumbo_element \<Rightarrow> (string, string) omap" where
  "FillAttributeMap element =
     fold (\<lambda>a m. omap_emplace (at_name a) (at_value a) m) (el_attributes element) []"

section \<open>The contract of a filter\<close>

text \<open>
  What the walk asks of a filter with respect to an invariant of the shared state: each of its
  three functions keeps it.
\<close>

locale filter_contract =
  fixes flt :: "'s gumbo_filter" and ok :: "'s \<Rightarrow> bool"
  assumes element_inv: "ok s \<Longrightarrow> gf_ParseElement flt e s = Inr s' \<Longrightarrow> ok s'"
    and comment_inv: "ok s \<Longrightarrow> gf_ParseComment flt t s = Inr s' \<Longrightarrow> ok s'"
    and text_inv: "ok s \<Longrightarrow> gf_ParseText flt t s = Inr s' \<Longrightarrow> ok s'"
begin

lemma run_inv: "ok s \<Longrightarrow> run_filter node flt s = Inr s' \<Longrightarrow> ok s'"
  by (auto simp: run_filter_def split: gumbo_node.splits intro: element_inv comment_inv text_inv)

end

lemma filters_inv:
  assumes "\<forall>flt \<in> set filters. filter_contract flt ok"
  shows "for_each (run_filter node) filters s = Inr s' \<Longrightarrow> ok s \<Longrightarrow> ok s'"
  using for_each_inv [of filters ok "run_filter node"] assms filter_contract.run_inv by metis

lemma FilterDocumentNode_inv:
  assumes "\<forall>flt \<in> set filters. filter_contract flt ok"
  shows "FilterDocumentNode filters node s = Inr s' \<Longrightarrow> ok s \<Longrightarrow> ok s'"
    and "filter_children filters nodes s = Inr s' \<Longrightarrow> ok s \<Longrightarrow> ok s'"
  using assms
proof (induction filters node s and filters nodes s arbitrary: s' and s' rule: FilterDocumentNode_filter_children.induct)
  case (1 filters tag ot attrs children offset line s)
  then obtain s1 where s1: "for_each (run_filter (GUMBO_NODE_ELEMENT (GumboElement tag ot attrs children offset line))) filters s = Inr s1"
      "(if filters = [] then Inr s1 else filter_children filters children s1) = Inr s'"
    by (auto simp: and_then_eq_Inr)
  have "ok s1" using filters_inv [OF "1.prems"(3) s1(1) "1.prems"(2)] .
  then show ?case using 1 s1(2) by (auto split: if_splits)
qed (auto simp: and_then_eq_Inr intro: filters_inv)

lemma FilterDocument_inv:
  assumes "\<forall>flt \<in> set filters. filter_contract flt ok" "FilterDocument filters p s = Inr s'" "ok s"
  shows "ok s'"
  using assms FilterDocumentNode_inv(1) [OF assms(1)]
  by (auto simp: FilterDocument_def split: option.splits)

lemma map_of_fill:
  "map_of (fold (\<lambda>a m. omap_emplace (at_name a) (at_value a) m) attrs m) name =
     (case map_of m name of Some v \<Rightarrow> Some v
      | None \<Rightarrow> map_option at_value (find (\<lambda>a. at_name a = name) attrs))"
proof (induction attrs arbitrary: m)
  case (Cons a attrs)
  then show ?case by (auto simp: map_of_omap_emplace split: option.splits)
qed (auto split: option.splits)

lemma FillAttributeMap_lookup:
  "map_of (FillAttributeMap e) name = map_option at_value (find (\<lambda>a. at_name a = name) (el_attributes e))"
  by (simp add: FillAttributeMap_def map_of_fill)

end
