(* ===== verification/Html_Fingerprint.thy ===== *)
theory Html_Fingerprint
  imports Prelude
begin

text \<open>
  \<open>src/util/html_fingerprint.{h,cc}\<close>: the fuzzy page fingerprint, sixteen \<open>uint32_t\<close>
  counters of words by length modulo sixteen. All arithmetic is at the source's widths: the
  counters, scales and differences wrap at 32 bits, the failed-bucket counter at 8.
\<close>

type_synonym html_fingerprint = "32 word list"

definition kMaxFingerprintSize :: nat where "kMaxFingerprintSize = 16"
definition kMaxFingerprintBucketDiff :: "32 word" where "kMaxFingerprintBucketDiff = 5"
definition kMaxFingerprintTotalDiff :: "32 word" where "kMaxFingerprintTotalDiff = 3"
definition kMaxFingerprintBucketFails :: "8 word" where "kMaxFingerprintBucketFails = 3"

definition HtmlFingerprint :: html_fingerprint where
  "HtmlFingerprint = replicate kMaxFingerprintSize 0"

definition fp_ok :: "html_fingerprint \<Rightarrow> bool" where
  "fp_ok fp \<longleftrightarrow> length fp = kMaxFingerprintSize"

definition AddWord :: "string \<Rightarrow> html_fingerprint \<Rightarrow> html_fingerprint" where
  "AddWord word fp =
     (let i = length word mod kMaxFingerprintSize in fp[i := fp ! i + 1])"

definition fp_ToString :: "html_fingerprint \<Rightarrow> string" where
  "fp_ToString fp = concat (map (\<lambda>c. to_string (uint c) @ '' '') fp)"

text \<open>\<open>abs\<close> of an \<open>int32_t\<close>, read back as unsigned by the comparisons.\<close>

definition abs_int32 :: "32 word \<Rightarrow> 32 word" where
  "abs_int32 d = (if sint d < 0 then - d else d)"

definition bucket_fails :: "32 word \<Rightarrow> 32 word \<Rightarrow> bool" where
  "bucket_fails a b \<longleftrightarrow>
     abs_int32 (a - b) \<ge> 1 + ((a + b) * kMaxFingerprintBucketDiff) div 100"

text \<open>The loop over the buckets; \<^const>\<open>None\<close> is the early \<open>return false\<close>.\<close>

fun fp_compare ::
  "(32 word \<times> 32 word) list \<Rightarrow> 8 word \<Rightarrow> 32 word \<Rightarrow> 32 word \<Rightarrow> (32 word \<times> 32 word) option"
where
  "fp_compare [] failed_buckets total_diff total_scale = Some (total_diff, total_scale)"
| "fp_compare ((a, b) # rest) failed_buckets total_diff total_scale =
     (let failed = (if bucket_fails a b then failed_buckets + 1 else failed_buckets)
      in if bucket_fails a b \<and> failed > kMaxFingerprintBucketFails then None
         else fp_compare rest failed (total_diff + abs_int32 (a - b)) (total_scale + (a + b)))"

definition fp_Equals :: "html_fingerprint \<Rightarrow> html_fingerprint \<Rightarrow> bool" where
  "fp_Equals fp1 fp2 =
     (case fp_compare (zip fp1 fp2) 0 0 0 of
        None \<Rightarrow> False
      | Some (total_diff, total_scale) \<Rightarrow>
          \<not> (total_diff \<ge> 1 + (total_scale * kMaxFingerprintTotalDiff) div 100))"

section \<open>Lemmas\<close>

lemma fp_ok_new [simp]: "fp_ok HtmlFingerprint"
  by (simp add: fp_ok_def HtmlFingerprint_def)

lemma fp_ok_AddWord [simp]: "fp_ok (AddWord w fp) = fp_ok fp"
  by (simp add: fp_ok_def AddWord_def Let_def)

lemma fp_ok_fold [simp]: "fp_ok (fold AddWord ws fp) = fp_ok fp"
  by (induction ws arbitrary: fp) simp_all

lemma AddWord_nth:
  assumes "fp_ok fp" "i < kMaxFingerprintSize"
  shows "AddWord w fp ! i = fp ! i + (if length w mod kMaxFingerprintSize = i then 1 else 0)"
  using assms by (auto simp: AddWord_def Let_def fp_ok_def nth_list_update)

lemma fold_AddWord_nth:
  assumes "fp_ok fp" "i < kMaxFingerprintSize"
  shows "fold AddWord ws fp ! i =
     fp ! i + of_nat (length (filter (\<lambda>w. length w mod kMaxFingerprintSize = i) ws))"
  using assms by (induction ws arbitrary: fp) (auto simp: AddWord_nth)

lemma sint_uminus_32:
  fixes w :: "32 word"
  assumes "sint w \<noteq> - (2 ^ 31)"
  shows "sint (- w) = - sint w"
proof -
  have "- (2 ^ 31) \<le> sint w" "sint w < 2 ^ 31"
    using sint_range_size [of w] by (simp_all add: word_size)
  with assms have "signed_take_bit 31 (- sint w) = - sint w"
    by (intro signed_take_bit_int_eq_self) auto
  then show ?thesis by (simp add: sint_word_ariths)
qed

lemma abs_int32_minus: "abs_int32 (- d) = abs_int32 d"
proof (cases "sint d = - (2 ^ 31)")
  case True
  then have "d = word_of_int (- (2 ^ 31))" by (metis of_int_sint scast_id)
  moreover have "(2147483648 :: 32 word) = - 2147483648" by simp
  ultimately have "- d = d" by simp
  then show ?thesis by (rule arg_cong)
next
  case False
  note n = sint_uminus_32 [OF False]
  show ?thesis
  proof (cases "sint d = 0")
    case True
    then have "d = 0" by (metis sint_0 of_int_sint scast_id of_int_0)
    then show ?thesis by simp
  qed (auto simp: abs_int32_def n)
qed

lemma abs_int32_swap: "abs_int32 (a - b) = abs_int32 (b - a)"
  using abs_int32_minus [of "b - a"] by simp

lemma threshold_pos: "(0 :: 32 word) < 1 + x div 100"
proof -
  have x: "unat (x div 100) \<le> (2 ^ 32 - 1) div 100"
    using unsigned_less [of x, where 'a = nat] by (simp add: unat_div)
  then have "unat (1 + x div 100) = 1 + unat (x div 100)"
    by (subst unat_add_lem [THEN iffD1]) simp_all
  then show ?thesis by (simp add: word_less_nat_alt)
qed

lemma bucket_fails_same [simp]: "\<not> bucket_fails a a"
  using threshold_pos [of "(a + a) * kMaxFingerprintBucketDiff"]
  by (simp add: bucket_fails_def abs_int32_def not_le)

lemma fp_compare_swap:
  "fp_compare (map (\<lambda>(a, b). (b, a)) xs) f d s = fp_compare xs f d s"
proof (induction xs arbitrary: f d s)
  case (Cons e xs)
  obtain a b where e: "e = (a, b)" by (cases e)
  have "bucket_fails b a = bucket_fails a b"
    by (simp add: bucket_fails_def abs_int32_swap [of a b] add.commute)
  with Cons e show ?case
    by (simp add: Let_def abs_int32_swap [of b a] add.commute [of b a])
qed simp

lemma zip_swap: "zip ys xs = map (\<lambda>(a, b). (b, a)) (zip xs ys)"
  by (induction xs ys rule: list_induct2') auto

lemma fp_compare_same: "\<exists>s'. fp_compare (zip xs xs) f d s = Some (d, s')"
  by (induction xs arbitrary: f s) (auto simp: Let_def abs_int32_def)

text \<open>A space ends every number in the printed form, so the numbers can be read back.\<close>

lemma to_string_uint: "to_string (uint c) = nat_dec (unat c)"
  unfolding to_string_def by (simp add: linorder_not_less)

lemma nat_dec_space_inj:
  assumes "nat_dec m @ '' '' @ x = nat_dec n @ '' '' @ y"
  shows "m = n \<and> x = y"
proof -
  have sp: "CHR '' '' \<notin> set (nat_dec k)" for k
    using nat_dec_digits [of k] by (auto simp: isdigit_def)
  have tw: "takeWhile (\<lambda>c. c \<noteq> CHR '' '') (nat_dec k @ '' '' @ z) = nat_dec k" for k z
    using sp [of k] by (subst takeWhile_append2) auto
  from assms have "nat_dec m = nat_dec n" by (metis tw)
  with assms show ?thesis by (auto dest: nat_dec_inj)
qed

lemma fp_ToString_inj:
  "length fp1 = length fp2 \<Longrightarrow> fp_ToString fp1 = fp_ToString fp2 \<Longrightarrow> fp1 = fp2"
proof (induction fp1 fp2 rule: list_induct2)
  case (Cons a fp1 b fp2)
  then have "nat_dec (unat a) @ '' '' @ fp_ToString fp1 = nat_dec (unat b) @ '' '' @ fp_ToString fp2"
    by (simp add: fp_ToString_def to_string_uint)
  from nat_dec_space_inj [OF this] Cons.IH show ?case by (simp add: word_unat_eq_iff)
qed simp

section \<open>Properties\<close>

text \<open>
  what a fingerprint holds: after the words of a page have been added to a new
  fingerprint, bucket \<open>i\<close> is the number of words whose length is \<open>i\<close> modulo 16 (as a 32-bit
  counter), whatever the order of the words.
\<close>

theorem fingerprint_counts:
  assumes "i < kMaxFingerprintSize"
  shows "fold AddWord ws HtmlFingerprint ! i =
     of_nat (length (filter (\<lambda>w. length w mod kMaxFingerprintSize = i) ws))"
  using fold_AddWord_nth [OF fp_ok_new assms] assms by (simp add: HtmlFingerprint_def)

theorem fingerprint_counts_witness:
  "(3::nat) < kMaxFingerprintSize \<and> fold AddWord [''abc'', ''x'', ''def''] HtmlFingerprint ! 3 = 2"
  using fingerprint_counts [of 3 "[''abc'', ''x'', ''def'']"]
  by (simp add: kMaxFingerprintSize_def)

text \<open>
  the fuzzy comparison is reflexive and symmetric, whatever the counters (the threshold
  never wraps to zero).
\<close>

theorem fp_Equals_refl_sym: "fp_Equals fp fp \<and> fp_Equals fp1 fp2 = fp_Equals fp2 fp1"
proof
  obtain s' where "fp_compare (zip fp fp) 0 0 0 = Some (0, s')"
    using fp_compare_same by blast
  then show "fp_Equals fp fp"
    using threshold_pos [of "s' * kMaxFingerprintTotalDiff"]
    by (simp add: fp_Equals_def not_le)
  show "fp_Equals fp1 fp2 = fp_Equals fp2 fp1"
    unfolding fp_Equals_def zip_swap [of fp2 fp1] fp_compare_swap ..
qed

text \<open>
  the printed form, by which the datastore keys its 404 fingerprints, determines the
  counters.
\<close>

theorem fp_ToString_injective:
  assumes "fp_ok fp1" "fp_ok fp2"
  shows "fp_ToString fp1 = fp_ToString fp2 \<longleftrightarrow> fp1 = fp2"
  using assms fp_ToString_inj by (auto simp: fp_ok_def)

theorem fp_ToString_injective_witness:
  "fp_ToString (AddWord ''a'' HtmlFingerprint) \<noteq> fp_ToString HtmlFingerprint"
proof -
  have "AddWord ''a'' HtmlFingerprint \<noteq> HtmlFingerprint" by code_simp
  then show ?thesis
    using fp_ToString_injective [of "AddWord ''a'' HtmlFingerprint" HtmlFingerprint] by simp
qed

end
