(* ===== verification/Response.thy ===== *)
theory Response
  imports Http_Util Html_Fingerprint
begin

text \<open>
  \<open>src/response.{h,cc}\<close>: the split of a raw HTTP response in headers and body, the parser
  of the status line and the headers, header lookup and the comparison of two responses.
  The parser is fallible in two ways: \<open>Parse\<close> returns false on input it rejects, and it
  reads \<open>header_lines[0]\<close> of an empty vector when the header part has no line, which is the
  fault \<^const>\<open>OutOfRange\<close>.
\<close>

record response =
  rs_http_response :: http_response
  rs_html_fingerprint :: "html_fingerprint option"

definition kHeaderBodySplitString :: string where
  "kHeaderBodySplitString = [CR, LF, CR, LF]"

definition kHeaderBodySplitStringNoCr :: string where
  "kHeaderBodySplitStringNoCr = [LF, LF]"

definition Response :: response where
  "Response = \<lparr>rs_http_response = empty_response, rs_html_fingerprint = None\<rparr>"

definition GetHeader :: "response \<Rightarrow> string \<Rightarrow> string option" where
  "GetHeader r header_name =
     map_option (\<lambda>h. value_or [] (h_value h))
       (find (\<lambda>h. strncasecmp_eq (value_or [] (h_name h)) header_name (length header_name))
         (hp_header (rs_http_response r)))"

definition MimeType :: "response \<Rightarrow> mime_type" where
  "MimeType r = resp_mime (rs_http_response r)"

definition set_html_fingerprint :: "html_fingerprint \<Rightarrow> response \<Rightarrow> response" where
  "set_html_fingerprint fp r = r\<lparr>rs_html_fingerprint := Some fp\<rparr>"

definition set_body :: "string \<Rightarrow> response \<Rightarrow> response" where
  "set_body b r = r\<lparr>rs_http_response := (rs_http_response r)\<lparr>hp_response_body := Some b\<rparr>\<rparr>"

definition response_Equals :: "response \<Rightarrow> response \<Rightarrow> bool" where
  "response_Equals r ref =
     (if resp_code (rs_http_response ref) \<noteq> resp_code (rs_http_response r) \<or>
         MimeType ref \<noteq> resp_mime (rs_http_response r)
      then False
      else if MimeType ref = ASC_HTML \<or> MimeType ref = XML_XHTML then
        (case (rs_html_fingerprint r, rs_html_fingerprint ref) of
           (Some fp, Some ref_fp) \<Rightarrow> fp_Equals fp ref_fp
         | _ \<Rightarrow> False)
      else resp_body (rs_http_response r) = resp_body (rs_http_response ref))"

text \<open>The loop of \<open>Parse\<close> over \<open>body_offset\<close>: the first separator of either kind.\<close>

fun find_separator :: "string \<Rightarrow> (nat \<times> string) option" where
  "find_separator [] = None"
| "find_separator (c # s) =
     (if c = CR \<and> substr (c # s) 0 4 = kHeaderBodySplitString
      then Some (0, kHeaderBodySplitString)
      else if c = LF \<and> substr (c # s) 0 2 = kHeaderBodySplitStringNoCr
      then Some (0, kHeaderBodySplitStringNoCr)
      else map_option (\<lambda>(n, sep). (Suc n, sep)) (find_separator s))"

text \<open>
  One header line: no field without a colon; one space after the colon is skipped, and an
  empty rest leaves the value unset.
\<close>

definition parse_header_line :: "string \<Rightarrow> header_field option" where
  "parse_header_line line =
     map_option
       (\<lambda>colon.
          let rest = drop (Suc colon) line;
              val = (case rest of c # cs \<Rightarrow> if c = CHR '' '' then cs else rest | [] \<Rightarrow> [])
          in \<lparr>h_name = Some (substr line 0 colon),
              h_value = (if val = [] then None else Some val)\<rparr>)
       (str_find_char CHR '':'' line)"

definition ParseHeaders :: "externals \<Rightarrow> string \<Rightarrow> response \<Rightarrow> (bool \<times> response) result" where
  "ParseHeaders L headers r =
     (case skip_empty (StrSplit L (\<lambda>c. c = CR \<or> c = LF) headers) of
        [] \<Rightarrow> Inl OutOfRange
      | first # header_lines \<Rightarrow>
          let status_line = StrSplit L (\<lambda>c. c = CHR '' '') first in
          if length status_line < 3 \<or> substr (status_line ! 0) 0 4 \<noteq> ''HTTP'' then Inr (False, r)
          else
            (case SimpleAtoi L (status_line ! 1) of
               None \<Rightarrow> Inr (False, r)
             | Some code \<Rightarrow>
                 if \<not> ResponseCode_IsValid code \<or> code = 0 then Inr (False, r)
                 else
                   let p = (rs_http_response r)\<lparr>hp_code := Some (ResponseCode code)\<rparr>;
                       added = List.map_filter parse_header_line header_lines
                   in Inr (True, r\<lparr>rs_http_response := p\<lparr>hp_header := hp_header p @ added\<rparr>\<rparr>)))"

definition IdentifyMime :: "externals \<Rightarrow> response \<Rightarrow> mime_type result" where
  "IdentifyMime L r = GetMimeType L (GetHeader r kContentType)"

definition Parse :: "externals \<Rightarrow> string \<Rightarrow> response \<Rightarrow> (bool \<times> response) result" where
  "Parse L raw r =
     (case find_separator raw of
        None \<Rightarrow> Inr (False, r)
      | Some (body_offset, separator) \<Rightarrow>
          let headers = substr raw 0 body_offset;
              r1 = set_body (drop (body_offset + length separator) raw) r
          in and_then (ParseHeaders L headers r1) (\<lambda>(ok, r2).
               if \<not> ok then Inr (False, r2)
               else and_then (IdentifyMime L r2) (\<lambda>mime.
                 Inr (True, r2\<lparr>rs_http_response := (rs_http_response r2)\<lparr>hp_mime_type := Some mime\<rparr>\<rparr>))))"

section \<open>Lemmas: the separator\<close>

lemma CR_neq_LF [simp]: "CR \<noteq> LF" "LF \<noteq> CR"
  by (simp_all add: CR_def LF_def)

lemmas separator_defs = kHeaderBodySplitString_def kHeaderBodySplitStringNoCr_def substr_def

definition starts_separator :: "string \<Rightarrow> bool" where
  "starts_separator s \<longleftrightarrow>
     take 4 s = kHeaderBodySplitString \<or> take 2 s = kHeaderBodySplitStringNoCr"

lemma find_separator_Some:
  "find_separator s = Some (n, sep) \<Longrightarrow>
     take (length sep) (drop n s) = sep \<and> starts_separator (drop n s) \<and>
     (\<forall>m < n. \<not> starts_separator (drop m s))"
proof (induction s arbitrary: n)
  case (Cons c s)
  show ?case
  proof (cases "starts_separator (c # s)")
    case True
    then show ?thesis using Cons.prems
      by (auto simp: starts_separator_def separator_defs take_Cons' eval_nat_numeral
          split: if_splits)
  next
    case False
    then obtain k where k: "n = Suc k" "find_separator s = Some (k, sep)"
      using Cons.prems by (auto simp: starts_separator_def separator_defs split: if_splits)
    have "\<not> starts_separator (drop m (c # s))" if "m < n" for m
      using that False Cons.IH [OF k(2)] k(1) by (cases m) auto
    then show ?thesis using Cons.IH [OF k(2)] k(1) by simp
  qed
qed simp

lemma find_separator_None:
  "find_separator s = None \<Longrightarrow> \<not> starts_separator (drop n s)"
proof (induction s arbitrary: n)
  case (Cons c s)
  then show ?case
    by (cases n) (auto simp: starts_separator_def separator_defs take_Cons' split: if_splits)
qed (simp add: starts_separator_def separator_defs)

text \<open>A line is a non-empty run of characters other than CR and LF.\<close>

definition is_line :: "string \<Rightarrow> bool" where
  "is_line l \<longleftrightarrow> l \<noteq> [] \<and> CR \<notin> set l \<and> LF \<notin> set l"

lemma find_separator_skip:
  "CR \<notin> set l \<Longrightarrow> LF \<notin> set l \<Longrightarrow>
     find_separator (l @ s) = map_option (\<lambda>(n, sep). (length l + n, sep)) (find_separator s)"
  by (cases "find_separator s"; induction l; auto)

lemma find_separator_crlf:
  assumes "is_line l"
  shows "find_separator (CR # LF # l @ s) =
     map_option (\<lambda>(n, sep). (Suc (Suc n), sep)) (find_separator (l @ s))"
proof -
  obtain c l' where "l = c # l'" "c \<noteq> CR" "c \<noteq> LF"
    using assms by (cases l) (auto simp: is_line_def)
  then show ?thesis
    by (cases "find_separator (l @ s)"; auto simp: separator_defs take_Cons')
qed

lemma find_separator_lines:
  assumes "lines \<noteq> []" "\<forall>l \<in> set lines. is_line l"
  shows "find_separator (join_with [CR, LF] lines @ kHeaderBodySplitString @ body) =
     Some (length (join_with [CR, LF] lines), kHeaderBodySplitString)"
  using assms
proof (induction lines rule: induct_list012)
  case (2 l)
  then show ?case by (simp add: find_separator_skip is_line_def separator_defs)
next
  case (3 l l' ls)
  let ?s = "join_with [CR, LF] (l' # ls)"
  obtain s' where s': "?s = l' @ s'" by (cases ls) auto
  have ih: "find_separator (?s @ kHeaderBodySplitString @ body) =
      Some (length ?s, kHeaderBodySplitString)" using 3 by simp
  then have "find_separator (CR # LF # ?s @ kHeaderBodySplitString @ body) =
      Some (Suc (Suc (length ?s)), kHeaderBodySplitString)"
    using find_separator_crlf [of l'] 3 s' by simp
  then show ?case using 3 by (simp add: find_separator_skip is_line_def)
qed simp

lemma skip_empty_lines:
  assumes "\<forall>l \<in> set lines. is_line l"
  shows "skip_empty (split_by (\<lambda>c. c = CR \<or> c = LF) (join_with [CR, LF] lines)) = lines"
  using assms
proof (induction lines rule: induct_list012)
  case (2 l)
  then have "split_by (\<lambda>c. c = CR \<or> c = LF) l = [l]"
    by (intro split_by_no_sep) (auto simp: is_line_def)
  then show ?case using 2 by (simp add: skip_empty_def is_line_def)
next
  case (3 l l' ls)
  have "split_by (\<lambda>c. c = CR \<or> c = LF) (l @ CR # s) =
      l # split_by (\<lambda>c. c = CR \<or> c = LF) s" for s
    using 3 by (intro split_by_append) (auto simp: is_line_def)
  then show ?case using 3 by (simp add: skip_empty_def is_line_def)
qed (simp add: skip_empty_def)

section \<open>Lemmas: headers\<close>

text \<open>A response as a server writes it.\<close>

definition header_text :: "string \<times> string \<Rightarrow> string" where
  "header_text h = fst h @ '': '' @ snd h"

definition header_ok :: "string \<times> string \<Rightarrow> bool" where
  "header_ok h \<longleftrightarrow> CHR '':'' \<notin> set (fst h) \<and> snd h \<noteq> [] \<and>
     CR \<notin> set (fst h @ snd h) \<and> LF \<notin> set (fst h @ snd h)"

definition status_text :: "string \<Rightarrow> nat \<Rightarrow> string \<Rightarrow> string" where
  "status_text version code reason = version @ '' '' @ nat_dec code @ '' '' @ reason"

definition status_ok :: "string \<Rightarrow> nat \<Rightarrow> string \<Rightarrow> bool" where
  "status_ok version code reason \<longleftrightarrow>
     take 4 version = ''HTTP'' \<and> code \<noteq> 0 \<and> code < 2 ^ 31 \<and> ResponseCode_IsValid (int code) \<and>
     CR \<notin> set (version @ reason) \<and> LF \<notin> set (version @ reason) \<and> CHR '' '' \<notin> set version"

definition response_text :: "string \<Rightarrow> (string \<times> string) list \<Rightarrow> string \<Rightarrow> string" where
  "response_text status hs body =
     join_with [CR, LF] (status # map header_text hs) @ kHeaderBodySplitString @ body"

definition header_of :: "string \<times> string \<Rightarrow> header_field" where
  "header_of h = \<lparr>h_name = Some (fst h), h_value = Some (snd h)\<rparr>"

lemma parse_header_line_text [simp]:
  assumes "header_ok h"
  shows "parse_header_line (header_text h) = Some (header_of h)"
proof -
  have "str_find_char CHR '':'' (header_text h) = Some (length (fst h))"
    using assms by (simp add: header_text_def header_ok_def str_find_char_cut)
  then show ?thesis using assms
    by (simp add: parse_header_line_def header_text_def substr_def header_of_def header_ok_def)
qed

lemma header_text_line: "header_ok h \<Longrightarrow> is_line (header_text h)"
  by (auto simp: header_ok_def is_line_def header_text_def CR_def LF_def)

lemma nat_dec_no_sep: "byte c < 48 \<Longrightarrow> c \<notin> set (nat_dec n)"
  using nat_dec_digits [of n] by (auto simp: isdigit_def)

lemma status_text_line: "status_ok v code reason \<Longrightarrow> is_line (status_text v code reason)"
  using nat_dec_no_sep [of CR code] nat_dec_no_sep [of LF code]
  by (auto simp: status_ok_def is_line_def status_text_def CR_def LF_def)

lemma status_text_split:
  "status_ok v code reason \<Longrightarrow>
     split_by (\<lambda>c. c = CHR '' '') (status_text v code reason) =
       v # nat_dec code # split_by (\<lambda>c. c = CHR '' '') reason"
  using nat_dec_no_sep [of "CHR '' ''" code] by (simp add: status_ok_def status_text_def)

lemma map_filter_all: "\<forall>x \<in> set xs. f x = Some (g x) \<Longrightarrow> List.map_filter f xs = map g xs"
  by (induction xs) (auto simp: List.map_filter_simps)

lemma ParseHeaders_lines:
  assumes "split_law L" "atoi_law L" "status_ok v code reason" "\<forall>h \<in> set hs. header_ok h"
  shows "ParseHeaders L (join_with [CR, LF] (status_text v code reason # map header_text hs)) r =
     Inr (True, r\<lparr>rs_http_response := (rs_http_response r)
        \<lparr>hp_code := Some (ResponseCode (int code)),
         hp_header := hp_header (rs_http_response r) @ map header_of hs\<rparr>\<rparr>)"
proof -
  have "\<forall>l \<in> set (status_text v code reason # map header_text hs). is_line l"
    using assms(3,4) by (auto simp: status_text_line header_text_line)
  note lines = skip_empty_lines [OF this]
  have "List.map_filter parse_header_line (map header_text hs) = map header_of hs"
    using assms(4) by (simp add: map_filter_map_filter [symmetric] List.map_filter_def comp_def)
  moreover have "Suc 0 \<le> length (split_by (\<lambda>c. c = CHR '' '') reason)"
    by (simp add: Suc_le_eq)
  ultimately show ?thesis using assms(1-3)
    by (simp add: ParseHeaders_def split_law_def lines status_text_split status_ok_def
        atoi_law_def substr_def Let_def del: join_with.simps)
qed

lemma IdentifyMime_total: "split_law L \<Longrightarrow> \<exists>m. IdentifyMime L r = Inr m"
  by (simp add: IdentifyMime_def GetMimeType_total)

lemma split_by_concat: "x \<in> set (split_by P s) \<Longrightarrow> set x \<subseteq> set s"
proof (induction s arbitrary: x)
  case (Cons c s)
  then show ?case by (auto split: if_splits list.splits) blast
qed simp

lemma split_by_covers: "c \<in> set s \<Longrightarrow> \<not> P c \<Longrightarrow> \<exists>x \<in> set (split_by P s). c \<in> set x"
  by (induction s) (auto split: if_splits list.splits)

lemma skip_empty_none: "skip_empty (split_by P s) = [] \<longleftrightarrow> (\<forall>c \<in> set s. P c)"
proof
  assume "skip_empty (split_by P s) = []"
  then show "\<forall>c \<in> set s. P c"
    using split_by_covers [of _ s P] by (fastforce simp: skip_empty_def filter_empty_conv)
next
  assume "\<forall>c \<in> set s. P c"
  then have "x = []" if "x \<in> set (split_by P s)" for x
    using that split_by_pieces [of x P s] split_by_concat [of x P s]
    by (cases x) auto
  then show "skip_empty (split_by P s) = []" by (auto simp: skip_empty_def filter_empty_conv)
qed

lemma ParseHeaders_Inl:
  "split_law L \<Longrightarrow> ParseHeaders L headers r = Inl e \<longleftrightarrow>
     e = OutOfRange \<and> (\<forall>c \<in> set headers. c = CR \<or> c = LF)"
  by (auto simp: ParseHeaders_def split_law_def skip_empty_none [symmetric] Let_def
      split: list.splits option.splits)

section \<open>Properties\<close>

text \<open>
  C16: parsing what a server writes gives back what was written. A status line with a known
  code, headers of one line each that have a value and any body at all (separators included) parse to the
  response with that code, those headers in order, that body, and the mime type of the
  \<open>Content-type\<close> header.
\<close>

theorem Parse_response_text:
  assumes "split_law L" "atoi_law L" "status_ok v code reason" "\<forall>h \<in> set hs. header_ok h"
  shows "\<exists>r mime. Parse L (response_text (status_text v code reason) hs body) Response = Inr (True, r) \<and>
     GetMimeType L (GetHeader r kContentType) = Inr mime \<and>
     rs_http_response r = \<lparr>hp_code = Some (ResponseCode (int code)), hp_mime_type = Some mime,
       hp_header = map header_of hs, hp_response_body = Some body\<rparr>"
proof -
  let ?lines = "status_text v code reason # map header_text hs"
  let ?r = "\<lparr>rs_http_response = \<lparr>hp_code = Some (ResponseCode (int code)), hp_mime_type = None,
       hp_header = map header_of hs, hp_response_body = Some body\<rparr>, rs_html_fingerprint = None\<rparr>"
  have "\<forall>l \<in> set ?lines. is_line l"
    using assms(3,4) by (auto simp: status_text_line header_text_line)
  then have "find_separator (response_text (status_text v code reason) hs body) =
      Some (length (join_with [CR, LF] ?lines), kHeaderBodySplitString)"
    unfolding response_text_def by (intro find_separator_lines) auto
  moreover have "ParseHeaders L (join_with [CR, LF] ?lines) (set_body body Response) = Inr (True, ?r)"
    using ParseHeaders_lines [OF assms] by (simp add: set_body_def Response_def empty_response_def)
  moreover obtain mime where m: "IdentifyMime L ?r = Inr mime"
    using IdentifyMime_total [OF assms(1)] by blast
  ultimately have "Parse L (response_text (status_text v code reason) hs body) Response =
      Inr (True, ?r\<lparr>rs_http_response := (rs_http_response ?r)\<lparr>hp_mime_type := Some mime\<rparr>\<rparr>)"
    by (simp add: Parse_def response_text_def substr_def Let_def del: join_with.simps)
  with m show ?thesis by (simp add: IdentifyMime_def GetHeader_def)
qed

theorem Parse_response_text_witness:
  "\<exists>r mime. Parse simple_lib (response_text (status_text ''HTTP/1.1'' 404 ''Not Found'')
       [(''Content-type'', ''text/html; charset=utf-8''), (''Server'', ''x:y'')] [LF, LF]) Response =
       Inr (True, r) \<and>
     GetMimeType simple_lib (GetHeader r kContentType) = Inr mime \<and>
     rs_http_response r = \<lparr>hp_code = Some NOT_FOUND, hp_mime_type = Some mime,
       hp_header = map header_of [(''Content-type'', ''text/html; charset=utf-8''), (''Server'', ''x:y'')],
       hp_response_body = Some [LF, LF]\<rparr>"
proof -
  have "take 4 ''HTTP/1.1'' = ''HTTP''" "ResponseCode_IsValid (int 404)" by code_simp+
  then have "status_ok ''HTTP/1.1'' 404 ''Not Found''"
    by (simp add: status_ok_def CR_def LF_def)
  moreover have "\<forall>h \<in> set [(''Content-type'', ''text/html; charset=utf-8''), (''Server'', ''x:y'')].
      header_ok h" by code_simp
  moreover have "ResponseCode (int 404) = NOT_FOUND" by code_simp
  ultimately show ?thesis
    using Parse_response_text [of simple_lib "''HTTP/1.1''" 404 "''Not Found''"
        "[(''Content-type'', ''text/html; charset=utf-8''), (''Server'', ''x:y'')]" "[LF, LF]"]
    by simp
qed

text \<open>
  the only fault of the parser, and exactly when it happens: the text in front of the
  first separator has no line at all, as in a response that starts with \<open>\n\n\<close>. Every other
  input is parsed or refused.
\<close>

theorem Parse_fault:
  assumes "split_law L"
  shows "Parse L raw r = Inl e \<longleftrightarrow>
     e = OutOfRange \<and>
     (\<exists>n sep. find_separator raw = Some (n, sep) \<and> set (take n raw) \<subseteq> {CR, LF})"
proof (cases "find_separator raw")
  case (Some p)
  obtain n sep where p: "p = (n, sep)" by (cases p)
  have "Parse L raw r = Inl e \<longleftrightarrow>
      ParseHeaders L (take n raw) (set_body (drop (n + length sep) raw) r) = Inl e"
    using IdentifyMime_total [OF assms]
    by (auto simp: Parse_def Some p substr_def Let_def and_then_def split: sum.splits)
      (metis Inl_Inr_False)
  then show ?thesis using assms by (auto simp: ParseHeaders_Inl Some p)
qed (simp add: Parse_def)

theorem Parse_fault_witness: "Parse simple_lib [LF, LF, CHR ''x''] Response = Inl OutOfRange"
proof -
  have "find_separator [LF, LF, CHR ''x''] = Some (0, [LF, LF])" by code_simp
  then show ?thesis using Parse_fault [of simple_lib "[LF, LF, CHR ''x'']"] by simp
qed

end
