(* ===== verification/Request.thy ===== *)
theory Request
  imports Response
begin

text \<open>
  \<open>src/request.{h,cc}\<close>: a request, parsed from a URL into its protobuf and printed back by
  \<open>build_url\<close>, the fuzzy comparison the pivots use, the setters of parameters and headers,
  and the callbacks of the HTTP client. The members \<open>origin_\<close> and \<open>post_data_\<close> are never
  read and have no field here. A handler pointer names the object that registered itself; an
  unset or uninitialised one is \<^const>\<open>None\<close>, and a call through it is a fault.
\<close>

datatype handler =
    CrawlerHandler | NotFoundDetectorHandler | HiddenObjectsFinderHandler | RunnerHandler nat

record request =
  rq_id :: int
  rq_parent_id :: int
  rq_google_url :: "gurl option"
  rq_scheme :: string
  rq_url :: string
  rq_raw_response :: string
  rq_response :: "response option"
  rq_proto :: http_request
  rq_handler :: "handler option"
  rq_issues :: "(issue_type, issue_details list) omap"

definition kInvalidId :: int where "kInvalidId = -1"
definition kParamPairSize :: nat where "kParamPairSize = 2"
definition kSchemeHTTP :: string where "kSchemeHTTP = ''http''"
definition kSchemeHTTPS :: string where "kSchemeHTTPS = ''https''"
definition kTruncatedResponseMessage :: string where
  "kTruncatedResponseMessage = ''[truncated by plusfish]''"

definition Request_empty :: request where
  "Request_empty =
     \<lparr>rq_id = kInvalidId, rq_parent_id = kInvalidId, rq_google_url = None, rq_scheme = [],
      rq_url = [], rq_raw_response = [], rq_response = None, rq_proto = empty_request,
      rq_handler = None, rq_issues = []\<rparr>"

section \<open>Fields\<close>

definition FieldNamesEqual :: "request_field list \<Rightarrow> request_field list \<Rightarrow> bool" where
  "FieldNamesEqual one two \<longleftrightarrow>
     length one = length two \<and>
     (let unique_names = fold (\<lambda>f. hset_insert (field_name f)) two
                           (fold (\<lambda>f. hset_insert (field_name f)) one [])
      in length unique_names = length one)"

definition new_field :: "string \<Rightarrow> string \<Rightarrow> request_field" where
  "new_field name val = empty_field\<lparr>f_name := Some name, f_value := Some val\<rparr>"

text \<open>
  Returns the number of updated fields and the fields: without \<open>replace\<close> the loop returns 0
  at the first field of that name.
\<close>

definition ReplaceOrAddExistingField ::
    "string \<Rightarrow> string \<Rightarrow> bool \<Rightarrow> request_field list \<Rightarrow> int \<times> request_field list" where
  "ReplaceOrAddExistingField name val replace fs =
     (let hits = filter (\<lambda>f. field_name f = name) fs in
      if hits \<noteq> [] \<and> \<not> replace then (0, fs)
      else if hits \<noteq> [] then
        (int (length hits),
         map (\<lambda>f. if field_name f = name then f\<lparr>f_value := Some val\<rparr> else f) fs)
      else (1, fs @ [new_field name val]))"

definition SetHeader :: "string \<Rightarrow> string \<Rightarrow> bool \<Rightarrow> request \<Rightarrow> int \<times> request" where
  "SetHeader name val replace req =
     (let (n, fs) = ReplaceOrAddExistingField name val replace (hr_header (rq_proto req))
      in (n, req\<lparr>rq_proto := (rq_proto req)\<lparr>hr_header := fs\<rparr>\<rparr>))"

definition PrepareHeaders :: "flags \<Rightarrow> request \<Rightarrow> request" where
  "PrepareHeaders F req = snd (SetHeader kUserAgent (fl_user_agent F) False req)"

section \<open>Building the URL\<close>

definition scheme :: "request \<Rightarrow> string \<times> request" where
  "scheme req =
     (if rq_scheme req = [] then
        (let s = (if req_ssl (rq_proto req) then kSchemeHTTPS else kSchemeHTTP)
         in (s, req\<lparr>rq_scheme := s\<rparr>))
      else (rq_scheme req, req))"

definition host :: "request \<Rightarrow> string" where
  "host req = (case hr_host (rq_proto req) of
     Some h \<Rightarrow> h | None \<Rightarrow> value_or [] (hr_ip (rq_proto req)))"

definition path :: "request \<Rightarrow> string" where
  "path req = concat (map (\<lambda>f. field_name f @ field_value f) (hr_path (rq_proto req)))"

definition param_text :: "request_field \<Rightarrow> string" where
  "param_text f = (case f_value f of
     Some v \<Rightarrow> field_name f @ ''='' @ v | None \<Rightarrow> field_name f)"

definition params_text :: "request_field list \<Rightarrow> string" where
  "params_text fs =
     fold (\<lambda>f tmp. tmp @ (if tmp = [] then ''?'' else ''&'') @ param_text f) fs []"

definition build_url :: "flags \<Rightarrow> request \<Rightarrow> request" where
  "build_url F req =
     (let (s, req1) = scheme req; p = rq_proto req1;
          url = s @ ''://'' @ req_host p @ '':'' @ to_string (req_port p) @ path req1 @
            params_text (hr_param p) @
            (case hr_raw_fragment p of Some f \<Rightarrow> f | None \<Rightarrow> [])
      in PrepareHeaders F (req1\<lparr>rq_url := url, rq_proto := p\<lparr>hr_url := Some url\<rparr>\<rparr>))"

definition Request_proto :: "externals \<Rightarrow> flags \<Rightarrow> http_request \<Rightarrow> request" where
  "Request_proto L F p =
     (let req = build_url F (Request_empty\<lparr>rq_proto := p\<rparr>)
      in build_url F (req\<lparr>rq_google_url := Some (GURL L (rq_url req))\<rparr>))"

section \<open>Parsing a URL\<close>

definition url_is_valid :: "request \<Rightarrow> bool" where
  "url_is_valid req \<longleftrightarrow> (case rq_google_url req of Some g \<Rightarrow> g_is_valid g | None \<Rightarrow> False)"

definition path_field :: "string \<Rightarrow> request_field" where
  "path_field v = new_field ''/'' v"

definition path_fields :: "externals \<Rightarrow> string \<Rightarrow> request_field list" where
  "path_fields L pa =
     (let elems = map path_field (skip_empty (StrSplit L (\<lambda>c. c = CHR ''/'') (c_str pa)))
      in if elems = [] \<or> last pa = CHR ''/'' then elems @ [path_field []] else elems)"

text \<open>One \<open>name=value\<close> pair; \<open>tmp.at(0)\<close> throws on an empty vector.\<close>

definition param_field :: "externals \<Rightarrow> string \<Rightarrow> request_field result" where
  "param_field L q =
     (let tmp = StrSplit L (\<lambda>c. c = CHR ''='') (c_str q) in
      if tmp = [] then Inl OutOfRange
      else Inr (empty_field\<lparr>f_name := Some (tmp ! 0),
             f_value := (if length tmp = kParamPairSize then Some (tmp ! 1) else None)\<rparr>))"

fun param_fields :: "externals \<Rightarrow> string list \<Rightarrow> request_field list result" where
  "param_fields L [] = Inr []"
| "param_fields L (q # qs) =
     and_then (param_field L q) (\<lambda>f. and_then (param_fields L qs) (\<lambda>fs. Inr (f # fs)))"

definition resolve_url :: "externals \<Rightarrow> string \<Rightarrow> request option \<Rightarrow> gurl" where
  "resolve_url L url ref =
     (let g = GURL L url in
      case ref of
        Some r \<Rightarrow>
          (case rq_google_url r of
             Some rg \<Rightarrow> if \<not> g_is_valid g \<and> g_is_valid rg then Resolve L rg url else g
           | None \<Rightarrow> g)
      | None \<Rightarrow> g)"

definition ParseUrl ::
    "externals \<Rightarrow> flags \<Rightarrow> string \<Rightarrow> request option \<Rightarrow> request \<Rightarrow> (bool \<times> request) result" where
  "ParseUrl L F url ref req =
     (let g = resolve_url L url ref; req1 = req\<lparr>rq_google_url := Some g\<rparr> in
      if \<not> g_is_valid g then Inr (False, req1)
      else
        let p = rq_proto req1;
            p1 = p\<lparr>hr_raw_url := Some url, hr_host := Some (g_host g),
                   hr_port := Some (g_EffectiveIntPort g), hr_ssl := Some (g_SchemeIsSecure g),
                   hr_path := hr_path p @ path_fields L (g_path g)\<rparr>
        in and_then
             (if g_has_query g
              then param_fields L (StrSplit L (\<lambda>c. c = CHR ''&'') (c_str (g_query g)))
              else Inr [])
             (\<lambda>ps. Inr (True, build_url F (req1\<lparr>rq_proto := p1\<lparr>hr_param := hr_param p1 @ ps\<rparr>\<rparr>))))"

definition Request_ref ::
    "externals \<Rightarrow> flags \<Rightarrow> string \<Rightarrow> request option \<Rightarrow> request result" where
  "Request_ref L F url origin =
     and_then (ParseUrl L F url origin Request_empty) (\<lambda>(ok, req). Inr req)"

definition Request_url :: "externals \<Rightarrow> flags \<Rightarrow> string \<Rightarrow> request result" where
  "Request_url L F url =
     and_then (ParseUrl L F url None Request_empty) (\<lambda>(ok, req). Inr req)"

section \<open>Comparison, setters and callbacks\<close>

definition request_Equals :: "request \<Rightarrow> request \<Rightarrow> bool" where
  "request_Equals req ref =
     (let p = rq_proto req; q = rq_proto ref in
      if req_ssl p = req_ssl q \<and> req_method p = req_method q \<and> req_host p = req_host q \<and>
         req_port p = req_port q \<and> length (hr_param p) = length (hr_param q) \<and>
         length (hr_body_param p) = length (hr_body_param q) \<and>
         length (hr_path p) = length (hr_path q)
      then
        if \<not> FieldNamesEqual (hr_param p) (hr_param q) \<or>
           \<not> FieldNamesEqual (hr_body_param p) (hr_body_param q)
        then False
        else list_all2 (\<lambda>a b. field_value a = field_value b) (hr_path p) (hr_path q)
      else False)"

definition SetGetParameter ::
    "flags \<Rightarrow> string \<Rightarrow> string \<Rightarrow> bool \<Rightarrow> request \<Rightarrow> int \<times> request" where
  "SetGetParameter F name val replace req =
     (let (n, fs) = ReplaceOrAddExistingField name val replace (hr_param (rq_proto req))
      in (n, build_url F (req\<lparr>rq_proto := (rq_proto req)\<lparr>hr_param := fs\<rparr>\<rparr>)))"

definition SetPostParameter ::
    "string \<Rightarrow> string \<Rightarrow> bool \<Rightarrow> request \<Rightarrow> int \<times> request" where
  "SetPostParameter name val replace req =
     (let p = (rq_proto req)\<lparr>hr_method := Some POST\<rparr>;
          (n, fs) = ReplaceOrAddExistingField name val replace (hr_body_param p)
      in (n, req\<lparr>rq_proto := p\<lparr>hr_body_param := fs\<rparr>\<rparr>))"

definition GetRequestBody :: "request \<Rightarrow> string" where
  "GetRequestBody req =
     fold (\<lambda>f body. body @ (if body = [] then [] else ''&'') @ field_name f @ ''='' @ field_value f)
       (hr_body_param (rq_proto req)) []"

definition ResponseCb :: "string \<Rightarrow> request \<Rightarrow> request" where
  "ResponseCb bytes req = req\<lparr>rq_raw_response := rq_raw_response req @ bytes\<rparr>"

text \<open>
  The result is the request and the handler to call with it, none when there is nothing to
  handle.
\<close>

definition DoneCb :: "externals \<Rightarrow> request \<Rightarrow> (request \<times> handler option) result" where
  "DoneCb L req =
     (if rq_raw_response req = [] then Inr (req, None)
      else and_then (Parse L (rq_raw_response req) Response) (\<lambda>(ok, resp).
        if \<not> ok then Inr (req\<lparr>rq_response := None\<rparr>, None)
        else
          case rq_handler req of
            None \<Rightarrow> Inl NullPointer
          | Some h \<Rightarrow> Inr (req\<lparr>rq_response := Some resp, rq_raw_response := []\<rparr>, Some h)))"

definition set_ip :: "string \<Rightarrow> request \<Rightarrow> request" where
  "set_ip ip req = req\<lparr>rq_proto := (rq_proto req)\<lparr>hr_ip := Some ip\<rparr>\<rparr>"

definition request_AddIssue :: "issue_details \<Rightarrow> request \<Rightarrow> request" where
  "request_AddIssue issue req =
     req\<lparr>rq_issues := omap_set (issue_type_of issue)
       (omap_get [] (issue_type_of issue) (rq_issues req) @ [issue]) (rq_issues req)\<rparr>"

definition truncate_response_body :: "request \<Rightarrow> request result" where
  "truncate_response_body req = (case rq_response req of
     None \<Rightarrow> Inl NullPointer
   | Some r \<Rightarrow> Inr (req\<lparr>rq_response := Some (set_body kTruncatedResponseMessage r)\<rparr>))"

definition set_response_html_fingerprint :: "html_fingerprint \<Rightarrow> request \<Rightarrow> request result" where
  "set_response_html_fingerprint fp req = (case rq_response req of
     None \<Rightarrow> Inl NullPointer
   | Some r \<Rightarrow> Inr (req\<lparr>rq_response := Some (set_html_fingerprint fp r)\<rparr>))"

section \<open>Lemmas: fields\<close>

lemma set_fold_names:
  "set (fold (\<lambda>f. hset_insert (field_name f)) fs ns) = set ns \<union> field_name ` set fs"
  by (induction fs arbitrary: ns) auto

lemma distinct_fold_names:
  "distinct (fold (\<lambda>f. hset_insert (field_name f)) fs ns) = distinct ns"
  by (induction fs arbitrary: ns) auto

lemma FieldNamesEqual_card:
  "FieldNamesEqual one two \<longleftrightarrow>
     length one = length two \<and> card (field_name ` set one \<union> field_name ` set two) = length one"
proof -
  let ?u = "fold (\<lambda>f. hset_insert (field_name f)) two (fold (\<lambda>f. hset_insert (field_name f)) one [])"
  have "distinct ?u" by (simp add: distinct_fold_names)
  then have "length ?u = card (set ?u)" by (simp add: distinct_card)
  then show ?thesis by (simp add: FieldNamesEqual_def Let_def set_fold_names)
qed

lemma distinct_names_card:
  "distinct (map field_name fs) \<Longrightarrow> card (field_name ` set fs) = length fs"
  using distinct_card [of "map field_name fs"] by simp

lemma ReplaceOrAdd_unchanged:
  "f \<in> set fs \<Longrightarrow> field_name f = name \<Longrightarrow> ReplaceOrAddExistingField name v False fs = (0, fs)"
  by (auto simp: ReplaceOrAddExistingField_def Let_def filter_empty_conv)

section \<open>Lemmas: build\_url\<close>

lemma SetHeader_other [simp, frame_simps]:
  "hr_param (rq_proto (snd (SetHeader n v b req))) = hr_param (rq_proto req)"
  "hr_body_param (rq_proto (snd (SetHeader n v b req))) = hr_body_param (rq_proto req)"
  "hr_path (rq_proto (snd (SetHeader n v b req))) = hr_path (rq_proto req)"
  "hr_host (rq_proto (snd (SetHeader n v b req))) = hr_host (rq_proto req)"
  "hr_port (rq_proto (snd (SetHeader n v b req))) = hr_port (rq_proto req)"
  "hr_ssl (rq_proto (snd (SetHeader n v b req))) = hr_ssl (rq_proto req)"
  "hr_method (rq_proto (snd (SetHeader n v b req))) = hr_method (rq_proto req)"
  "hr_ip (rq_proto (snd (SetHeader n v b req))) = hr_ip (rq_proto req)"
  "rq_url (snd (SetHeader n v b req)) = rq_url req"
  "rq_google_url (snd (SetHeader n v b req)) = rq_google_url req"
  "rq_id (snd (SetHeader n v b req)) = rq_id req"
  "rq_parent_id (snd (SetHeader n v b req)) = rq_parent_id req"
  "rq_handler (snd (SetHeader n v b req)) = rq_handler req"
  "rq_issues (snd (SetHeader n v b req)) = rq_issues req"
  "rq_scheme (snd (SetHeader n v b req)) = rq_scheme req"
  "rq_response (snd (SetHeader n v b req)) = rq_response req"
  "rq_raw_response (snd (SetHeader n v b req)) = rq_raw_response req"
  by (simp_all add: SetHeader_def split_beta Let_def)

lemma build_url_frame [simp, frame_simps]:
  "hr_param (rq_proto (build_url F req)) = hr_param (rq_proto req)"
  "hr_body_param (rq_proto (build_url F req)) = hr_body_param (rq_proto req)"
  "hr_path (rq_proto (build_url F req)) = hr_path (rq_proto req)"
  "hr_host (rq_proto (build_url F req)) = hr_host (rq_proto req)"
  "hr_port (rq_proto (build_url F req)) = hr_port (rq_proto req)"
  "hr_ssl (rq_proto (build_url F req)) = hr_ssl (rq_proto req)"
  "hr_method (rq_proto (build_url F req)) = hr_method (rq_proto req)"
  "hr_ip (rq_proto (build_url F req)) = hr_ip (rq_proto req)"
  "rq_google_url (build_url F req) = rq_google_url req"
  "rq_id (build_url F req) = rq_id req"
  "rq_parent_id (build_url F req) = rq_parent_id req"
  "rq_handler (build_url F req) = rq_handler req"
  "rq_issues (build_url F req) = rq_issues req"
  "rq_response (build_url F req) = rq_response req"
  "rq_raw_response (build_url F req) = rq_raw_response req"
  by (simp_all add: build_url_def scheme_def PrepareHeaders_def Let_def)

lemma build_url_url:
  "rq_url (build_url F req) = fst (scheme req) @ ''://'' @ req_host (rq_proto req) @ '':'' @
     to_string (req_port (rq_proto req)) @ path req @ params_text (hr_param (rq_proto req)) @
     value_or [] (hr_raw_fragment (rq_proto req))"
  by (simp add: build_url_def scheme_def PrepareHeaders_def Let_def path_def
      split: option.split)

lemma params_text_fold:
  "tmp \<noteq> [] \<Longrightarrow> fold (\<lambda>f tmp. tmp @ (if tmp = [] then ''?'' else ''&'') @ param_text f) fs tmp =
     tmp @ concat (map (\<lambda>f. ''&'' @ param_text f) fs)"
  by (induction fs arbitrary: tmp) auto

lemma join_with_concat:
  "join_with sep (x # xs) = x @ concat (map (\<lambda>y. sep @ y) xs)"
  by (induction xs arbitrary: x) auto

lemma params_text_join:
  "params_text fs = (if fs = [] then [] else ''?'' @ join_with ''&'' (map param_text fs))"
proof (cases fs)
  case (Cons f rest)
  then show ?thesis
    by (simp add: params_text_def params_text_fold join_with_concat comp_def)
qed (simp add: params_text_def)

lemma set_join_with: "set (join_with sep xs) \<subseteq> set sep \<union> \<Union> (set ` set xs)"
  by (induction sep xs rule: join_with.induct) auto

section \<open>Lemmas: parsing\<close>

text \<open>The segments of a path without empty segments, the last excepted.\<close>

definition segments_ok :: "string list \<Rightarrow> bool" where
  "segments_ok vs \<longleftrightarrow> vs \<noteq> [] \<and> (\<forall>v \<in> set vs. CHR ''/'' \<notin> set v \<and> NUL \<notin> set v) \<and>
     (\<forall>v \<in> set (butlast vs). v \<noteq> [])"

definition path_text :: "string list \<Rightarrow> string" where
  "path_text vs = concat (map (\<lambda>v. ''/'' @ v) vs)"

lemma split_path_text:
  "\<forall>v \<in> set vs. CHR ''/'' \<notin> set v \<Longrightarrow> split_by (\<lambda>c. c = CHR ''/'') (path_text vs) = [] # vs"
proof (induction vs)
  case (Cons v vs)
  have "split_by (\<lambda>c. c = CHR ''/'') (v @ path_text vs) = v # vs"
  proof (cases vs)
    case (Cons w ws)
    have "split_by (\<lambda>c. c = CHR ''/'') (v @ CHR ''/'' # w @ path_text ws) =
        v # split_by (\<lambda>c. c = CHR ''/'') (w @ path_text ws)"
      using Cons.prems by (intro split_char_cut) simp
    then show ?thesis using Cons Cons.IH Cons.prems by (auto simp: path_text_def)
  qed (use Cons.prems in \<open>simp add: path_text_def\<close>)
  then show ?case by (simp add: path_text_def)
qed (simp add: path_text_def)

lemma path_fields_text:
  assumes "split_law L" "segments_ok vs"
  shows "path_fields L (path_text vs) = map path_field vs"
proof -
  obtain us u where vs: "vs = us @ [u]" using assms(2) by (cases vs rule: rev_cases) (auto simp: segments_ok_def)
  have "NUL \<notin> set (path_text vs)" using assms(2) by (auto simp: path_text_def segments_ok_def NUL_def)
  then have c: "c_str (path_text vs) = path_text vs" by (rule c_str_no_NUL)
  have "split_by (\<lambda>c. c = CHR ''/'') (path_text vs) = [] # vs"
    using assms(2) by (intro split_path_text) (simp add: segments_ok_def)
  moreover have "filter (\<lambda>x. x \<noteq> []) us = us" using assms(2) vs by (auto simp: segments_ok_def)
  moreover have "last (path_text vs) = (if u = [] then CHR ''/'' else last u)"
    by (simp add: vs path_text_def)
  moreover have "last u \<noteq> CHR ''/''" if "u \<noteq> []"
  proof -
    have "last u \<in> set u" using that by simp
    moreover have "CHR ''/'' \<notin> set u" using assms(2) vs by (simp add: segments_ok_def)
    ultimately show ?thesis by metis
  qed
  ultimately show ?thesis using assms(1)
    by (auto simp: path_fields_def split_law_def c [unfolded vs] skip_empty_def vs Let_def)
qed

lemma path_of_fields: "concat (map (\<lambda>f. field_name f @ field_value f) (map path_field vs)) = path_text vs"
  by (simp add: path_text_def path_field_def new_field_def comp_def)

text \<open>A query piece the parser keeps whole has at most one equals sign.\<close>

definition piece_ok :: "string \<Rightarrow> bool" where
  "piece_ok q \<longleftrightarrow> NUL \<notin> set q \<and> CHR ''&'' \<notin> set q \<and> count_list q CHR ''='' \<le> 1"

lemma length_split_by: "length (split_by (\<lambda>c. c = d) s) = Suc (count_list s d)"
proof (induction s)
  case (Cons c s)
  obtain x xs where "split_by (\<lambda>c. c = d) s = x # xs"
    by (metis list.exhaust split_by_nonempty)
  with Cons show ?case by auto
qed simp

definition param_of :: "string \<Rightarrow> request_field" where
  "param_of q =
     (let tmp = split_by (\<lambda>c. c = CHR ''='') q
      in empty_field\<lparr>f_name := Some (tmp ! 0),
           f_value := (if length tmp = kParamPairSize then Some (tmp ! 1) else None)\<rparr>)"

lemma param_field_of:
  "split_law L \<Longrightarrow> NUL \<notin> set q \<Longrightarrow> param_field L q = Inr (param_of q)"
  by (simp add: param_field_def split_law_def c_str_no_NUL param_of_def Let_def)

lemma param_text_of:
  "param_text (param_of q) =
     (if count_list q CHR ''='' \<le> 1 then q else takeWhile (\<lambda>c. c \<noteq> CHR ''='') q)"
proof -
  let ?tmp = "split_by (\<lambda>c. c = CHR ''='') q"
  have len: "length ?tmp = Suc (count_list q CHR ''='')" by (rule length_split_by)
  have j: "join_with ''='' ?tmp = q" by (rule join_split_by)
  consider "count_list q CHR ''='' = 0" | "count_list q CHR ''='' = 1" | "count_list q CHR ''='' > 1"
    by linarith
  then show ?thesis
  proof cases
    case 1
    then have "length ?tmp = 1" using len by simp
    then obtain a where "?tmp = [a]" by (cases ?tmp) auto
    with 1 j show ?thesis by (simp add: param_text_def param_of_def kParamPairSize_def)
  next
    case 2
    then have "length ?tmp = 2" using len by simp
    then obtain a b where "?tmp = [a, b]" by (cases ?tmp; cases "tl ?tmp") auto
    with 2 j show ?thesis by (simp add: param_text_def param_of_def kParamPairSize_def)
  next
    case 3
    then have "CHR ''='' \<in> set q" using count_notin by fastforce
    then obtain u v where q: "q = u @ CHR ''='' # v" "CHR ''='' \<notin> set u" by (meson split_list_first)
    then have "takeWhile (\<lambda>c. c \<noteq> CHR ''='') q = u" by (auto simp: takeWhile_append)
    with 3 len q show ?thesis by (simp add: param_text_def param_of_def kParamPairSize_def)
  qed
qed

lemma param_fields_of:
  "split_law L \<Longrightarrow> \<forall>q \<in> set qs. NUL \<notin> set q \<Longrightarrow> param_fields L qs = Inr (map param_of qs)"
  by (induction qs) (auto simp: param_field_of)

lemma param_fields_total: "split_law L \<Longrightarrow> \<exists>fs. param_fields L qs = Inr fs"
  by (induction qs) (auto simp: param_field_def split_law_def Let_def)

lemma ParseUrl_total: "split_law L \<Longrightarrow> \<exists>ok req'. ParseUrl L F url ref req = Inr (ok, req')"
  using param_fields_total [of L "StrSplit L (\<lambda>c. c = CHR ''&'') (c_str (g_query (resolve_url L url ref)))"]
  by (auto simp: ParseUrl_def Let_def)

lemma Request_url_total: "split_law L \<Longrightarrow> \<exists>req. Request_url L F url = Inr req"
  using ParseUrl_total [of L F url None Request_empty] by (auto simp: Request_url_def)

section \<open>Properties\<close>

text \<open>
  C15: a request made from a valid absolute URL holds its path segments and its parameters in
  order, and prints back the same path and query behind the canonical scheme, host and port,
  when the path has no empty segment inside and no parameter has two equals signs.
\<close>

theorem Request_url_roundtrip:
  assumes "split_law L" "GURL L url = g" "g_is_valid g"
    "g_path g = path_text vs" "segments_ok vs"
    "g_query g = join_with ''&'' qs" "qs \<noteq> []" "\<forall>q \<in> set qs. piece_ok q"
  shows "\<exists>req. Request_url L F url = Inr req \<and>
     hr_path (rq_proto req) = map path_field vs \<and>
     map param_text (hr_param (rq_proto req)) = (if g_has_query g then qs else []) \<and>
     rq_url req = (if g_SchemeIsSecure g then ''https'' else ''http'') @ ''://'' @ g_host g @ '':'' @
       to_string (g_EffectiveIntPort g) @ g_path g @
       (if g_has_query g then ''?'' @ g_query g else [])"
proof -
  let ?ps = "if g_has_query g then map param_of qs else []"
  let ?req = "Request_empty\<lparr>rq_google_url := Some g, rq_proto := empty_request
     \<lparr>hr_raw_url := Some url, hr_host := Some (g_host g), hr_port := Some (g_EffectiveIntPort g),
      hr_ssl := Some (g_SchemeIsSecure g), hr_path := map path_field vs, hr_param := ?ps\<rparr>\<rparr>"
  have "NUL \<notin> set (g_query g)"
    using assms(6,8) set_join_with [of "''&''" qs] by (auto simp: piece_ok_def NUL_def)
  then have "split_by (\<lambda>c. c = CHR ''&'') (c_str (g_query g)) = qs"
    using split_by_join [of qs "CHR ''&''"] assms(6-8) by (simp add: c_str_no_NUL piece_ok_def)
  moreover have "param_fields L qs = Inr (map param_of qs)"
    using assms(1,8) by (intro param_fields_of) (auto simp: piece_ok_def)
  ultimately have "Request_url L F url = Inr (build_url F ?req)"
    using assms(1-3) path_fields_text [OF assms(1,5)]
    by (simp add: Request_url_def ParseUrl_def resolve_url_def split_law_def Request_empty_def
        empty_request_def assms(4) Let_def)
  moreover have "map (param_text \<circ> param_of) qs = qs"
    using assms(8) by (auto simp: param_text_of piece_ok_def intro: map_idI)
  moreover have "path ?req = path_text vs" using path_of_fields [of vs] by (simp add: path_def)
  ultimately show ?thesis using assms(4,6,7)
    by (simp add: build_url_url scheme_def Request_empty_def empty_request_def params_text_join
        kSchemeHTTP_def kSchemeHTTPS_def Let_def)
qed

theorem Request_url_roundtrip_witness:
  "\<exists>req. Request_url simple_lib default_flags ''http://a.b/x/y/?k=v&debug'' = Inr req \<and>
     rq_url req = ''http://a.b:80/x/y/?k=v&debug''"
proof -
  let ?g = "simple_gurl ''http://a.b/x/y/?k=v&debug''"
  have g: "g_is_valid ?g" "g_path ?g = path_text [''x'', ''y'', []]"
    "g_query ?g = join_with ''&'' [''k=v'', ''debug'']"
    "g_SchemeIsSecure ?g = False" "g_has_query ?g" "g_host ?g = ''a.b''"
    "to_string (g_EffectiveIntPort ?g) = ''80''" "g_path ?g = ''/x/y/''" "g_query ?g = ''k=v&debug''"
    by code_simp+
  have "segments_ok [''x'', ''y'', []]" "\<forall>q \<in> set [''k=v'', ''debug'']. piece_ok q"
    by (simp_all add: segments_ok_def piece_ok_def NUL_def)
  then show ?thesis
    using Request_url_roundtrip [of simple_lib "''http://a.b/x/y/?k=v&debug''" ?g "[''x'', ''y'', []]"
        "[''k=v'', ''debug'']" default_flags] g
    by (auto simp: simple_lib_def split_law_def)
qed

text \<open>
  a parameter of the query is printed back as it was parsed if and only if it has at most
  one equals sign; with more of them everything from the first one on is lost.
\<close>

theorem param_field_text:
  assumes "split_law L" "NUL \<notin> set q"
  shows "\<exists>f. param_field L q = Inr f \<and>
     (param_text f = q \<longleftrightarrow> count_list q CHR ''='' \<le> 1) \<and>
     (count_list q CHR ''='' > 1 \<longrightarrow> param_text f = takeWhile (\<lambda>c. c \<noteq> CHR ''='') q)"
proof -
  have "takeWhile (\<lambda>c. c \<noteq> CHR ''='') q \<noteq> q" if "count_list q CHR ''='' > 1"
  proof -
    have "CHR ''='' \<in> set q" using that count_notin by fastforce
    then show ?thesis by (metis set_takeWhileD)
  qed
  then show ?thesis using param_field_of [OF assms] by (auto simp: param_text_of)
qed

theorem param_field_text_witness:
  "\<exists>f. param_field simple_lib ''next=/a?b=c'' = Inr f \<and> param_text f = ''next''"
  using param_field_text [of simple_lib "''next=/a?b=c''"] by (auto simp: NUL_def)

text \<open>
  on fields with distinct names the name comparison is the equality of the two sets of
  names; repeated names break it in both directions.
\<close>

theorem FieldNamesEqual_sets:
  assumes "distinct (map field_name one)" "distinct (map field_name two)"
  shows "FieldNamesEqual one two \<longleftrightarrow> field_name ` set one = field_name ` set two"
proof
  let ?A = "field_name ` set one" and ?B = "field_name ` set two"
  note card = distinct_names_card [OF assms(1)] distinct_names_card [OF assms(2)]
  assume "FieldNamesEqual one two"
  then have "card (?A \<union> ?B) = card ?A" "card (?A \<union> ?B) = card ?B"
    using card by (simp_all add: FieldNamesEqual_card)
  then have "?A \<union> ?B = ?A" "?A \<union> ?B = ?B"
    by (metis List.finite_set card_subset_eq finite_UnI finite_imageI sup_ge1 sup_ge2)+
  then show "?A = ?B" by simp
next
  assume "field_name ` set one = field_name ` set two"
  then show "FieldNamesEqual one two"
    using distinct_names_card [OF assms(1)] distinct_names_card [OF assms(2)]
    by (simp add: FieldNamesEqual_card)
qed

theorem FieldNamesEqual_sets_witness:
  "FieldNamesEqual [new_field ''a'' ''1'', new_field ''b'' ''2''] [new_field ''b'' ''3'', new_field ''a'' ''4'']"
  using FieldNamesEqual_sets [of "[new_field ''a'' ''1'', new_field ''b'' ''2'']"
      "[new_field ''b'' ''3'', new_field ''a'' ''4'']"]
  by (auto simp: new_field_def empty_field_def)

end
