(* ===== verification/Audit_Util.thy ===== *)
theory Audit_Util
  imports Escaping Proto
begin

text \<open>
  \<open>src/audit/util/audit_util.cc\<close> and \<open>src/audit/util/issue_util.cc\<close>: the encoding of
  injection payloads and the snippet of a response that goes with an issue. A \<open>char\<close> is
  signed, so the cast to \<open>unsigned int\<close> extends the sign of bytes above 127.
\<close>

section \<open>Payloads\<close>

definition hex_digit :: "nat \<Rightarrow> char" where
  "hex_digit d = (if d < 10 then char_of (48 + d) else char_of (87 + d))"

fun nat_hex :: "nat \<Rightarrow> string" where
  "nat_hex n = (if n < 16 then [hex_digit n] else nat_hex (n div 16) @ [hex_digit (n mod 16)])"

declare nat_hex.simps [simp del]

definition unsigned_of_char :: "char \<Rightarrow> nat" where
  "unsigned_of_char c = (if byte c < 128 then byte c else 2 ^ 32 - 256 + byte c)"

definition kUrlEncodeIgnoreChars :: "char list" where
  "kUrlEncodeIgnoreChars = ''&=;,!$?%''"

definition encode_char :: "char list \<Rightarrow> char \<Rightarrow> string" where
  "encode_char ignore c =
     (if \<not> isalnum c \<and> c \<notin> set ignore then ''%'' @ nat_hex (unsigned_of_char c) else [c])"

definition encode_url_token_partial :: "string \<Rightarrow> char list \<Rightarrow> string" where
  "encode_url_token_partial token ignore = concat (map (encode_char ignore) token)"

definition encode_url_token :: "string \<Rightarrow> string" where
  "encode_url_token token = encode_url_token_partial token kUrlEncodeIgnoreChars"

definition GeneratePayloadString ::
    "string \<Rightarrow> string \<Rightarrow> injection_method \<Rightarrow> encoding_type \<Rightarrow> string" where
  "GeneratePayloadString original_value pay method encoding =
     (let final_payload = (case method of
            APPEND_TO_VALUE \<Rightarrow> original_value @ pay
          | PREFIX_VALUE \<Rightarrow> pay @ original_value
          | _ \<Rightarrow> pay)
      in case encoding of
           ENCODING_URL \<Rightarrow> encode_url_token final_payload
         | ENCODING_HTML \<Rightarrow> EscapeHtml final_payload
         | _ \<Rightarrow> final_payload)"

section \<open>Issue snippets\<close>

definition kSnippetOffset :: int where "kSnippetOffset = 100"

definition snippet :: "string \<Rightarrow> int \<Rightarrow> string option" where
  "snippet response_body offset =
     (if offset < 0 \<or> int (length response_body) \<le> offset then None
      else if kSnippetOffset < offset
      then Some (substr response_body (nat (offset - kSnippetOffset)) (nat (kSnippetOffset + kSnippetOffset)))
      else Some (substr response_body 0 (nat kSnippetOffset)))"

definition UpdateIssueVectorWithSnippet ::
    "issue_type \<Rightarrow> severity \<Rightarrow> int \<Rightarrow> string \<Rightarrow> int \<Rightarrow> string \<Rightarrow> issue_details list \<Rightarrow>
     issue_details list" where
  "UpdateIssueVectorWithSnippet t sev req_id response_body offset extra_info issues =
     issues @ [empty_issue\<lparr>is_severity := Some sev, is_type := Some t, is_extra_info := Some extra_info,
       is_request_id := Some req_id, is_response_body_offset := Some offset,
       is_response_snippet := snippet response_body offset\<rparr>]"

section \<open>Lemmas\<close>

text \<open>Percent decoding as a server does it: two hexadecimal digits after each percent sign.\<close>

definition hex_value :: "char \<Rightarrow> nat" where
  "hex_value c = (if isdigit c then byte c - 48 else byte c - 87)"

fun percent_decode :: "string \<Rightarrow> string" where
  "percent_decode [] = []"
| "percent_decode (c # s) =
     (if c = CHR ''%'' then
        (case s of a # b # rest \<Rightarrow> char_of (16 * hex_value a + hex_value b) # percent_decode rest
         | _ \<Rightarrow> c # s)
      else c # percent_decode s)"

lemma hex_value_digit [simp]: "d < 16 \<Longrightarrow> hex_value (hex_digit d) = d"
  by (auto simp: hex_value_def hex_digit_def isdigit_def)

lemma nat_hex_two:
  assumes "16 \<le> n" "n < 256"
  shows "nat_hex n = [hex_digit (n div 16), hex_digit (n mod 16)]"
proof -
  have "n div 16 < 16" using assms by simp
  then show ?thesis using assms by (simp add: nat_hex.simps [of n] nat_hex.simps [of "n div 16"])
qed

lemma percent_decode_encode_char:
  assumes "16 \<le> byte c" "byte c < 128" "c \<noteq> CHR ''%''"
  shows "percent_decode (encode_char ignore c @ s) = c # percent_decode s"
proof (cases "\<not> isalnum c \<and> c \<notin> set ignore")
  case True
  then have "encode_char ignore c @ s =
      CHR ''%'' # hex_digit (byte c div 16) # hex_digit (byte c mod 16) # s"
    using assms by (simp add: encode_char_def unsigned_of_char_def nat_hex_two)
  moreover have "byte c div 16 < 16" using assms by simp
  ultimately show ?thesis by simp
next
  case False
  then show ?thesis using assms by (auto simp: encode_char_def)
qed

section \<open>Properties\<close>

text \<open>
  percent decoding undoes the encoding of a payload of characters with two hexadecimal
  digits, codes 16 to 127, other than the percent sign, which is never escaped.
\<close>

theorem encode_url_token_decode:
  assumes "\<forall>c \<in> set token. 16 \<le> byte c \<and> byte c < 128 \<and> c \<noteq> CHR ''%''"
  shows "percent_decode (encode_url_token_partial token ignore) = token"
  using assms
  by (induction token) (simp_all add: encode_url_token_partial_def percent_decode_encode_char)

theorem encode_url_token_decode_witness:
  "percent_decode (encode_url_token_partial ''<a b>'' kUrlEncodeIgnoreChars) = ''<a b>''"
  using encode_url_token_decode [of "''<a b>''" kUrlEncodeIgnoreChars] by simp

text \<open>
  outside that range the encoding is not a percent encoding: a control character below 16
  gets one digit, a byte above 127 eight, and then decoding gives another string.
\<close>

theorem encode_url_token_wrong:
  "encode_url_token [LF, CHR ''x''] = ''%ax'' \<and>
   encode_url_token [CHR 0x80] = ''%ffffff80'' \<and>
   percent_decode (encode_url_token [LF, CHR ''1'']) \<noteq> [LF, CHR ''1'']"
proof (intro conjI)
  show "encode_url_token [LF, CHR ''x''] = ''%ax''" by code_simp
  have "nat_hex 4294967168 = ''ffffff80''"
    by (simp add: nat_hex.simps [of "numeral n" for n] hex_digit_def char_of_def bit_simps)
  moreover have "\<not> isalnum (CHR 0x80)" "CHR 0x80 \<notin> set kUrlEncodeIgnoreChars" by code_simp+
  moreover have "unsigned_of_char (CHR 0x80) = 4294967168"
    by (simp add: unsigned_of_char_def)
  ultimately show "encode_url_token [CHR 0x80] = ''%ffffff80''"
    by (simp add: encode_url_token_def encode_url_token_partial_def encode_char_def)
  show "percent_decode (encode_url_token [LF, CHR ''1'']) \<noteq> [LF, CHR ''1'']" by code_simp
qed

text \<open>
  the snippet of an issue is a window of the response body of at most 200 bytes, and shows
  the byte at the offset unless the offset is exactly 100: then the first 100 bytes are cut
  just in front of it.
\<close>

theorem snippet_window:
  assumes "0 \<le> offset" "offset < int (length body)"
  shows "\<exists>pre s post. body = pre @ s @ post \<and> snippet body offset = Some s \<and> length s \<le> 200 \<and>
     (offset \<noteq> 100 \<longleftrightarrow> int (length pre) \<le> offset \<and> offset < int (length pre + length s))"
proof (cases "100 < offset")
  case True
  let ?p = "nat (offset - 100)"
  have "body = take ?p body @ take 200 (drop ?p body) @ drop 200 (drop ?p body)"
    by (simp only: append_take_drop_id)
  moreover have "snippet body offset = Some (take 200 (drop ?p body))"
    using assms True by (simp add: snippet_def kSnippetOffset_def substr_def)
  moreover have "int (length (take ?p body)) = offset - 100" using assms True by simp
  moreover have "offset < offset - 100 + int (length (take 200 (drop ?p body)))"
    using assms True by simp
  ultimately show ?thesis using True
    by (intro exI [of _ "take ?p body"] exI [of _ "take 200 (drop ?p body)"]
        exI [of _ "drop 200 (drop ?p body)"]) auto
next
  case False
  have "snippet body offset = Some (take 100 body)"
    using assms False by (simp add: snippet_def kSnippetOffset_def substr_def)
  then show ?thesis using assms False
    by (intro exI [of _ "[]"] exI [of _ "take 100 body"] exI [of _ "drop 100 body"]) auto
qed

theorem snippet_window_witness:
  "\<exists>pre s post. ''hello'' = pre @ s @ post \<and> snippet ''hello'' 2 = Some s \<and> length s \<le> 200 \<and>
     int (length pre) \<le> 2 \<and> 2 < int (length pre + length s)"
  using snippet_window [of 2 "''hello''"] by auto

end
