(* ===== verification/Scrape_Util.thy ===== *)
theory Scrape_Util
  imports Externals
begin

text \<open>
  \<open>src/parsers/util/scrape_util.{h,cc}\<close>: the scrapers for JavaScript and text, the detection
  of injected XSS payloads and of XSRF tokens, and content sniffing. The loops over indices are
  recursions on the index; \<open>last_keyword_start\<close> is an option, \<^const>\<open>None\<close> for -1.
\<close>

definition BSL :: char where "BSL = CHR 0x5C"
definition DQ :: char where "DQ = CHR 0x22"
definition SQ :: char where "SQ = CHR 0x27"

definition kXssPayloadRegex :: string where "kXssPayloadRegex = ''(?i)plus([0-9]+)fish''"
definition kTagXssPayloadRegex :: string where "kTagXssPayloadRegex = ''(?i)<plus([0-9]+)fish>''"

definition kAbsoluteUrlRegex :: string where
  "kAbsoluteUrlRegex =
     ''((https?:)?//[a-zA-Z0-9-]+'' @ [BSL] @ ''.?[a-zA-Z0-9-]+[^'' @ [BSL] @ ''s]*)''"

definition kRelativeUrlRegex :: string where
  "kRelativeUrlRegex =
     ''(^('' @ [BSL] @ ''/?'' @ [BSL] @ ''.'' @ [BSL] @ ''.'' @ [BSL] @ ''/|'' @ [BSL] @ ''/)['' @
     [BSL] @ ''w*'' @ [BSL] @ ''.'' @ [BSL] @ ''/]+[^'' @ [BSL] @ ''s]*)''"

definition kContentBufferSize :: nat where "kContentBufferSize = 1024"

definition kJsKeywordSuffixes :: "string list" where
  "kJsKeywordSuffixes = [''.href'', ''.src'', ''.action'', ''location'', ''location.assign'', ''window.open'']"

section \<open>XSRF tokens\<close>

definition kXsrfBase16MinLength :: nat where "kXsrfBase16MinLength = 8"
definition kXsrfBase16MaxLength :: nat where "kXsrfBase16MaxLength = 45"
definition kXsrfBase16MinDigits :: nat where "kXsrfBase16MinDigits = 2"
definition kXsrfBase64MinLength :: nat where "kXsrfBase64MinLength = 6"
definition kXsrfBase64MaxLength :: nat where "kXsrfBase64MaxLength = 52"
definition kXsrfBase64MinDigits :: nat where "kXsrfBase64MinDigits = 1"
definition kXsrfBase64MinUpperCase :: nat where "kXsrfBase64MinUpperCase = 2"
definition kXsrfBase64AltMinDigits :: nat where "kXsrfBase64AltMinDigits = 3"
definition kXsrfBase64MaxSlash :: nat where "kXsrfBase64MaxSlash = 2"
definition kBase16Chars :: string where "kBase16Chars = ''abcdef''"
definition kBase64Chars :: string where "kBase64Chars = ''=+/''"

text \<open>\<open>strchr\<close> also finds the terminating NUL.\<close>

definition strchr :: "string \<Rightarrow> char \<Rightarrow> bool" where
  "strchr s c \<longleftrightarrow> c \<in> set s \<or> c = NUL"

fun base16_loop :: "string \<Rightarrow> nat \<Rightarrow> nat \<Rightarrow> bool" where
  "base16_loop [] digits offset \<longleftrightarrow> kXsrfBase16MinLength \<le> offset \<and> kXsrfBase16MinDigits \<le> digits"
| "base16_loop (c # s) digits offset =
     (if isdigit c \<or> strchr kBase16Chars (tolower c) then
        if kXsrfBase16MaxLength < Suc offset then False
        else base16_loop s (if isdigit c then Suc digits else digits) (Suc offset)
      else kXsrfBase16MinLength \<le> offset \<and> kXsrfBase16MinDigits \<le> digits)"

definition IsPotentialBase16Token :: "string \<Rightarrow> bool" where
  "IsPotentialBase16Token val = base16_loop val 0 0"

definition base64_verdict :: "nat \<Rightarrow> nat \<Rightarrow> nat \<Rightarrow> nat \<Rightarrow> bool" where
  "base64_verdict slashes uppers digits offset \<longleftrightarrow>
     kXsrfBase64MinLength \<le> offset \<and> slashes \<le> kXsrfBase64MaxSlash \<and>
     (kXsrfBase64AltMinDigits \<le> digits \<or>
      (kXsrfBase64MinDigits \<le> digits \<and> kXsrfBase64MinUpperCase \<le> uppers))"

fun base64_loop :: "string \<Rightarrow> nat \<Rightarrow> nat \<Rightarrow> nat \<Rightarrow> nat \<Rightarrow> bool" where
  "base64_loop [] slashes uppers digits offset = base64_verdict slashes uppers digits offset"
| "base64_loop (c # s) slashes uppers digits offset =
     (if \<not> isalnum c \<and> \<not> strchr kBase64Chars c then base64_verdict slashes uppers digits offset
      else if kXsrfBase64MaxLength < Suc offset then False
      else base64_loop s
        (if \<not> isupper c \<and> \<not> isdigit c \<and> c = CHR ''/'' then Suc slashes else slashes)
        (if isupper c then Suc uppers else uppers)
        (if \<not> isupper c \<and> isdigit c then Suc digits else digits) (Suc offset))"

definition IsPotentialBase64Token :: "string \<Rightarrow> bool" where
  "IsPotentialBase64Token val = base64_loop val 0 0 0 0"

definition IsPotentialXSRFToken :: "string \<Rightarrow> bool" where
  "IsPotentialXSRFToken val \<longleftrightarrow> IsPotentialBase16Token val \<or> IsPotentialBase64Token val"

section \<open>Payloads and keywords\<close>

definition MatchXssPayload :: "externals \<Rightarrow> string \<Rightarrow> int option" where
  "MatchXssPayload L val = FullMatch_int64 L val kXssPayloadRegex"

definition SearchXssTagPayload :: "externals \<Rightarrow> string \<Rightarrow> int option" where
  "SearchXssTagPayload L val = PartialMatch_int64 L val kTagXssPayloadRegex"

definition JsKeywordSuffixMatch :: "string \<Rightarrow> bool" where
  "JsKeywordSuffixMatch keyword =
     list_ex (\<lambda>suffix. length suffix \<le> length keyword \<and>
       drop (length keyword - length suffix) keyword = suffix) kJsKeywordSuffixes"

section \<open>JavaScript\<close>

fun quoted_scan :: "char \<Rightarrow> string \<Rightarrow> nat \<Rightarrow> nat option" where
  "quoted_scan quote [] i = None"
| "quoted_scan quote (c # s) i =
     (if c = BSL then (case s of [] \<Rightarrow> None | d # s' \<Rightarrow> quoted_scan quote s' (i + 2))
      else if c = quote then Some (i - 1)
      else quoted_scan quote s (i + 1))"

definition GetQuotedTextSize :: "string \<Rightarrow> nat \<Rightarrow> nat" where
  "GetQuotedTextSize content offset =
     (case quoted_scan (content ! offset) (drop (Suc offset) content) 1 of
        Some n \<Rightarrow> n | None \<Rightarrow> length content - offset)"

definition js_issue :: "int \<Rightarrow> issue_details" where
  "js_issue req_id = empty_issue\<lparr>is_severity := Some HIGH, is_type := Some XSS_REFLECTED_JAVASCRIPT,
     is_issue_name := Some ''Reflected XSS'',
     is_extra_info := Some ''Found payload in javascript context'', is_request_id := Some req_id\<rparr>"

record js_state =
  js_keyword_start :: "nat option"
  js_keyword :: string
  js_anchors :: "string list"
  js_issues :: "issue_details list"

text \<open>What the loop does with a quoted string at \<open>i\<close> and with another character.\<close>

definition js_quoted :: "externals \<Rightarrow> string \<Rightarrow> nat \<Rightarrow> nat \<Rightarrow> js_state \<Rightarrow> js_state" where
  "js_quoted L content i sz s =
     (if js_keyword s \<noteq> [] \<and> sz \<noteq> 0 then
        let quoted_text = substr content (i + 1) sz in
        if JsKeywordSuffixMatch (js_keyword s) \<and> quoted_text \<noteq> []
        then s\<lparr>js_anchors := hset_insert quoted_text (js_anchors s), js_keyword := []\<rparr>
        else if FullMatch L quoted_text kRelativeUrlRegex \<or> FullMatch L quoted_text kAbsoluteUrlRegex
        then s\<lparr>js_anchors := hset_insert quoted_text (js_anchors s)\<rparr>
        else s
      else s)"

definition js_char :: "externals \<Rightarrow> string \<Rightarrow> nat \<Rightarrow> js_state \<Rightarrow> js_state" where
  "js_char L content i s =
     (if isalnum (content ! i) \<or> content ! i = CHR ''.'' then
        (case js_keyword_start s of None \<Rightarrow> s\<lparr>js_keyword_start := Some i\<rparr> | Some k \<Rightarrow> s)
      else
        (case js_keyword_start s of
           None \<Rightarrow> s
         | Some k \<Rightarrow>
             let kw = substr content k (i - k);
                 s1 = s\<lparr>js_keyword := kw, js_keyword_start := None\<rparr>
             in (case MatchXssPayload L kw of
                   Some req_id \<Rightarrow> s1\<lparr>js_issues := js_issues s1 @ [js_issue req_id]\<rparr>
                 | None \<Rightarrow> s1)))"

function js_loop :: "externals \<Rightarrow> string \<Rightarrow> nat \<Rightarrow> js_state \<Rightarrow> js_state" where
  "js_loop L content i s =
     (if length content \<le> i then s
      else if content ! i = SQ \<or> content ! i = DQ then
        let sz = GetQuotedTextSize content i
        in js_loop L content (i + sz + 2) (js_quoted L content i sz s)
      else js_loop L content (Suc i) (js_char L content i s))"
  by pat_completeness auto
termination
  by (relation "measure (\<lambda>(L, content, i, s). length content - i)") auto

declare js_loop.simps [simp del]

text \<open>The anchors found and the issues appended to those given.\<close>

definition ScrapeJs ::
    "externals \<Rightarrow> string \<Rightarrow> issue_details list \<Rightarrow> string list \<times> issue_details list" where
  "ScrapeJs L content issues =
     (let s = js_loop L content 0
        \<lparr>js_keyword_start = Some 0, js_keyword = [], js_anchors = [], js_issues = issues\<rparr>
      in (js_anchors s, js_issues s))"

section \<open>Text\<close>

text \<open>
  \<open>ScrapeUrl\<close> loops while the expression matches; \<^const>\<open>None\<close> is a loop that does not end.
\<close>

partial_function (option) scrape_url_loop :: "externals \<Rightarrow> string \<Rightarrow> string list \<Rightarrow> string list option" where
  "scrape_url_loop L content anchors =
     (case FindAndConsume L kAbsoluteUrlRegex content of
        None \<Rightarrow> Some anchors
      | Some (anchor, rest) \<Rightarrow> scrape_url_loop L rest (hset_insert anchor anchors))"

declare scrape_url_loop.simps [code]

definition ScrapeUrl :: "externals \<Rightarrow> string \<Rightarrow> string list option" where
  "ScrapeUrl L content = scrape_url_loop L content []"

section \<open>Content sniffing\<close>

abbreviation found_in :: "string \<Rightarrow> string \<Rightarrow> bool" where
  "found_in buf needle \<equiv> strcasestr buf needle \<noteq> None"

definition SniffMimeType :: "string \<Rightarrow> mime_type option" where
  "SniffMimeType content =
     (let sniffbuf = (if kContentBufferSize < length content
                      then substr content 0 kContentBufferSize else content) in
      if found_in sniffbuf ''<?xml '' then
        if found_in sniffbuf ''<!DOCTYPE html'' \<or> found_in sniffbuf ''http://www.w3.org/1999/xhtml''
        then Some XML_XHTML else Some XML_GENERIC
      else if list_ex (found_in sniffbuf)
        [''<!DOCTYPE html'', ''<html'', ''<title'', ''<head>'', ''<body'', ''<table'', ''<form'',
         ''<p>'', ''<foo'']
      then Some ASC_HTML else None)"

section \<open>Lemmas\<close>

definition is_base16 :: "char \<Rightarrow> bool" where
  "is_base16 c \<longleftrightarrow> isdigit c \<or> strchr kBase16Chars (tolower c)"

lemma base16_loop_prefix:
  "offset \<le> kXsrfBase16MaxLength \<Longrightarrow>
   base16_loop s digits offset \<longleftrightarrow>
     (let p = takeWhile is_base16 s in
      kXsrfBase16MinLength \<le> offset + length p \<and> offset + length p \<le> kXsrfBase16MaxLength \<and>
      kXsrfBase16MinDigits \<le> digits + length (filter isdigit p))"
proof (induction s arbitrary: digits offset)
  case (Cons c s)
  have "length (takeWhile is_base16 s) \<ge> 0" by simp
  show ?case
  proof (cases "is_base16 c \<and> Suc offset \<le> kXsrfBase16MaxLength")
    case True
    then show ?thesis using Cons.IH [of "Suc offset"] by (auto simp: is_base16_def Let_def)
  next
    case False
    then show ?thesis using Cons.prems by (auto simp: is_base16_def Let_def)
  qed
qed (simp add: Let_def)

lemma quoted_scan_bound: "quoted_scan q s i = Some n \<Longrightarrow> 0 < i \<Longrightarrow> n < i + length s"
  by (induction q s i rule: quoted_scan.induct) (auto split: if_splits list.splits)

text \<open>An anchor the JavaScript scraper finds stands in the content behind a quote.\<close>

definition quoted_in :: "string \<Rightarrow> string \<Rightarrow> bool" where
  "quoted_in content a \<longleftrightarrow> (\<exists>pre q post. content = pre @ q # a @ post \<and> (q = SQ \<or> q = DQ))"

lemma substr_quoted_in:
  assumes "i < length content" "content ! i = SQ \<or> content ! i = DQ"
  shows "quoted_in content (substr content (i + 1) n)"
proof -
  have "content = take i content @ content ! i # take n (drop (Suc i) content) @ drop n (drop (Suc i) content)"
    using assms(1) by (simp only: append_take_drop_id id_take_nth_drop [symmetric])
  then show ?thesis using assms(2) unfolding quoted_in_def substr_def by auto
qed

lemma js_loop_quoted:
  "\<forall>a \<in> set (js_anchors s). quoted_in content a \<Longrightarrow> \<forall>a \<in> set (js_anchors (js_loop L content i s)). quoted_in content a"
proof (induction L content i s rule: js_loop.induct)
  case (1 L content i s)
  show ?case
  proof (cases "length content \<le> i")
    case True
    then show ?thesis using "1.prems" by (simp add: js_loop.simps [of L content i])
  next
    case False
    show ?thesis
    proof (cases "content ! i = SQ \<or> content ! i = DQ")
      case True
      let ?sz = "GetQuotedTextSize content i"
      have "\<forall>a \<in> set (js_anchors (js_quoted L content i ?sz s)). quoted_in content a"
        using "1.prems" substr_quoted_in [of i content ?sz] False True
        by (auto simp: js_quoted_def Let_def)
      then show ?thesis using "1.IH"(1) [OF False True refl] False True
        by (simp add: js_loop.simps [of L content i] Let_def)
    next
      case no_quote: False
      have "js_anchors (js_char L content i s) = js_anchors s"
        by (auto simp: js_char_def Let_def split: option.splits)
      then show ?thesis using "1.IH"(2) [OF False no_quote] "1.prems" False no_quote
        by (simp add: js_loop.simps [of L content i])
    qed
  qed
qed

lemma ScrapeJs_quoted_in: "a \<in> set (fst (ScrapeJs L content issues)) \<Longrightarrow> quoted_in content a"
  using js_loop_quoted [of "\<lparr>js_keyword_start = Some 0, js_keyword = [], js_anchors = [], js_issues = issues\<rparr>" content L 0]
  by (simp add: ScrapeJs_def Let_def)

lemma quoted_in_length: "quoted_in content a \<Longrightarrow> length a < length content"
  by (auto simp: quoted_in_def)

text \<open>
  The successive matches of the expression in a text, each behind the one before, up to the
  text in which there is none.
\<close>

inductive url_matches :: "externals \<Rightarrow> string \<Rightarrow> string list \<Rightarrow> bool" for L where
  no_match: "FindAndConsume L kAbsoluteUrlRegex content = None \<Longrightarrow> url_matches L content []"
| match: "FindAndConsume L kAbsoluteUrlRegex content = Some (anchor, rest) \<Longrightarrow> url_matches L rest anchors \<Longrightarrow>
    url_matches L content (anchor # anchors)"

lemma url_matches_exist:
  assumes "consume_law L [kAbsoluteUrlRegex]"
  shows "\<exists>anchors. url_matches L content anchors \<and> length anchors \<le> length content"
proof (induction "length content" arbitrary: content rule: less_induct)
  case less
  show ?case
  proof (cases "FindAndConsume L kAbsoluteUrlRegex content")
    case None
    then show ?thesis by (auto intro: url_matches.no_match)
  next
    case (Some p)
    obtain anchor rest where p: "FindAndConsume L kAbsoluteUrlRegex content = Some (anchor, rest)"
      using Some by (cases p) simp
    then have shorter: "length rest < length content" using assms by (simp add: consume_law_def)
    from less [OF this] obtain anchors where "url_matches L rest anchors" "length anchors \<le> length rest" by blast
    then show ?thesis using url_matches.match [OF p] shorter by (intro exI [of _ "anchor # anchors"]) simp
  qed
qed

lemma scrape_url_loop_matches:
  "url_matches L content anchors \<Longrightarrow> scrape_url_loop L content found = Some (fold hset_insert anchors found)"
  by (induction arbitrary: found rule: url_matches.induct) (simp_all add: scrape_url_loop.simps)

lemma fold_hset_insert:
  "set (fold hset_insert xs ys) = set ys \<union> set xs" "distinct (fold hset_insert xs ys) = distinct ys"
  by (induction xs arbitrary: ys) auto

section \<open>Properties\<close>

text \<open>
  the base 16 test looks only at the longest prefix of hexadecimal characters: it accepts a
  value exactly when that prefix has 8 to 45 characters and at least two digits, whatever
  follows it.
\<close>

theorem IsPotentialBase16Token_prefix:
  "IsPotentialBase16Token val \<longleftrightarrow>
     (let p = takeWhile is_base16 val in 8 \<le> length p \<and> length p \<le> 45 \<and> 2 \<le> length (filter isdigit p))"
  using base16_loop_prefix [of 0 val 0]
  by (simp add: IsPotentialBase16Token_def kXsrfBase16MaxLength_def kXsrfBase16MinLength_def
      kXsrfBase16MinDigits_def Let_def)

text \<open>
  every URL the JavaScript scraper returns stands in the script right behind a quote, and
  is shorter than the script.
\<close>

theorem ScrapeJs_quoted:
  "\<forall>a \<in> set (fst (ScrapeJs L content issues)).
     length a < length content \<and> (\<exists>pre q post. content = pre @ q # a @ post \<and> (q = SQ \<or> q = DQ))"
  using ScrapeJs_quoted_in quoted_in_length unfolding quoted_in_def by blast

text \<open>The classic assignment, whose target is found.\<close>

theorem ScrapeJs_quoted_witness:
  "''/x'' \<in> set (fst (ScrapeJs simple_lib (''a.href='' @ [DQ] @ ''/x'' @ [DQ]) [])) \<and>
   length ''/x'' < length (''a.href='' @ [DQ] @ ''/x'' @ [DQ])"
proof
  show found: "''/x'' \<in> set (fst (ScrapeJs simple_lib (''a.href='' @ [DQ] @ ''/x'' @ [DQ]) []))" by code_simp
  then show "length ''/x'' < length (''a.href='' @ [DQ] @ ''/x'' @ [DQ])" using ScrapeJs_quoted by blast
qed

text \<open>
  C40: the URL scraper ends on every text and misses no URL. As long as a match of the expression
  consumes input, the loop returns, after at most as many rounds as the text has characters, and
  what it returns are the successive matches up to the rest of the text that has none, each once.
\<close>

theorem ScrapeUrl_terminates:
  assumes "consume_law L [kAbsoluteUrlRegex]"
  shows "\<exists>anchors found. ScrapeUrl L content = Some found \<and> url_matches L content anchors \<and>
     length anchors \<le> length content \<and> set found = set anchors \<and> distinct found"
proof -
  obtain anchors where "url_matches L content anchors" "length anchors \<le> length content"
    using url_matches_exist [OF assms] by blast
  then show ?thesis using scrape_url_loop_matches [of L content anchors "[]"] by (auto simp: ScrapeUrl_def fold_hset_insert)
qed

text \<open>A library whose matches are the words that start with the scheme.\<close>

definition find_url :: "string \<Rightarrow> (string \<times> string) option" where
  "find_url s = (case str_find ''http://'' s of
     None \<Rightarrow> None
   | Some i \<Rightarrow> let url = takeWhile (\<lambda>c. \<not> isspace c) (drop i s) in Some (url, drop (i + length url) s))"

definition url_lib :: externals where
  "url_lib = simple_lib\<lparr>FindAndConsume := (\<lambda>re s. find_url s)\<rparr>"

lemma consume_law_url_lib: "consume_law url_lib res"
proof -
  have "length rest < length s" if found: "find_url s = Some (url, rest)" for s url rest
  proof -
    obtain i where i: "str_find ''http://'' s = Some i" and
        url: "url = takeWhile (\<lambda>c. \<not> isspace c) (drop i s)" "rest = drop (i + length url) s"
      using found by (auto simp: find_url_def Let_def split: option.splits)
    have "take (length ''http://'') (drop i s) = ''http://''" using i by (simp only: str_find_Some_iff)
    then obtain t where t: "drop i s = CHR ''h'' # t" by (cases "drop i s") auto
    then have "i < length s" by (metis drop_eq_Nil list.distinct(1) not_less)
    moreover have "url \<noteq> []" unfolding url(1) t by (simp add: isspace_def)
    ultimately show ?thesis using url(2) by (cases url) auto
  qed
  then show ?thesis by (simp add: consume_law_def url_lib_def)
qed

theorem ScrapeUrl_terminates_witness:
  "ScrapeUrl url_lib ''see http://a.b and http://c.d or http://a.b'' = Some [''http://a.b'', ''http://c.d''] \<and>
   (\<exists>anchors. url_matches url_lib ''see http://a.b and http://c.d or http://a.b'' anchors \<and>
     set anchors = {''http://a.b'', ''http://c.d''})"
proof
  let ?text = "''see http://a.b and http://c.d or http://a.b''"
  show r: "ScrapeUrl url_lib ?text = Some [''http://a.b'', ''http://c.d'']" by code_simp
  obtain anchors where "url_matches url_lib ?text anchors" "set [''http://a.b'', ''http://c.d''] = set anchors"
    using ScrapeUrl_terminates [OF consume_law_url_lib, of ?text] unfolding r by auto
  then show "\<exists>anchors. url_matches url_lib ?text anchors \<and> set anchors = {''http://a.b'', ''http://c.d''}"
    by (intro exI [of _ anchors]) simp
qed

end
