(* ===== verification/Gumbo_Filters.thy ===== *)
theory Gumbo_Filters
  imports Gumbo_Parser Request Escaping Audit_Util Scrape_Util
begin

text \<open>
  The four filters of \<open>src/parsers/\<close>: \<open>gumbo_url_filter.{h,cc}\<close> (anchors, JavaScript),
  \<open>gumbo_xss_filter.{h,cc}\<close> (injected tags and attributes), \<open>gumbo_form_filter.{h,cc}\<close> (requests
  from forms and their weaknesses) and \<open>gumbo_fingerprint_filter.{h,cc}\<close>. The state of a walk
  has the containers the filters share and the members each of them keeps between nodes; the
  set of issue pointers is a list, in the order of insertion.
\<close>

record filter_state =
  fs_anchors :: "string list"
  fs_issues :: "issue_details list"
  fs_requests :: "request list"
  fs_fingerprint :: html_fingerprint
  fs_last_element :: "gumbo_element option"
  fs_current_request :: "request option"
  fs_form_offset :: int
  fs_form_is_post :: bool
  fs_form_has_password :: bool
  fs_form_has_xsrf_token :: bool

definition new_filter_state :: "string list \<Rightarrow> issue_details list \<Rightarrow> request list \<Rightarrow> filter_state" where
  "new_filter_state anchors issues requests =
     \<lparr>fs_anchors = anchors, fs_issues = issues, fs_requests = requests,
      fs_fingerprint = HtmlFingerprint, fs_last_element = None, fs_current_request = None,
      fs_form_offset = 0, fs_form_is_post = True, fs_form_has_password = False,
      fs_form_has_xsrf_token = False\<rparr>"

definition kAction :: string where "kAction = ''action''"
definition kContent :: string where "kContent = ''content''"
definition kHref :: string where "kHref = ''href''"
definition kHttpEquiv :: string where "kHttpEquiv = ''http-equiv''"
definition kMethod :: string where "kMethod = ''method''"
definition kName :: string where "kName = ''name''"
definition kSrc :: string where "kSrc = ''src''"
definition kType :: string where "kType = ''type''"
definition kUrl :: string where "kUrl = ''url''"
definition kValue :: string where "kValue = ''value''"

section \<open>Anchors\<close>

definition kJavascriptScheme :: string where "kJavascriptScheme = ''javascript:''"
definition kVbscriptScheme :: string where "kVbscriptScheme = ''vbscript:''"
definition kMetaRefreshUrlPrefix :: string where "kMetaRefreshUrlPrefix = ''url=''"
definition kEventHandlerPrefix :: string where "kEventHandlerPrefix = ''on''"
definition kPotentialUrlPrefixes :: "string list" where
  "kPotentialUrlPrefixes = [''http://'', ''https://'', ''//'']"
definition kAnchorAttributes :: "string list" where
  "kAnchorAttributes = [kHref, kSrc, kAction, kUrl]"

lemma ScrapeJs_shorter:
  assumes "x \<in> set (fst (ScrapeJs L (drop n a) issues))"
  shows "length x < length a"
  using quoted_in_length [OF ScrapeJs_quoted_in [OF assms]] by simp

text \<open>
  \<open>AddAnchor\<close> and \<open>AddAnchorsSet\<close> call each other on the anchors of a script URL. They end:
  every anchor that \<open>ScrapeJs\<close> finds is shorter than the script. The scheme was found at the
  start of the anchor, so \<open>substr\<close> drops just that.
\<close>

function AddAnchor ::
    "externals \<Rightarrow> string \<Rightarrow> string list \<times> issue_details list \<Rightarrow> string list \<times> issue_details list" where
  "AddAnchor L new_anchor s =
     (if new_anchor \<in> set (fst s) then s
      else if StartsWithIgnoreCase L (c_str new_anchor) kJavascriptScheme then
        fold (\<lambda>a s. AddAnchor L a s)
          (fst (ScrapeJs L (drop (length kJavascriptScheme) new_anchor) (snd s)))
          (fst s, snd (ScrapeJs L (drop (length kJavascriptScheme) new_anchor) (snd s)))
      else if StartsWithIgnoreCase L (c_str new_anchor) kVbscriptScheme then
        fold (\<lambda>a s. AddAnchor L a s)
          (fst (ScrapeJs L (drop (length kVbscriptScheme) new_anchor) (snd s)))
          (fst s, snd (ScrapeJs L (drop (length kVbscriptScheme) new_anchor) (snd s)))
      else (fst s @ [new_anchor], snd s))"
  by pat_completeness auto
termination
  by (relation "measure (\<lambda>(L, a, s). length a)") (auto dest: ScrapeJs_shorter)

declare AddAnchor.simps [simp del]

definition AddAnchor_state :: "externals \<Rightarrow> string \<Rightarrow> filter_state \<Rightarrow> filter_state" where
  "AddAnchor_state L a s =
     (let (anchors, issues) = AddAnchor L a (fs_anchors s, fs_issues s)
      in s\<lparr>fs_anchors := anchors, fs_issues := issues\<rparr>)"

definition AddAnchorsSet :: "externals \<Rightarrow> string list \<Rightarrow> filter_state \<Rightarrow> filter_state" where
  "AddAnchorsSet L anchors s = fold (AddAnchor_state L) anchors s"

definition AddAnchorsSetHtmlUnescaped :: "externals \<Rightarrow> string list \<Rightarrow> filter_state \<Rightarrow> filter_state" where
  "AddAnchorsSetHtmlUnescaped L anchors s = fold (\<lambda>a. AddAnchor_state L (UnescapeHtml a)) anchors s"

text \<open>Scripts: the issues go into the shared set, the URLs to the caller.\<close>

definition scrape_script :: "externals \<Rightarrow> string \<Rightarrow> filter_state \<Rightarrow> string list \<times> filter_state" where
  "scrape_script L content s =
     (let (urls, issues) = ScrapeJs L content (fs_issues s) in (urls, s\<lparr>fs_issues := issues\<rparr>))"

text \<open>\<open>front()\<close> of the empty string is outside its precondition.\<close>

definition strip_quotes :: "string \<Rightarrow> string result" where
  "strip_quotes final_url =
     (case final_url of
        [] \<Rightarrow> Inl OutOfRange
      | quote # rest \<Rightarrow>
          if quote = DQ \<or> quote = SQ then
            if last final_url = quote then Inr (substr final_url 1 (length final_url - 2))
            else Inr (substr final_url 1 (length final_url - 1))
          else Inr final_url)"

definition ParseMeta :: "externals \<Rightarrow> gumbo_element \<Rightarrow> filter_state \<Rightarrow> (bool \<times> filter_state) result" where
  "ParseMeta L element s =
     (case GetAttribute L (el_attributes element) kContent of
        None \<Rightarrow> Inr (False, s)
      | Some content_attr \<Rightarrow>
          if GetAttribute L (el_attributes element) kHttpEquiv = None then Inr (False, s)
          else
            case strcasestr (at_value content_attr) kMetaRefreshUrlPrefix of
              None \<Rightarrow> Inr (False, s)
            | Some i \<Rightarrow>
                and_then
                  (strip_quotes (drop (i + length kMetaRefreshUrlPrefix) (c_str (at_value content_attr))))
                  (\<lambda>final_url. Inr (True, AddAnchor_state L final_url s)))"

definition parse_attribute :: "externals \<Rightarrow> gumbo_attribute \<Rightarrow> filter_state \<Rightarrow> filter_state" where
  "parse_attribute L attr s =
     (let s1 =
        (if StartsWithIgnoreCase L (at_name attr) kEventHandlerPrefix then
           (let (js_urls, s0) = scrape_script L (at_value attr) s
            in AddAnchorsSetHtmlUnescaped L js_urls s0)
         else s)
      in
      if list_ex (\<lambda>attr_name. StartsWithIgnoreCase L attr_name (at_name attr)) kAnchorAttributes
      then AddAnchor_state L (UnescapeHtml (at_value attr)) s1
      else if list_ex (\<lambda>prefix. strncmp_eq prefix (at_value attr) (length prefix)) kPotentialUrlPrefixes
      then AddAnchor_state L (UnescapeHtml (at_value attr)) s1
      else s1)"

definition url_ParseElement :: "externals \<Rightarrow> gumbo_element \<Rightarrow> filter_state \<Rightarrow> filter_state result" where
  "url_ParseElement L node s =
     (let s1 = s\<lparr>fs_last_element := Some node\<rparr> in
      and_then (if el_tag node = GUMBO_TAG_META then ParseMeta L node s1 else Inr (False, s1))
        (\<lambda>(parsed, s2).
           if parsed then Inr s2 else Inr (fold (parse_attribute L) (el_attributes node) s2)))"

text \<open>URLs in text and comments.\<close>

definition scrape_text :: "externals \<Rightarrow> gumbo_text \<Rightarrow> filter_state \<Rightarrow> filter_state result" where
  "scrape_text L node s = (case ScrapeUrl L (tx_text node) of
     None \<Rightarrow> Inl Diverges | Some anchors \<Rightarrow> Inr (AddAnchorsSet L anchors s))"

definition url_ParseComment :: "externals \<Rightarrow> gumbo_text \<Rightarrow> filter_state \<Rightarrow> filter_state result" where
  "url_ParseComment L node s = scrape_text L node s"

definition url_ParseText :: "externals \<Rightarrow> gumbo_text \<Rightarrow> filter_state \<Rightarrow> filter_state result" where
  "url_ParseText L node s =
     (case fs_last_element s of
        None \<Rightarrow> Inl NullPointer
      | Some e \<Rightarrow>
          if el_tag e = GUMBO_TAG_SCRIPT then
            (let (js_urls, s1) = scrape_script L (tx_text node) s in Inr (AddAnchorsSet L js_urls s1))
          else scrape_text L node s)"

definition GumboUrlFilter :: "externals \<Rightarrow> filter_state gumbo_filter" where
  "GumboUrlFilter L =
     \<lparr>gf_ParseElement = url_ParseElement L, gf_ParseComment = url_ParseComment L,
      gf_ParseText = url_ParseText L\<rparr>"

section \<open>Injected tags and attributes\<close>

definition response_body :: "request \<Rightarrow> string result" where
  "response_body req = (case rq_response req of
     None \<Rightarrow> Inl NullPointer | Some r \<Rightarrow> Inr (resp_body (rs_http_response r)))"

definition add_issue ::
    "issue_type \<Rightarrow> severity \<Rightarrow> int \<Rightarrow> string \<Rightarrow> int \<Rightarrow> string \<Rightarrow> filter_state \<Rightarrow> filter_state" where
  "add_issue t sev req_id body offset extra s =
     s\<lparr>fs_issues := UpdateIssueVectorWithSnippet t sev req_id body offset extra (fs_issues s)\<rparr>"

definition xss_line :: "gumbo_element \<Rightarrow> string" where
  "xss_line node = ''Found injected XSS payload at line: '' @ to_string (el_start_line node)"

text \<open>A string made of a null pointer is a fault, whatever it is searched for.\<close>

definition xss_ParseElement ::
    "externals \<Rightarrow> request \<Rightarrow> gumbo_element \<Rightarrow> filter_state \<Rightarrow> filter_state result" where
  "xss_ParseElement L orig_request node s =
     (if el_tag node = GUMBO_TAG_UNKNOWN then
        (case el_original_tag node of
           None \<Rightarrow> Inl NullPointer
         | Some data \<Rightarrow>
             case SearchXssTagPayload L (c_str data) of
               None \<Rightarrow> Inr s
             | Some req_id \<Rightarrow> and_then (response_body orig_request) (\<lambda>body.
                 Inr (add_issue XSS_REFLECTED_TAG HIGH req_id body (el_start_offset node) (xss_line node) s)))
      else
        case find (\<lambda>a. MatchXssPayload L (at_name a) \<noteq> None) (el_attributes node) of
          None \<Rightarrow> Inr s
        | Some attr \<Rightarrow> and_then (response_body orig_request) (\<lambda>body.
            Inr (add_issue XSS_REFLECTED_ATTRIBUTE HIGH (value_or 0 (MatchXssPayload L (at_name attr)))
              body (el_start_offset node) (xss_line node) s)))"

definition GumboXssFilter :: "externals \<Rightarrow> request \<Rightarrow> filter_state gumbo_filter" where
  "GumboXssFilter L orig_request =
     \<lparr>gf_ParseElement = xss_ParseElement L orig_request, gf_ParseComment = (\<lambda>t s. Inr s),
      gf_ParseText = (\<lambda>t s. Inr s)\<rparr>"

section \<open>Forms\<close>

definition kGetMethod :: string where "kGetMethod = ''GET''"
definition kPasswordFieldType :: string where "kPasswordFieldType = ''password''"
definition kHiddenFieldType :: string where "kHiddenFieldType = ''hidden''"

definition AddRequestParameter :: "flags \<Rightarrow> string \<Rightarrow> string \<Rightarrow> filter_state \<Rightarrow> filter_state result" where
  "AddRequestParameter F name val s =
     (case fs_current_request s of
        None \<Rightarrow> Inl NullPointer
      | Some req \<Rightarrow>
          Inr (s\<lparr>fs_current_request := Some (snd
            (if fs_form_is_post s then SetPostParameter name val False req
             else SetGetParameter F name val False req))\<rparr>))"

definition ProcessInputField :: "flags \<Rightarrow> gumbo_element \<Rightarrow> filter_state \<Rightarrow> filter_state result" where
  "ProcessInputField F element s =
     (let attributes = FillAttributeMap element in
      case map_of attributes kName of
        None \<Rightarrow> Inr s
      | Some name \<Rightarrow>
          and_then (AddRequestParameter F name (omap_get [] kValue attributes) s) (\<lambda>s1.
            case map_of attributes kType of
              None \<Rightarrow> Inr s1
            | Some type_value \<Rightarrow>
                let s2 = (if strcasecmp_eq type_value kPasswordFieldType
                          then s1\<lparr>fs_form_has_password := True\<rparr> else s1)
                in Inr (if strcasecmp_eq type_value kHiddenFieldType \<and>
                           IsPotentialXSRFToken (omap_get [] kValue attributes)
                        then s2\<lparr>fs_form_has_xsrf_token := True\<rparr> else s2)))"

text \<open>The loop over the children and the recursion into those that have children.\<close>

fun ParseFormFieldRecursive :: "flags \<Rightarrow> gumbo_element \<Rightarrow> filter_state \<Rightarrow> filter_state result"
  and parse_form_children :: "flags \<Rightarrow> gumbo_node list \<Rightarrow> filter_state \<Rightarrow> filter_state result"
where
  "ParseFormFieldRecursive F (GumboElement tag ot attrs children offset line) s =
     parse_form_children F children s"
| "parse_form_children F [] s = Inr s"
| "parse_form_children F (GUMBO_NODE_ELEMENT e # nodes) s =
     and_then
       (if el_tag e = GUMBO_TAG_INPUT \<or> el_tag e = GUMBO_TAG_TEXTAREA \<or> el_tag e = GUMBO_TAG_SELECT
        then ProcessInputField F e s else Inr s)
       (\<lambda>s1. and_then
          (if el_children e \<noteq> [] then ParseFormFieldRecursive F e s1 else Inr s1)
          (parse_form_children F nodes))"
| "parse_form_children F (node # nodes) s = parse_form_children F nodes s"

definition AnalyzeCurrentForm :: "request \<Rightarrow> filter_state \<Rightarrow> filter_state result" where
  "AnalyzeCurrentForm base_request s =
     (case fs_current_request s of
        None \<Rightarrow> Inr s
      | Some req \<Rightarrow>
          let base_id = rq_id base_request; off = fs_form_offset s;
              s1 = (if fs_form_has_password s \<and> \<not> req_ssl (rq_proto req)
                    then add_issue PLAINTEXT_LOGIN_FORM_TARGET HIGH base_id
                      (rq_raw_response base_request) off (''Form target: '' @ rq_url req) s
                    else s)
          in and_then
            (if fs_form_has_password s \<and> \<not> req_ssl (rq_proto base_request)
             then and_then (response_body base_request) (\<lambda>body.
               Inr (add_issue PLAINTEXT_LOGIN_FORM HIGH base_id body off [] s1))
             else Inr s1)
            (\<lambda>s2.
               if \<not> fs_form_has_xsrf_token s
               then and_then (response_body base_request) (\<lambda>body.
                 Inr (add_issue XSRF_PASSIVE MODERATE base_id body off [] s2))
               else Inr s2))"

text \<open>The new form keeps \<open>form_has_xsrf_token_\<close> as the last form left it.\<close>

definition start_form :: "externals \<Rightarrow> gumbo_element \<Rightarrow> request \<Rightarrow> filter_state \<Rightarrow> filter_state" where
  "start_form L node req s =
     s\<lparr>fs_current_request := Some req, fs_form_offset := el_start_offset node,
       fs_form_has_password := False,
       fs_form_is_post :=
         (case GetAttribute L (el_attributes node) kMethod of
            Some m \<Rightarrow> \<not> strcasecmp_eq (at_value m) kGetMethod | None \<Rightarrow> True)\<rparr>"

definition finish_form :: "filter_state \<Rightarrow> filter_state" where
  "finish_form s =
     s\<lparr>fs_requests := fs_requests s @ (case fs_current_request s of Some r \<Rightarrow> [r] | None \<Rightarrow> []),
       fs_current_request := None\<rparr>"

definition form_ParseElement ::
    "externals \<Rightarrow> flags \<Rightarrow> request \<Rightarrow> gumbo_element \<Rightarrow> filter_state \<Rightarrow> filter_state result" where
  "form_ParseElement L F base_request node s =
     (if el_tag node \<noteq> GUMBO_TAG_FORM then Inr s
      else
        case GetAttribute L (el_attributes node) kAction of
          None \<Rightarrow> Inr s
        | Some action_attr \<Rightarrow>
            and_then (Request_ref L F (UnescapeHtml (at_value action_attr)) (Some base_request)) (\<lambda>req.
              let s1 = start_form L node req s in
              and_then (if el_children node \<noteq> [] then ParseFormFieldRecursive F node s1 else Inr s1) (\<lambda>s2.
                and_then (AnalyzeCurrentForm base_request s2) (\<lambda>s3. Inr (finish_form s3)))))"

definition GumboFormFilter :: "externals \<Rightarrow> flags \<Rightarrow> request \<Rightarrow> filter_state gumbo_filter" where
  "GumboFormFilter L F base_request =
     \<lparr>gf_ParseElement = form_ParseElement L F base_request, gf_ParseComment = (\<lambda>t s. Inr s),
      gf_ParseText = (\<lambda>t s. Inr s)\<rparr>"

section \<open>Fingerprint\<close>

definition tag_word :: "string \<Rightarrow> string option" where
  "tag_word data =
     (if take 1 data = ''<'' then
        (let tag = c_str (drop 1 data) in
         if list_ex (\<lambda>c. c = CHR ''>'' \<or> c = CHR '' '') tag
         then Some (takeWhile (\<lambda>c. \<not> (c = CHR ''>'' \<or> c = CHR '' '')) tag) else None)
      else None)"

definition element_words :: "gumbo_element \<Rightarrow> string list" where
  "element_words node =
     (case el_original_tag node of
        None \<Rightarrow> [] | Some data \<Rightarrow> (case tag_word data of Some w \<Rightarrow> [w] | None \<Rightarrow> []))
     @ map at_name (el_attributes node)"

definition IsAlphanumeric :: "string \<Rightarrow> bool" where
  "IsAlphanumeric word = list_all (\<lambda>c. isalnum c \<or> isspace c) word"

definition text_words :: "externals \<Rightarrow> gumbo_text \<Rightarrow> string list" where
  "text_words L node =
     filter (\<lambda>chunk. IsAlphanumeric chunk \<and> chunk \<noteq> [])
       (StrSplit L (\<lambda>c. c = CHR '' '' \<or> c = TAB \<or> c = LF) (tx_original_text node))"

definition GumboFingerprintFilter :: "externals \<Rightarrow> filter_state gumbo_filter" where
  "GumboFingerprintFilter L =
     \<lparr>gf_ParseElement = (\<lambda>node s. Inr (s\<lparr>fs_fingerprint := fold AddWord (element_words node) (fs_fingerprint s)\<rparr>)),
      gf_ParseComment = (\<lambda>t s. Inr s),
      gf_ParseText = (\<lambda>t s. Inr (s\<lparr>fs_fingerprint := fold AddWord (text_words L t) (fs_fingerprint s)\<rparr>))\<rparr>"

section \<open>What the filters keep\<close>

text \<open>
  The invariant of a walk: the anchors are distinct and none is a script URL, every issue has a
  type, a severity the filters use and a request, the requests collected are new ones (no id,
  no parent, no response, no handler, no issue), and the fingerprint has its sixteen buckets.
\<close>

definition script_url :: "externals \<Rightarrow> string \<Rightarrow> bool" where
  "script_url L a \<longleftrightarrow> StartsWithIgnoreCase L (c_str a) kJavascriptScheme \<or>
     StartsWithIgnoreCase L (c_str a) kVbscriptScheme"

definition anchors_ok :: "externals \<Rightarrow> string list \<Rightarrow> bool" where
  "anchors_ok L anchors \<longleftrightarrow> distinct anchors \<and> (\<forall>a \<in> set anchors. \<not> script_url L a)"

definition scraped_issue :: "issue_details \<Rightarrow> bool" where
  "scraped_issue i \<longleftrightarrow> is_type i \<noteq> None \<and> (is_severity i = Some HIGH \<or> is_severity i = Some MODERATE) \<and>
     is_request_id i \<noteq> None"

definition fresh_request :: "request \<Rightarrow> bool" where
  "fresh_request r \<longleftrightarrow> rq_id r = kInvalidId \<and> rq_parent_id r = kInvalidId \<and> rq_issues r = [] \<and>
     rq_response r = None \<and> rq_raw_response r = [] \<and> rq_handler r = None \<and>
     (url_is_valid r \<longrightarrow> hr_host (rq_proto r) \<noteq> None)"

definition filter_ok :: "externals \<Rightarrow> filter_state \<Rightarrow> bool" where
  "filter_ok L s \<longleftrightarrow> anchors_ok L (fs_anchors s) \<and> list_all scraped_issue (fs_issues s) \<and>
     list_all fresh_request (fs_requests s) \<and> pred_option fresh_request (fs_current_request s) \<and>
     fp_ok (fs_fingerprint s)"

lemma js_char_issues:
  "list_all scraped_issue (js_issues s) \<Longrightarrow> list_all scraped_issue (js_issues (js_char L content i s))"
  by (auto simp: js_char_def js_issue_def scraped_issue_def Let_def split: option.splits)

lemma js_quoted_issues [simp]: "js_issues (js_quoted L content i sz s) = js_issues s"
  by (auto simp: js_quoted_def Let_def)

lemma js_loop_issues:
  "list_all scraped_issue (js_issues s) \<Longrightarrow> list_all scraped_issue (js_issues (js_loop L content i s))"
proof (induction L content i s rule: js_loop.induct)
  case (1 L content i s)
  show ?case
    using 1 by (subst js_loop.simps) (simp add: Let_def js_char_issues)
qed

lemma ScrapeJs_issues:
  "list_all scraped_issue issues \<Longrightarrow> list_all scraped_issue (snd (ScrapeJs L content issues))"
  by (simp add: ScrapeJs_def Let_def js_loop_issues)

lemma AddAnchor_ok:
  "anchors_ok L (fst s) \<and> list_all scraped_issue (snd s) \<Longrightarrow>
   anchors_ok L (fst (AddAnchor L a s)) \<and> list_all scraped_issue (snd (AddAnchor L a s))"
proof (induction L a s rule: AddAnchor.induct)
  case (1 L a s)
  let ?P = "\<lambda>s. anchors_ok L (fst s) \<and> list_all scraped_issue (snd s)"
  have fold_ok: "?P (fold (AddAnchor L) xs s0)"
    if "\<And>x s. x \<in> set xs \<Longrightarrow> ?P s \<Longrightarrow> ?P (AddAnchor L x s)" "?P s0" for xs s0
    by (rule fold_invariant [where Q = "\<lambda>x. x \<in> set xs"]) (use that in auto)
  note issues = ScrapeJs_issues [OF "1.prems" [THEN conjunct2]]
  consider "a \<in> set (fst s)" | "a \<notin> set (fst s)" "StartsWithIgnoreCase L (c_str a) kJavascriptScheme"
    | "a \<notin> set (fst s)" "\<not> StartsWithIgnoreCase L (c_str a) kJavascriptScheme"
      "StartsWithIgnoreCase L (c_str a) kVbscriptScheme"
    | "a \<notin> set (fst s)" "\<not> script_url L a" unfolding script_url_def by blast
  then show ?case
  proof cases
    case 1
    then show ?thesis using "1.prems" by (simp add: AddAnchor.simps [of L a])
  next
    case 2
    then have "?P (fold (AddAnchor L) (fst (ScrapeJs L (drop (length kJavascriptScheme) a) (snd s)))
        (fst s, snd (ScrapeJs L (drop (length kJavascriptScheme) a) (snd s))))"
      by (intro fold_ok) (use "1.IH"(1) "1.prems" issues in auto)
    then show ?thesis using 2 by (simp add: AddAnchor.simps [of L a])
  next
    case 3
    then have "?P (fold (AddAnchor L) (fst (ScrapeJs L (drop (length kVbscriptScheme) a) (snd s)))
        (fst s, snd (ScrapeJs L (drop (length kVbscriptScheme) a) (snd s))))"
      by (intro fold_ok) (use "1.IH"(2) "1.prems" issues in auto)
    then show ?thesis using 3 by (simp add: AddAnchor.simps [of L a])
  next
    case 4
    then show ?thesis using "1.prems" by (simp add: AddAnchor.simps [of L a] anchors_ok_def script_url_def)
  qed
qed

lemma AddAnchor_state_ok: "filter_ok L s \<Longrightarrow> filter_ok L (AddAnchor_state L a s)"
  using AddAnchor_ok [of L "(fs_anchors s, fs_issues s)" a]
  by (simp add: filter_ok_def AddAnchor_state_def Let_def split_beta)

lemma fold_ok:
  "(\<And>x s. filter_ok L s \<Longrightarrow> filter_ok L (f x s)) \<Longrightarrow> filter_ok L s \<Longrightarrow> filter_ok L (fold f xs s)"
  by (induction xs arbitrary: s) auto

lemma AddAnchorsSet_ok:
  "filter_ok L s \<Longrightarrow> filter_ok L (AddAnchorsSet L xs s)"
  "filter_ok L s \<Longrightarrow> filter_ok L (AddAnchorsSetHtmlUnescaped L xs s)"
  by (auto simp: AddAnchorsSet_def AddAnchorsSetHtmlUnescaped_def intro!: fold_ok AddAnchor_state_ok)

lemma scrape_script_ok:
  "filter_ok L s \<Longrightarrow> scrape_script L c s = (urls, s') \<Longrightarrow> filter_ok L s'"
  by (auto simp: scrape_script_def filter_ok_def split_beta intro: ScrapeJs_issues)

lemma parse_attribute_ok: "filter_ok L s \<Longrightarrow> filter_ok L (parse_attribute L attr s)"
proof -
  assume ok: "filter_ok L s"
  obtain urls s0 where s0: "scrape_script L (at_value attr) s = (urls, s0)" by force
  note keeps = AddAnchor_state_ok AddAnchorsSet_ok scrape_script_ok [OF ok s0] ok
  show "filter_ok L (parse_attribute L attr s)"
    by (simp add: parse_attribute_def s0 Let_def keeps)
qed

lemma filter_ok_last [simp]: "filter_ok L (s\<lparr>fs_last_element := e\<rparr>) = filter_ok L s"
  by (simp add: filter_ok_def)

lemma ParseMeta_ok: "filter_ok L s \<Longrightarrow> ParseMeta L e s = Inr (b, s') \<Longrightarrow> filter_ok L s'"
  by (auto simp: ParseMeta_def and_then_eq_Inr AddAnchor_state_ok split: option.splits if_splits)

lemma url_ParseElement_ok:
  assumes "filter_ok L s" "url_ParseElement L e s = Inr s'"
  shows "filter_ok L s'"
proof -
  obtain p where p: "(if el_tag e = GUMBO_TAG_META then ParseMeta L e (s\<lparr>fs_last_element := Some e\<rparr>)
       else Inr (False, s\<lparr>fs_last_element := Some e\<rparr>)) = Inr p"
      "(case p of (parsed, s2) \<Rightarrow> if parsed then Inr s2
         else Inr (fold (parse_attribute L) (el_attributes e) s2)) = (Inr s' :: filter_state result)"
    using assms(2) unfolding url_ParseElement_def Let_def and_then_eq_Inr
    by blast
  moreover obtain parsed s2 where "p = (parsed, s2)" by (cases p)
  ultimately have "(if el_tag e = GUMBO_TAG_META then ParseMeta L e (s\<lparr>fs_last_element := Some e\<rparr>)
       else Inr (False, s\<lparr>fs_last_element := Some e\<rparr>)) = Inr (parsed, s2)"
      and s': "s' = (if parsed then s2 else fold (parse_attribute L) (el_attributes e) s2)"
    by (auto split: if_splits)
  then have "filter_ok L s2" using assms(1) ParseMeta_ok [of L "s\<lparr>fs_last_element := Some e\<rparr>" e parsed s2]
    by (auto split: if_splits)
  then show ?thesis using s' by (simp add: fold_ok parse_attribute_ok)
qed

interpretation url_filter: filter_contract "GumboUrlFilter L" "filter_ok L" for L
proof
  fix s s' :: filter_state and e t
  assume ok: "filter_ok L s"
  show "filter_ok L s'" if "gf_ParseElement (GumboUrlFilter L) e s = Inr s'"
    using that ok by (auto simp: GumboUrlFilter_def url_ParseElement_ok)
  show "filter_ok L s'" if "gf_ParseComment (GumboUrlFilter L) t s = Inr s'"
    using that ok by (auto simp: GumboUrlFilter_def url_ParseComment_def scrape_text_def AddAnchorsSet_ok split: option.splits)
  show "filter_ok L s'" if "gf_ParseText (GumboUrlFilter L) t s = Inr s'"
    using that ok scrape_script_ok [OF ok, of "tx_text t"]
    by (auto simp: GumboUrlFilter_def url_ParseText_def scrape_text_def AddAnchorsSet_ok
        split: option.splits if_splits prod.splits)
qed

lemma add_issue_ok:
  "filter_ok L s \<Longrightarrow> sev = HIGH \<or> sev = MODERATE \<Longrightarrow> filter_ok L (add_issue t sev req_id body off extra s)"
  by (auto simp: filter_ok_def add_issue_def UpdateIssueVectorWithSnippet_def scraped_issue_def Let_def
      split: option.splits)

interpretation xss_filter: filter_contract "GumboXssFilter L req" "filter_ok L" for L req
  by unfold_locales
    (auto simp: GumboXssFilter_def xss_ParseElement_def and_then_eq_Inr add_issue_ok
      split: if_splits option.splits)

lemma fresh_Set [simp]:
  "fresh_request (snd (SetPostParameter n v b req)) = fresh_request req"
  "fresh_request (snd (SetGetParameter F n v b req)) = fresh_request req"
  by (simp_all add: fresh_request_def SetPostParameter_def SetGetParameter_def url_is_valid_def split_beta Let_def)

lemma fresh_Request_ref: "Request_ref L F url origin = Inr req \<Longrightarrow> fresh_request req"
  by (auto simp: Request_ref_def ParseUrl_def fresh_request_def Request_empty_def url_is_valid_def Let_def and_then_eq_Inr
      split: if_splits)

lemma ProcessInputField_ok:
  "filter_ok L s \<Longrightarrow> ProcessInputField F e s = Inr s' \<Longrightarrow> filter_ok L s'"
  by (auto simp: ProcessInputField_def AddRequestParameter_def filter_ok_def and_then_eq_Inr Let_def
      split: option.splits if_splits)

lemma ParseFormFieldRecursive_ok:
  "ParseFormFieldRecursive F e s = Inr s' \<Longrightarrow> filter_ok L s \<Longrightarrow> filter_ok L s'"
  "parse_form_children F nodes s = Inr s' \<Longrightarrow> filter_ok L s \<Longrightarrow> filter_ok L s'"
proof (induction F e s and F nodes s arbitrary: s' and s' rule: ParseFormFieldRecursive_parse_form_children.induct)
  case (3 F e nodes s)
  from "3.prems"(1) obtain s1 s2 where
      s1: "(if el_tag e = GUMBO_TAG_INPUT \<or> el_tag e = GUMBO_TAG_TEXTAREA \<or> el_tag e = GUMBO_TAG_SELECT
        then ProcessInputField F e s else Inr s) = Inr s1"
      and s2: "(if el_children e \<noteq> [] then ParseFormFieldRecursive F e s1 else Inr s1) = Inr s2"
      and s': "parse_form_children F nodes s2 = Inr s'"
    by (auto simp: and_then_eq_Inr)
  have "filter_ok L s1" using s1 "3.prems"(2) ProcessInputField_ok [of L s F e] by (auto split: if_splits)
  then have "filter_ok L s2" using s2 "3.IH"(1) by (auto split: if_splits)
  then show ?case using "3.IH"(2) [OF s'] by simp
qed auto

lemma AnalyzeCurrentForm_ok: "AnalyzeCurrentForm req s = Inr s' \<Longrightarrow> filter_ok L s \<Longrightarrow> filter_ok L s'"
  by (auto simp: AnalyzeCurrentForm_def Let_def and_then_eq_Inr add_issue_ok split: option.splits if_splits)

lemma finish_form_ok: "filter_ok L s \<Longrightarrow> filter_ok L (finish_form s)"
  by (auto simp: filter_ok_def finish_form_def split: option.splits)

lemma start_form_ok: "filter_ok L s \<Longrightarrow> fresh_request req \<Longrightarrow> filter_ok L (start_form L node req s)"
  by (simp add: filter_ok_def start_form_def)

text \<open>The run of the form filter on a form, cut at its three calls.\<close>

lemma form_ParseElement_cut:
  assumes "form_ParseElement L F req e s = Inr s'"
  obtains "s' = s"
  | r s2 s3 where "fresh_request r"
      "(if el_children e \<noteq> [] then ParseFormFieldRecursive F e (start_form L e r s)
        else Inr (start_form L e r s)) = Inr s2"
      "AnalyzeCurrentForm req s2 = Inr s3" "s' = finish_form s3"
proof (cases "el_tag e = GUMBO_TAG_FORM \<and> GetAttribute L (el_attributes e) kAction \<noteq> None")
  case True
  then obtain y where "GetAttribute L (el_attributes e) kAction = Some y" by auto
  then obtain r s2 s3 where "Request_ref L F (UnescapeHtml (at_value y)) (Some req) = Inr r"
      "(if el_children e \<noteq> [] then ParseFormFieldRecursive F e (start_form L e r s)
        else Inr (start_form L e r s)) = Inr s2"
      "AnalyzeCurrentForm req s2 = Inr s3" "Inr (finish_form s3) = (Inr s' :: filter_state result)"
    using assms True unfolding form_ParseElement_def Let_def by (simp add: and_then_eq_Inr) blast
  then show ?thesis by (intro that(2) [of r s2 s3]) (simp_all add: fresh_Request_ref)
qed (use assms that(1) in \<open>auto simp: form_ParseElement_def split: if_splits option.splits\<close>)

lemma form_ParseElement_ok:
  assumes "filter_ok L s" "form_ParseElement L F req e s = Inr s'"
  shows "filter_ok L s'"
  using assms(2)
proof (cases rule: form_ParseElement_cut)
  case (2 r s2 s3)
  then have "filter_ok L s2"
    using start_form_ok [OF assms(1) 2(1), of e] ParseFormFieldRecursive_ok(1) by (auto split: if_splits)
  then show ?thesis using 2 by (auto intro: finish_form_ok AnalyzeCurrentForm_ok)
qed (simp add: assms(1))

interpretation form_filter: filter_contract "GumboFormFilter L F req" "filter_ok L" for L F req
  by unfold_locales (auto simp: GumboFormFilter_def form_ParseElement_ok)

interpretation fingerprint_filter: filter_contract "GumboFingerprintFilter L" "filter_ok L" for L
  by unfold_locales (auto simp: GumboFingerprintFilter_def filter_ok_def)

section \<open>What the filters leave alone\<close>

lemma frame_fingerprint [simp, frame_simps]:
  "fs_fingerprint (AddAnchor_state L a s) = fs_fingerprint s"
  "fs_fingerprint (snd (scrape_script L c s)) = fs_fingerprint s"
  "fs_fingerprint (add_issue t sev req_id body off extra s) = fs_fingerprint s"
  by (simp_all add: AddAnchor_state_def scrape_script_def add_issue_def split_beta Let_def)

lemma fold_fingerprint:
  "(\<And>x s. fs_fingerprint (f x s) = fs_fingerprint s) \<Longrightarrow> fs_fingerprint (fold f xs s) = fs_fingerprint s"
  by (induction xs arbitrary: s) auto

lemma frame_fingerprint_sets [simp, frame_simps]:
  "fs_fingerprint (AddAnchorsSet L xs s) = fs_fingerprint s"
  "fs_fingerprint (AddAnchorsSetHtmlUnescaped L xs s) = fs_fingerprint s"
  by (simp_all add: AddAnchorsSet_def AddAnchorsSetHtmlUnescaped_def fold_fingerprint)

lemma frame_parse_attribute [simp, frame_simps]:
  "fs_fingerprint (parse_attribute L attr s) = fs_fingerprint s"
  by (simp add: parse_attribute_def split_beta Let_def)

interpretation url_frame: filter_contract "GumboUrlFilter L" "\<lambda>s. fs_fingerprint s = fp" for L fp
  by unfold_locales
    (auto simp: GumboUrlFilter_def url_ParseElement_def url_ParseComment_def url_ParseText_def scrape_text_def ParseMeta_def
      fold_fingerprint and_then_eq_Inr Let_def split_beta split: if_splits option.splits)

interpretation xss_frame: filter_contract "GumboXssFilter L req" "\<lambda>s. fs_fingerprint s = fp" for L req fp
  by unfold_locales
    (auto simp: GumboXssFilter_def xss_ParseElement_def and_then_eq_Inr split: if_splits option.splits)

text \<open>Reading the fields of a form: no issue, and a token found stays found.\<close>

definition form_read :: "filter_state \<Rightarrow> filter_state \<Rightarrow> bool" where
  "form_read s s' \<longleftrightarrow> fs_fingerprint s' = fs_fingerprint s \<and> fs_issues s' = fs_issues s \<and>
     fs_requests s' = fs_requests s \<and> (fs_form_has_xsrf_token s \<longrightarrow> fs_form_has_xsrf_token s')"

lemma form_read_refl [simp]: "form_read s s"
  by (simp add: form_read_def)

lemma form_read_trans: "form_read s1 s2 \<Longrightarrow> form_read s2 s3 \<Longrightarrow> form_read s1 s3"
  by (simp add: form_read_def)

lemma ProcessInputField_read: "ProcessInputField F e s = Inr s' \<Longrightarrow> form_read s s'"
  by (auto simp: ProcessInputField_def AddRequestParameter_def form_read_def and_then_eq_Inr Let_def
      split: option.splits if_splits)

lemma form_fields_read:
  "ParseFormFieldRecursive F e s = Inr s' \<Longrightarrow> form_read s s'"
  "parse_form_children F nodes s = Inr s' \<Longrightarrow> form_read s s'"
proof (induction F e s and F nodes s arbitrary: s' and s' rule: ParseFormFieldRecursive_parse_form_children.induct)
  case (3 F e nodes s)
  from "3.prems" obtain s1 s2 where
      s1: "(if el_tag e = GUMBO_TAG_INPUT \<or> el_tag e = GUMBO_TAG_TEXTAREA \<or> el_tag e = GUMBO_TAG_SELECT
        then ProcessInputField F e s else Inr s) = Inr s1"
      and s2: "(if el_children e \<noteq> [] then ParseFormFieldRecursive F e s1 else Inr s1) = Inr s2"
      and s': "parse_form_children F nodes s2 = Inr s'"
    by (auto simp: and_then_eq_Inr)
  have "form_read s s1" using s1 ProcessInputField_read [of F e s] by (auto split: if_splits)
  moreover have "form_read s1 s2" using s2 "3.IH"(1) by (auto split: if_splits)
  moreover have "form_read s2 s'" using "3.IH"(2) [OF s'] by simp
  ultimately show ?case using form_read_trans by blast
qed auto

definition no_xsrf :: "issue_details list \<Rightarrow> nat" where
  "no_xsrf issues = length (filter (\<lambda>i. is_type i = Some XSRF_PASSIVE) issues)"

lemma issues_add_issue [simp]:
  "no_xsrf (fs_issues (add_issue t sev req_id body off extra s)) =
     (if t = XSRF_PASSIVE then Suc (no_xsrf (fs_issues s)) else no_xsrf (fs_issues s))"
  "fs_requests (add_issue t sev req_id body off extra s) = fs_requests s"
  "fs_current_request (add_issue t sev req_id body off extra s) = fs_current_request s"
  by (auto simp: no_xsrf_def add_issue_def UpdateIssueVectorWithSnippet_def Let_def split: option.splits)

lemma AnalyzeCurrentForm_frame:
  "AnalyzeCurrentForm req s = Inr s' \<Longrightarrow> fs_fingerprint s' = fs_fingerprint s \<and>
     (fs_form_has_xsrf_token s \<longrightarrow> no_xsrf (fs_issues s') = no_xsrf (fs_issues s))"
  by (auto simp: AnalyzeCurrentForm_def Let_def and_then_eq_Inr split: option.splits if_splits)

lemma form_ParseElement_frame:
  assumes "form_ParseElement L F req e s = Inr s'"
  shows "fs_fingerprint s' = fs_fingerprint s"
    and "fs_form_has_xsrf_token s \<Longrightarrow> no_xsrf (fs_issues s') = no_xsrf (fs_issues s)"
proof -
  have "fs_fingerprint s' = fs_fingerprint s \<and>
      (fs_form_has_xsrf_token s \<longrightarrow> no_xsrf (fs_issues s') = no_xsrf (fs_issues s))"
    using assms
  proof (cases rule: form_ParseElement_cut)
    case (2 r s2 s3)
    then have "form_read (start_form L e r s) s2" using form_fields_read(1) by (auto split: if_splits)
    then show ?thesis using AnalyzeCurrentForm_frame [OF 2(3)] 2(4)
      by (auto simp: form_read_def start_form_def finish_form_def)
  qed simp
  then show "fs_fingerprint s' = fs_fingerprint s"
    and "fs_form_has_xsrf_token s \<Longrightarrow> no_xsrf (fs_issues s') = no_xsrf (fs_issues s)" by simp_all
qed

interpretation form_frame: filter_contract "GumboFormFilter L F req" "\<lambda>s. fs_fingerprint s = fp" for L F req fp
  by unfold_locales (auto simp: GumboFormFilter_def form_ParseElement_frame(1))

section \<open>The fingerprint of a document\<close>

fun document_words :: "externals \<Rightarrow> gumbo_node \<Rightarrow> string list"
  and children_words :: "externals \<Rightarrow> gumbo_node list \<Rightarrow> string list" where
  "document_words L (GUMBO_NODE_ELEMENT (GumboElement tag ot attrs children offset line)) =
     element_words (GumboElement tag ot attrs children offset line) @ children_words L children"
| "document_words L (GUMBO_NODE_TEXT t) = text_words L t"
| "document_words L node = []"
| "children_words L [] = []"
| "children_words L (node # nodes) = document_words L node @ children_words L nodes"

lemma for_each_append: "for_each f (xs @ ys) s = and_then (for_each f xs s) (for_each f ys)"
  by (induction xs arbitrary: s) (auto simp: and_then_def split: sum.splits)

lemma walk_fingerprint:
  assumes "\<forall>flt \<in> set others. \<forall>fp. filter_contract flt (\<lambda>s. fs_fingerprint s = fp)"
    and "filters = others @ [GumboFingerprintFilter L]"
  shows "FilterDocumentNode filters node s = Inr s' \<Longrightarrow>
      fs_fingerprint s' = fold AddWord (document_words L node) (fs_fingerprint s)"
    and "filter_children filters nodes s = Inr s' \<Longrightarrow>
      fs_fingerprint s' = fold AddWord (children_words L nodes) (fs_fingerprint s)"
proof -
  have others: "fs_fingerprint s1 = fs_fingerprint s"
    if "for_each (run_filter node) others s = Inr s1" for node s s1
    using filters_inv [of others "\<lambda>x. fs_fingerprint x = fs_fingerprint s", OF _ that] assms(1) by simp
  have one: "fs_fingerprint s' = fold AddWord (case node of GUMBO_NODE_ELEMENT e \<Rightarrow> element_words e
        | GUMBO_NODE_TEXT t \<Rightarrow> text_words L t | _ \<Rightarrow> []) (fs_fingerprint s)"
    if run: "for_each (run_filter node) filters s = Inr s'" for node s s'
  proof -
    obtain s1 where "for_each (run_filter node) others s = Inr s1"
        "run_filter node (GumboFingerprintFilter L) s1 = Inr s'"
      using run by (auto simp: assms(2) for_each_append and_then_eq_Inr)
    with others [of node s s1] show ?thesis
      by (cases node) (auto simp: run_filter_def GumboFingerprintFilter_def)
  qed
  have ne: "filters \<noteq> []" using assms(2) by simp
  show "FilterDocumentNode filters node s = Inr s' \<Longrightarrow>
      fs_fingerprint s' = fold AddWord (document_words L node) (fs_fingerprint s)"
    and "filter_children filters nodes s = Inr s' \<Longrightarrow>
      fs_fingerprint s' = fold AddWord (children_words L nodes) (fs_fingerprint s)"
    using one ne
    by (induction filters node s and filters nodes s arbitrary: s' and s'
        rule: FilterDocumentNode_filter_children.induct) (auto simp: and_then_eq_Inr)
qed

section \<open>What the form filter finds\<close>

text \<open>The input elements below a form, in document order, and the value of their first attribute of a name.\<close>

fun form_inputs :: "gumbo_node list \<Rightarrow> gumbo_element list" where
  "form_inputs [] = []"
| "form_inputs (GUMBO_NODE_ELEMENT (GumboElement tag ot attrs children offset line) # nodes) =
     (if tag \<in> {GUMBO_TAG_INPUT, GUMBO_TAG_TEXTAREA, GUMBO_TAG_SELECT}
      then [GumboElement tag ot attrs children offset line] else []) @ form_inputs children @ form_inputs nodes"
| "form_inputs (node # nodes) = form_inputs nodes"

definition attr :: "string \<Rightarrow> gumbo_element \<Rightarrow> string option" where
  "attr name e = map_option at_value (find (\<lambda>a. at_name a = name) (el_attributes e))"

definition input_param :: "gumbo_element \<Rightarrow> (string \<times> string) list" where
  "input_param e = (case attr ''name'' e of None \<Rightarrow> [] | Some n \<Rightarrow> [(n, value_or [] (attr ''value'' e))])"

definition input_of_type :: "string \<Rightarrow> gumbo_element \<Rightarrow> bool" where
  "input_of_type t e \<longleftrightarrow> attr ''name'' e \<noteq> None \<and>
     (case attr ''type'' e of None \<Rightarrow> False | Some t' \<Rightarrow> strcasecmp_eq t' t)"

definition has_password :: "gumbo_node list \<Rightarrow> bool" where
  "has_password nodes \<longleftrightarrow> (\<exists>e \<in> set (form_inputs nodes). input_of_type ''password'' e)"

definition has_token :: "gumbo_node list \<Rightarrow> bool" where
  "has_token nodes \<longleftrightarrow> (\<exists>e \<in> set (form_inputs nodes). input_of_type ''hidden'' e \<and>
     IsPotentialXSRFToken (value_or [] (attr ''value'' e)))"

text \<open>The request of a form: its target with the named inputs as new parameters.\<close>

definition with_params :: "flags \<Rightarrow> bool \<Rightarrow> (string \<times> string) list \<Rightarrow> request \<Rightarrow> request" where
  "with_params F post params req = fold (\<lambda>(n, v) r. snd
     (if post then SetPostParameter n v False r else SetGetParameter F n v False r)) params req"

definition posts :: "externals \<Rightarrow> gumbo_element \<Rightarrow> bool" where
  "posts L form \<longleftrightarrow> (case GetAttribute L (el_attributes form) ''method'' of
     None \<Rightarrow> True | Some a \<Rightarrow> \<not> strcasecmp_eq (at_value a) ''GET'')"

definition form_request :: "externals \<Rightarrow> flags \<Rightarrow> gumbo_element \<Rightarrow> request \<Rightarrow> request" where
  "form_request L F form = with_params F (posts L form) (concat (map input_param (form_inputs (el_children form))))"

text \<open>An issue of a form, with every field the filter sets.\<close>

definition form_issue :: "issue_type \<Rightarrow> severity \<Rightarrow> string \<Rightarrow> request \<Rightarrow> string \<Rightarrow> gumbo_element \<Rightarrow> issue_details" where
  "form_issue t sev info page shown form = empty_issue\<lparr>is_severity := Some sev, is_type := Some t,
     is_extra_info := Some info, is_request_id := Some (rq_id page),
     is_response_body_offset := Some (el_start_offset form),
     is_response_snippet := snippet shown (el_start_offset form)\<rparr>"

lemma FillAttributeMap_attr: "map_of (FillAttributeMap e) name = attr name e"
  by (simp add: FillAttributeMap_lookup attr_def)

lemma omap_get_attr: "omap_get [] name (FillAttributeMap e) = value_or [] (attr name e)"
  by (simp add: omap_get_def FillAttributeMap_attr split: option.split)

lemma with_params_append:
  "with_params F post (xs @ ys) req = with_params F post ys (with_params F post xs req)"
  by (simp add: with_params_def)

lemma with_params_ssl: "req_ssl (rq_proto (with_params F post params req)) = req_ssl (rq_proto req)"
proof (induction params arbitrary: req)
  case (Cons p params)
  have "req_ssl (rq_proto (with_params F post [p] r)) = req_ssl (rq_proto r)" for r
    by (cases p) (simp add: with_params_def SetPostParameter_def SetGetParameter_def Let_def split_beta)
  then show ?case using Cons with_params_append [of F post "[p]" params req] by simp
qed (simp add: with_params_def)

text \<open>What reading some inputs does to the state.\<close>

definition inputs_read :: "flags \<Rightarrow> gumbo_element list \<Rightarrow> request \<Rightarrow> filter_state \<Rightarrow> filter_state" where
  "inputs_read F es req s = s\<lparr>
     fs_current_request := Some (with_params F (fs_form_is_post s) (concat (map input_param es)) req),
     fs_form_has_password := (fs_form_has_password s \<or> (\<exists>e \<in> set es. input_of_type ''password'' e)),
     fs_form_has_xsrf_token := (fs_form_has_xsrf_token s \<or> (\<exists>e \<in> set es. input_of_type ''hidden'' e \<and>
       IsPotentialXSRFToken (value_or [] (attr ''value'' e))))\<rparr>"

lemma inputs_read_append:
  "inputs_read F ys (with_params F (fs_form_is_post s) (concat (map input_param xs)) req) (inputs_read F xs req s) =
     inputs_read F (xs @ ys) req s"
  by (cases s) (auto simp: inputs_read_def with_params_append)

lemma inputs_read_current:
  "fs_current_request (inputs_read F es req s) =
     Some (with_params F (fs_form_is_post s) (concat (map input_param es)) req)"
  "fs_form_is_post (inputs_read F es req s) = fs_form_is_post s"
  by (simp_all add: inputs_read_def)

lemma ProcessInputField_reads:
  assumes "fs_current_request s = Some req"
  shows "ProcessInputField F e s = Inr (inputs_read F [e] req s)"
  using assms
  by (cases s) (auto simp: ProcessInputField_def AddRequestParameter_def FillAttributeMap_attr omap_get_attr kName_def
      kValue_def kType_def kPasswordFieldType_def kHiddenFieldType_def inputs_read_def input_param_def input_of_type_def
      with_params_def and_then_def Let_def split: option.splits)

lemma form_inputs_children:
  "fs_current_request s = Some req \<Longrightarrow> ParseFormFieldRecursive F e s = Inr (inputs_read F (form_inputs (el_children e)) req s)"
  "fs_current_request s = Some req \<Longrightarrow> parse_form_children F nodes s = Inr (inputs_read F (form_inputs nodes) req s)"
proof (induction F e s and F nodes s arbitrary: req and req
    rule: ParseFormFieldRecursive_parse_form_children.induct)
  case (2 F s req)
  then show ?case by (cases s) (simp add: inputs_read_def with_params_def)
next
  case (3 F e nodes s req)
  obtain tag ot attrs children offset line where e: "e = GumboElement tag ot attrs children offset line" by (cases e)
  define own where "own = (if tag \<in> {GUMBO_TAG_INPUT, GUMBO_TAG_TEXTAREA, GUMBO_TAG_SELECT} then [e] else [])"
  let ?req = "\<lambda>es. with_params F (fs_form_is_post s) (concat (map input_param es)) req"
  let ?s = "\<lambda>es. inputs_read F es req s"
  have none_read: "inputs_read F [] req s = s"
    using "3.prems" by (cases s) (simp add: inputs_read_def with_params_def)
  have own_read: "(if el_tag e = GUMBO_TAG_INPUT \<or> el_tag e = GUMBO_TAG_TEXTAREA \<or> el_tag e = GUMBO_TAG_SELECT
        then ProcessInputField F e s else Inr s) = Inr (?s own)"
    using ProcessInputField_reads [OF "3.prems", of F e] by (simp add: own_def e none_read)
  have below: "(if el_children e \<noteq> [] then ParseFormFieldRecursive F e (?s own) else Inr (?s own)) =
      Inr (?s (own @ form_inputs children))"
  proof (cases "children = []")
    case False
    then show ?thesis using "3.IH"(1) [of "?s own" "?req own"] own_read inputs_read_append [of F "form_inputs children" s own req]
      by (simp add: e inputs_read_current)
  qed (simp add: e)
  have rest: "parse_form_children F nodes (?s (own @ form_inputs children)) =
      Inr (?s ((own @ form_inputs children) @ form_inputs nodes))"
    using "3.IH"(2) [of "?s (own @ form_inputs children)" "?req (own @ form_inputs children)"]
      inputs_read_append [of F "form_inputs nodes" s "own @ form_inputs children" req]
    by (simp add: inputs_read_current)
  have "form_inputs (GUMBO_NODE_ELEMENT e # nodes) = (own @ form_inputs children) @ form_inputs nodes"
    by (simp add: own_def e)
  then show ?case using own_read below rest by (simp add: and_then_def)
qed auto

lemma AnalyzeCurrentForm_issues:
  assumes "fs_current_request s = Some req" "rq_response base = Some r" "fs_form_offset s = el_start_offset form"
  shows "AnalyzeCurrentForm base s = Inr (s\<lparr>fs_issues := fs_issues s @
     (if fs_form_has_password s \<and> \<not> req_ssl (rq_proto req) then
        [form_issue PLAINTEXT_LOGIN_FORM_TARGET HIGH (''Form target: '' @ rq_url req) base (rq_raw_response base) form] else []) @
     (if fs_form_has_password s \<and> \<not> req_ssl (rq_proto base) then
        [form_issue PLAINTEXT_LOGIN_FORM HIGH [] base (resp_body (rs_http_response r)) form] else []) @
     (if \<not> fs_form_has_xsrf_token s then
        [form_issue XSRF_PASSIVE MODERATE [] base (resp_body (rs_http_response r)) form] else [])\<rparr>)"
  using assms by (simp add: AnalyzeCurrentForm_def response_body_def add_issue_def UpdateIssueVectorWithSnippet_def
      form_issue_def and_then_def Let_def)

section \<open>Properties\<close>


text \<open>A login form with a hidden field that is no token, in a division.\<close>

definition login_form :: gumbo_element where
  "login_form = GumboElement GUMBO_TAG_FORM None
     [\<lparr>at_name = ''action'', at_value = ''http://h/p''\<rparr>, \<lparr>at_name = ''method'', at_value = ''get''\<rparr>]
     [GUMBO_NODE_ELEMENT (GumboElement (GUMBO_TAG_OTHER 1) None []
        [GUMBO_NODE_ELEMENT (GumboElement GUMBO_TAG_INPUT None
          [\<lparr>at_name = ''name'', at_value = ''pw''\<rparr>, \<lparr>at_name = ''type'', at_value = ''Password''\<rparr>] [] 20 1),
         GUMBO_NODE_ELEMENT (GumboElement GUMBO_TAG_INPUT None
          [\<lparr>at_name = ''name'', at_value = ''k''\<rparr>, \<lparr>at_name = ''type'', at_value = ''hidden''\<rparr>,
           \<lparr>at_name = ''value'', at_value = ''home''\<rparr>] [] 40 1)] 10 1)] 3 1"

definition login_page :: request where
  "login_page = Request_empty\<lparr>rq_response := Some Response\<rparr>"


text \<open>
  once a form of the document had a token, no later form is reported for the lack of one,
  whatever its fields: the flag is not reset at the start of a form.
\<close>

theorem form_token_kept:
  assumes "fs_form_has_xsrf_token s" "form_ParseElement L F base_request node s = Inr s'"
  shows "length (filter (\<lambda>i. is_type i = Some XSRF_PASSIVE) (fs_issues s')) =
     length (filter (\<lambda>i. is_type i = Some XSRF_PASSIVE) (fs_issues s))"
  using form_ParseElement_frame(2) [OF assms(2,1)] by (simp add: no_xsrf_def)

definition sample_form :: gumbo_element where
  "sample_form = GumboElement GUMBO_TAG_FORM None [\<lparr>at_name = ''action'', at_value = ''http://h/p''\<rparr>] [] 0 1"

theorem form_token_kept_witness:
  "\<exists>s'. form_ParseElement simple_lib default_flags (Request_empty\<lparr>rq_response := Some Response\<rparr>) sample_form
       ((new_filter_state [] [] [])\<lparr>fs_form_has_xsrf_token := True\<rparr>) = Inr s' \<and> length (fs_requests s') = 1 \<and>
     length (filter (\<lambda>i. is_type i = Some XSRF_PASSIVE) (fs_issues s')) = 0"
proof -
  let ?s = "(new_filter_state [] [] [])\<lparr>fs_form_has_xsrf_token := True\<rparr>"
  let ?r = "form_ParseElement simple_lib default_flags (Request_empty\<lparr>rq_response := Some Response\<rparr>) sample_form ?s"
  have "map_sum id (\<lambda>s. length (fs_requests s)) ?r = Inr 1" by code_simp
  then obtain s' where "?r = Inr s'" "length (fs_requests s') = 1" by (cases ?r) auto
  then show ?thesis using form_token_kept [of ?s _ _ _ _ s'] by (simp add: new_filter_state_def)
qed

end
