(* ===== verification/Html_Scraper.thy ===== *)
theory Html_Scraper
  imports Gumbo_Filters
begin

text \<open>
  \<open>src/parsers/html_scraper.{h,cc}\<close>: the scraper that runs the four filters over a document,
  and the fingerprint-only walk that \<open>not_found_detector.cc\<close> and \<open>hidden_objects_finder.cc\<close> make
  of a response body.
\<close>

record html_scraper =
  hs_anchors :: "string list"
  hs_requests :: "request list"
  hs_issues :: "issue_details list"
  hs_fingerprint :: "html_fingerprint option"

definition HtmlScraper :: html_scraper where
  "HtmlScraper = \<lparr>hs_anchors = [], hs_requests = [], hs_issues = [], hs_fingerprint = None\<rparr>"

definition scraper_filters :: "externals \<Rightarrow> flags \<Rightarrow> request \<Rightarrow> filter_state gumbo_filter list" where
  "scraper_filters L F req =
     [GumboUrlFilter L, GumboXssFilter L req, GumboFormFilter L F req, GumboFingerprintFilter L]"

text \<open>The fingerprint is with its filter until the end, so a failed parse leaves none.\<close>

definition scraper_Parse ::
    "externals \<Rightarrow> flags \<Rightarrow> request \<Rightarrow> string \<Rightarrow> html_scraper \<Rightarrow> (bool \<times> html_scraper) result" where
  "scraper_Parse L F req html_content hs =
     (let p = gumbo_Parse L html_content GumboParser in
      if p = None then Inr (False, hs\<lparr>hs_fingerprint := None\<rparr>)
      else
        and_then
          (FilterDocument (scraper_filters L F req) p
            (new_filter_state (hs_anchors hs) (hs_issues hs) (hs_requests hs)))
          (\<lambda>s. Inr (True, hs\<lparr>hs_anchors := fs_anchors s, hs_issues := fs_issues s,
             hs_requests := fs_requests s, hs_fingerprint := Some (fs_fingerprint s)\<rparr>)))"

definition body_fingerprint :: "externals \<Rightarrow> string \<Rightarrow> html_fingerprint option result" where
  "body_fingerprint L body =
     (let p = gumbo_Parse L body GumboParser in
      if p = None then Inr None
      else and_then (FilterDocument [GumboFingerprintFilter L] p (new_filter_state [] [] []))
        (\<lambda>s. Inr (Some (fs_fingerprint s))))"

section \<open>Lemmas\<close>

lemma scraper_filters_ok: "\<forall>flt \<in> set (scraper_filters L F req). filter_contract flt (filter_ok L)"
  by (simp add: scraper_filters_def url_filter.filter_contract_axioms xss_filter.filter_contract_axioms
      form_filter.filter_contract_axioms fingerprint_filter.filter_contract_axioms)

lemma scraper_filters_frame:
  "\<forall>flt \<in> set [GumboUrlFilter L, GumboXssFilter L req, GumboFormFilter L F req]. \<forall>fp.
     filter_contract flt (\<lambda>s. fs_fingerprint s = fp)"
  by (simp add: url_frame.filter_contract_axioms xss_frame.filter_contract_axioms
      form_frame.filter_contract_axioms)

lemma fingerprint_walk_total:
  "\<exists>s'. FilterDocumentNode [GumboFingerprintFilter L] node s = Inr s'"
  "\<exists>s'. filter_children [GumboFingerprintFilter L] nodes s = Inr s'"
proof (induction "[GumboFingerprintFilter L]" node s and "[GumboFingerprintFilter L]" nodes s
    rule: FilterDocumentNode_filter_children.induct)
qed (fastforce simp: run_filter_def GumboFingerprintFilter_def)+

lemma body_fingerprint_words:
  "body_fingerprint L body = Inr (map_option
     (\<lambda>root. fold AddWord (document_words L (GUMBO_NODE_ELEMENT root)) HtmlFingerprint)
     (gumbo_parse L (c_str body)))"
proof (cases "gumbo_parse L (c_str body)")
  case (Some root)
  obtain s' where s': "FilterDocumentNode [GumboFingerprintFilter L] (GUMBO_NODE_ELEMENT root)
      (new_filter_state [] [] []) = Inr s'" using fingerprint_walk_total(1) by blast
  have "fs_fingerprint s' = fold AddWord (document_words L (GUMBO_NODE_ELEMENT root)) HtmlFingerprint"
    using walk_fingerprint(1) [of "[]" "[GumboFingerprintFilter L]", OF _ _ s']
    by (simp add: new_filter_state_def)
  then show ?thesis using Some s' by (simp add: body_fingerprint_def gumbo_Parse_def FilterDocument_def)
qed (simp add: body_fingerprint_def gumbo_Parse_def)

lemma scraper_Parse_fingerprint:
  assumes "scraper_Parse L F req content hs = Inr (ok, hs')"
  shows "body_fingerprint L content = Inr (hs_fingerprint hs')"
proof (cases "gumbo_parse L (c_str content)")
  case None
  then show ?thesis using assms by (auto simp: scraper_Parse_def body_fingerprint_def gumbo_Parse_def)
next
  case (Some root)
  then obtain s where s: "FilterDocumentNode (scraper_filters L F req) (GUMBO_NODE_ELEMENT root)
      (new_filter_state (hs_anchors hs) (hs_issues hs) (hs_requests hs)) = Inr s"
      and hs': "hs_fingerprint hs' = Some (fs_fingerprint s)"
    using assms by (auto simp: scraper_Parse_def gumbo_Parse_def FilterDocument_def and_then_eq_Inr)
  have "fs_fingerprint s = fold AddWord (document_words L (GUMBO_NODE_ELEMENT root)) HtmlFingerprint"
    using walk_fingerprint(1) [OF scraper_filters_frame _ s]
    by (simp add: scraper_filters_def new_filter_state_def)
  then show ?thesis using hs' Some by (simp add: body_fingerprint_words)
qed

lemma scraper_Parse_ok:
  assumes "scraper_Parse L F req content HtmlScraper = Inr (True, hs)"
  shows "anchors_ok L (hs_anchors hs) \<and> list_all scraped_issue (hs_issues hs) \<and>
     list_all fresh_request (hs_requests hs)"
proof -
  obtain s where "FilterDocument (scraper_filters L F req) (gumbo_Parse L content GumboParser)
      (new_filter_state [] [] []) = Inr s"
      and hs: "hs_anchors hs = fs_anchors s" "hs_issues hs = fs_issues s" "hs_requests hs = fs_requests s"
    using assms by (auto simp: scraper_Parse_def HtmlScraper_def Let_def and_then_eq_Inr split: if_splits)
  from FilterDocument_inv [OF scraper_filters_ok this(1)] have "filter_ok L s"
    by (simp add: filter_ok_def new_filter_state_def anchors_ok_def)
  then show ?thesis using hs by (simp add: filter_ok_def)
qed

section \<open>Properties\<close>

definition sample_page :: gumbo_element where
  "sample_page = GumboElement (GUMBO_TAG_OTHER 1) (Some ''<html><a href=/x>'') []
     [GUMBO_NODE_ELEMENT (GumboElement (GUMBO_TAG_OTHER 2) (Some ''<a href=/x>'')
        [\<lparr>at_name = ''href'', at_value = ''/x''\<rparr>]
        [GUMBO_NODE_TEXT \<lparr>tx_text = ''link text'', tx_original_text = ''link text''\<rparr>] 6 1)] 0 1"

definition page_lib :: externals where
  "page_lib = simple_lib\<lparr>gumbo_parse := (\<lambda>s. Some sample_page)\<rparr>"



text \<open>
  C19: the fingerprint the scraper stores for a crawled page is the one the 404 detector and the
  hidden objects finder compute for the same body (it exists exactly when the body parses), so
  comparing the two compares the pages.
\<close>

theorem fingerprints_agree:
  assumes "scraper_Parse L F req content hs = Inr (ok, hs')"
  shows "body_fingerprint L content = Inr (hs_fingerprint hs') \<and> (ok \<longleftrightarrow> hs_fingerprint hs' \<noteq> None)"
proof -
  have "ok \<longleftrightarrow> gumbo_parse L (c_str content) \<noteq> None"
    using assms by (auto simp: scraper_Parse_def gumbo_Parse_def Let_def and_then_eq_Inr split: if_splits)
  then show ?thesis using scraper_Parse_fingerprint [OF assms, symmetric]
    by (cases "gumbo_parse L (c_str content)") (auto simp: body_fingerprint_words)
qed

theorem fingerprints_agree_witness:
  "\<exists>hs. scraper_Parse page_lib default_flags Request_empty [] HtmlScraper = Inr (True, hs) \<and>
     body_fingerprint page_lib [] = Inr (hs_fingerprint hs) \<and> hs_fingerprint hs \<noteq> None"
proof -
  let ?r = "scraper_Parse page_lib default_flags Request_empty [] HtmlScraper"
  have "map_sum id fst ?r = Inr True" by code_simp
  then obtain hs where r: "?r = Inr (True, hs)" by (cases ?r) auto
  then show ?thesis using fingerprints_agree [OF r] by auto
qed

end
