(* ===== verification/Http_Client.thy ===== *)
theory Http_Client
  imports Rate_Limiter Request
begin

text \<open>
  \<open>src/curl_http_client.{h,cc}\<close>, \<open>src/util/curl_util.h\<close> and what they use of
  \<open>src/curl.{h,cc}\<close>, a one-to-one wrapper of libcurl. The client queues pointers to requests
  other components own; a pointer names its owner and the object (\<open>req_ref\<close>: the id of a stored
  request, the number the detector or the finder gave it, a runner and an index), and following
  one whose object is no longer there is a fault. libcurl is a parameter: the outcome of its calls while one
  request is started (\<open>start_env\<close>).
\<close>

datatype req_ref =
    StoredRequest int
  | ProbeRequest nat
  | HiddenRequest nat
  | TestRequest nat nat

text \<open>
  The options set on an easy handle, with the value libcurl is given. libcurl reads string
  options as C strings; three of them are given the address of a \<open>std::string\<close> object instead.
\<close>

datatype string_object = StringObject string

datatype curl_opt =
    CURLOPT_PATH_AS_IS | CURLOPT_URL string | CURLOPT_PROXY string | CURLOPT_KEYPASSWD string_object
  | CURLOPT_SSLCERT string_object | CURLOPT_SSLKEY string_object | CURLOPT_WRITEFUNCTION
  | CURLOPT_COOKIEFILE string | CURLOPT_BUFFERSIZE int | CURLOPT_TIMEOUT int
  | CURLOPT_PROTOCOLS | CURLOPT_SHARE | CURLOPT_WRITEDATA req_ref | CURLOPT_SSL_VERIFYPEER int
  | CURLOPT_SSL_VERIFYHOST int | CURLOPT_HEADER | CURLOPT_COPYPOSTFIELDS string
  | CURLOPT_HTTPHEADER "string list" | CURLOPT_PRIVATE

record curl_handle_data =
  ch_easy_handle :: nat
  ch_header_list :: "string list"
  ch_request :: req_ref
  ch_options :: "curl_opt list"

record http_client =
  hc_enabled :: bool
  hc_curl_handle_cnt :: int
  hc_initialized :: bool
  hc_requests_performed :: nat
  hc_schedule_queue :: "req_ref list"
  hc_running_handles :: "curl_handle_data list"
  hc_default_headers :: "(string \<times> (string \<times> string) list) list"
  hc_rate_limiter :: simple_rate_limiter

text \<open>A buffer libcurl hands to the write callback of a handle.\<close>

record delivery =
  dl_easy_handle :: nat
  dl_buffer :: string
  dl_size :: nat
  dl_multiplier :: nat

record start_env =
  se_time :: int
  se_EasyInit :: "nat option"
  se_EasySetOpt :: "curl_opt \<Rightarrow> bool"
  se_AppendSlist :: "string \<Rightarrow> bool"
  se_MultiAddHandle :: bool
  se_MultiPerform :: "bool \<times> int \<times> delivery list"

definition CurlHttpClient :: "int \<Rightarrow> http_client" where
  "CurlHttpClient max_request_rate_sec =
     \<lparr>hc_enabled = False, hc_curl_handle_cnt = 0, hc_initialized = False,
      hc_requests_performed = 0, hc_schedule_queue = [], hc_running_handles = [],
      hc_default_headers = [], hc_rate_limiter = SimpleRateLimiter max_request_rate_sec\<rparr>"

text \<open>\<open>ok\<close>: multi and share handles were made, cookie sharing and the connection limit set.\<close>

definition Initialize :: "bool \<Rightarrow> http_client \<Rightarrow> bool \<times> http_client" where
  "Initialize ok c = (if ok then (True, c\<lparr>hc_enabled := True, hc_initialized := True\<rparr>) else (False, c))"

definition client_Disable :: "http_client \<Rightarrow> http_client" where
  "client_Disable c = c\<lparr>hc_enabled := False\<rparr>"

definition client_Enable :: "http_client \<Rightarrow> http_client" where
  "client_Enable c = c\<lparr>hc_enabled := True\<rparr>"

section \<open>Response data\<close>

definition size_t_max :: nat where "size_t_max = 2 ^ 64 - 1"

text \<open>
  The product of both sizes is passed on as an \<open>int\<close>; a negative length makes
  \<open>std::string::append\<close> throw.
\<close>

definition CurlCallback ::
    "flags \<Rightarrow> string \<Rightarrow> nat \<Rightarrow> nat \<Rightarrow> request \<Rightarrow> (nat \<times> request) result" where
  "CurlCallback F buffer sz multiplier req =
     (if sz = 0 then Inl DivideByZero
      else if size_t_max div sz < multiplier then Inr (0, req)
      else if (sz + length (rq_raw_response req)) mod 2 ^ 64 > size_of_int (fl_max_response_read_size F)
      then Inr (0, req)
      else
        let n = (sz * multiplier) mod 2 ^ 32 in
        if n \<ge> 2 ^ 31 then Inl LengthError
        else Inr (sz * multiplier, ResponseCb (take n buffer) req))"

section \<open>Starting requests\<close>

text \<open>The chain of \<open>EasySetOpt\<close> calls: stops at the first one that fails.\<close>

definition set_options :: "start_env \<Rightarrow> curl_opt list \<Rightarrow> curl_handle_data \<Rightarrow> curl_handle_data option" where
  "set_options e opts h =
     (if list_all (se_EasySetOpt e) opts then Some (h\<lparr>ch_options := ch_options h @ opts\<rparr>) else None)"

definition NewHandle ::
    "flags \<Rightarrow> start_env \<Rightarrow> req_ref \<Rightarrow> request \<Rightarrow> curl_handle_data option" where
  "NewHandle F e ref req =
     (case se_EasyInit e of
        None \<Rightarrow> None
      | Some eh \<Rightarrow>
          if fl_client_ssl_cert F \<noteq> [] \<and> fl_client_ssl_key F = [] then None
          else
            set_options e
              ([CURLOPT_PATH_AS_IS, CURLOPT_URL (c_str (rq_url req))] @
               (if fl_http_proxy F = [] then [] else [CURLOPT_PROXY (c_str (fl_http_proxy F))]) @
               (if fl_client_ssl_cert F = [] then []
                else
                  (if fl_client_ssl_key_password F = [] then []
                   else [CURLOPT_KEYPASSWD (StringObject (fl_client_ssl_key_password F))]) @
                  [CURLOPT_SSLCERT (StringObject (fl_client_ssl_cert F)),
                   CURLOPT_SSLKEY (StringObject (fl_client_ssl_key F))]) @
               [CURLOPT_WRITEFUNCTION, CURLOPT_COOKIEFILE (c_str (fl_cookie_file F)),
                CURLOPT_BUFFERSIZE (fl_response_buffer_size F), CURLOPT_TIMEOUT (fl_request_timeout_sec F),
                CURLOPT_PROTOCOLS, CURLOPT_SHARE, CURLOPT_WRITEDATA ref, CURLOPT_SSL_VERIFYPEER 0,
                CURLOPT_SSL_VERIFYHOST 0, CURLOPT_HEADER] @
               (if req_method (rq_proto req) = POST
                then [CURLOPT_COPYPOSTFIELDS (c_str (GetRequestBody req))] else []))
              \<lparr>ch_easy_handle = eh, ch_header_list = [], ch_request = ref, ch_options = []\<rparr>)"

definition kWildcardHostname :: string where "kWildcardHostname = ''*''"

definition domain_applies :: "string \<Rightarrow> request \<Rightarrow> bool" where
  "domain_applies domain req \<longleftrightarrow> strcmp_eq domain kWildcardHostname \<or> strcasecmp_eq (host req) domain"

definition request_header_lines :: "request \<Rightarrow> string list" where
  "request_header_lines req =
     map (\<lambda>h. c_str (field_name h @ '': '' @ field_value h)) (hr_header (rq_proto req))"

definition default_header_lines :: "request \<Rightarrow> http_client \<Rightarrow> string list" where
  "default_header_lines req c =
     concat (map (\<lambda>(domain, hs).
       if domain_applies domain req then map (\<lambda>(n, v). c_str (n @ '': '' @ v)) hs else [])
       (hc_default_headers c))"

definition SetRequestHeaders ::
    "start_env \<Rightarrow> http_client \<Rightarrow> request \<Rightarrow> curl_handle_data \<Rightarrow> curl_handle_data option" where
  "SetRequestHeaders e c req h =
     (if hr_header (rq_proto req) = [] then None
      else
        let lines = request_header_lines req @ default_header_lines req c in
        if \<not> list_all (se_AppendSlist e) lines then None
        else set_options e [CURLOPT_HTTPHEADER lines] (h\<lparr>ch_header_list := lines\<rparr>))"

text \<open>
  \<open>connection_limit * 1.2f\<close>, truncated: the float next to 1.2 is 10066330 / 8388608, and for
  limits below a million the truncated product is that of the exact quotient.
\<close>

definition max_active_handles :: "int \<Rightarrow> int" where
  "max_active_handles limit =
     (if 0 \<le> limit then (limit * 10066330) div 8388608 else - ((- limit * 10066330) div 8388608))"

text \<open>
  One iteration of the loop, after the request was taken from the queue. \<open>curl_multi_perform\<close> writes
  the number of running handles and delivers data also when it fails; the new handle is freed then.
\<close>

definition start_request ::
    "flags \<Rightarrow> start_env \<Rightarrow> req_ref \<Rightarrow> request \<Rightarrow> http_client \<Rightarrow> bool \<times> http_client \<times> delivery list" where
  "start_request F e ref req c =
     (case NewHandle F e ref req of
        None \<Rightarrow> (False, c, [])
      | Some h \<Rightarrow>
          (case SetRequestHeaders e c req h of
             None \<Rightarrow> (False, c, [])
           | Some h1 \<Rightarrow>
               (case set_options e [CURLOPT_PRIVATE] h1 of
                  None \<Rightarrow> (False, c, [])
                | Some h2 \<Rightarrow>
                    if \<not> se_MultiAddHandle e then (False, c, [])
                    else
                      (case se_MultiPerform e of
                         (False, cnt, ds) \<Rightarrow> (False, c\<lparr>hc_curl_handle_cnt := cnt\<rparr>, ds)
                       | (True, cnt, ds) \<Rightarrow>
                           (True, c\<lparr>hc_curl_handle_cnt := cnt,
                                    hc_requests_performed := hc_requests_performed c + 1,
                                    hc_running_handles := hc_running_handles c @ [h2]\<rparr>, ds)))))"

text \<open>
  The loop: \<open>k\<close> counts the iterations and picks what libcurl does in each, \<open>deref\<close> follows a
  request pointer. Returns what \<open>StartNewRequests\<close> returns, the client and the data libcurl
  delivered meanwhile.
\<close>

fun start_loop ::
    "flags \<Rightarrow> (req_ref \<Rightarrow> request option) \<Rightarrow> (nat \<Rightarrow> start_env) \<Rightarrow> nat \<Rightarrow> int \<Rightarrow> req_ref list \<Rightarrow>
     http_client \<Rightarrow> (bool \<times> http_client \<times> delivery list) result" where
  "start_loop F deref env k max_to_add [] c = Inr (True, c\<lparr>hc_schedule_queue := []\<rparr>, [])"
| "start_loop F deref env k max_to_add (ref # q) c =
     (if max_to_add \<le> 0 then Inr (True, c\<lparr>hc_schedule_queue := ref # q\<rparr>, [])
      else
        (case TakeRateSlotWithTime (se_time (env k)) (hc_rate_limiter c) of
           (False, rl) \<Rightarrow> Inr (True, c\<lparr>hc_schedule_queue := ref # q, hc_rate_limiter := rl\<rparr>, [])
         | (True, rl) \<Rightarrow>
             let c1 = c\<lparr>hc_schedule_queue := q, hc_rate_limiter := rl\<rparr> in
             (case deref ref of
                None \<Rightarrow> Inl UseAfterFree
              | Some req \<Rightarrow>
                  (case start_request F (env k) ref req c1 of
                     (False, c2, ds) \<Rightarrow> Inr (False, c2, ds)
                   | (True, c2, ds) \<Rightarrow>
                       and_then (start_loop F deref env (Suc k) (max_to_add - 1) q c2)
                         (\<lambda>(ok, c3, ds'). Inr (ok, c3, ds @ ds'))))))"

definition StartNewRequests ::
    "flags \<Rightarrow> (req_ref \<Rightarrow> request option) \<Rightarrow> (nat \<Rightarrow> start_env) \<Rightarrow> http_client \<Rightarrow>
     (bool \<times> http_client \<times> delivery list) result" where
  "StartNewRequests F deref env c =
     (if \<not> hc_enabled c then Inr (False, c, [])
      else
        let max_allowed = max_active_handles (fl_connection_limit F) in
        if hc_curl_handle_cnt c \<ge> max_allowed then Inr (True, c, [])
        else start_loop F deref env 0 (max_allowed - hc_curl_handle_cnt c) (hc_schedule_queue c) c)"

section \<open>Scheduling, headers, cleanup\<close>

definition Schedule :: "req_ref \<Rightarrow> http_client \<Rightarrow> bool \<times> http_client" where
  "Schedule ref c =
     (if \<not> hc_enabled c then (False, c)
      else (True, c\<lparr>hc_schedule_queue := hc_schedule_queue c @ [ref]\<rparr>))"

text \<open>\<open>Schedule(req, rh)\<close> writes the handler first, whether or not the request is queued.\<close>

definition Schedule_handler ::
    "req_ref \<Rightarrow> handler \<Rightarrow> request \<Rightarrow> http_client \<Rightarrow> bool \<times> request \<times> http_client" where
  "Schedule_handler ref rh req c =
     (let (ok, c') = Schedule ref c in (ok, req\<lparr>rq_handler := Some rh\<rparr>, c'))"

definition RegisterDefaultHeader ::
    "string \<Rightarrow> string \<Rightarrow> string \<Rightarrow> http_client \<Rightarrow> bool \<times> http_client" where
  "RegisterDefaultHeader domain name val c =
     (if name = [] \<or> val = [] then (False, c)
      else
        let hs = (case map_of (hc_default_headers c) domain of Some hs \<Rightarrow> hs | None \<Rightarrow> [])
        in (True, c\<lparr>hc_default_headers := hmap_put domain (hmap_put name val hs) (hc_default_headers c)\<rparr>))"

fun erase_handle :: "nat \<Rightarrow> curl_handle_data list \<Rightarrow> (bool \<times> curl_handle_data list)" where
  "erase_handle eh [] = (False, [])"
| "erase_handle eh (h # hs) =
     (if ch_easy_handle h = eh then (True, hs)
      else let (ok, hs') = erase_handle eh hs in (ok, h # hs'))"

definition CleanupCurlHandleData :: "nat \<Rightarrow> http_client \<Rightarrow> bool \<times> http_client" where
  "CleanupCurlHandleData eh c =
     (let (ok, hs) = erase_handle eh (hc_running_handles c) in (ok, c\<lparr>hc_running_handles := hs\<rparr>))"

text \<open>
  The values are the double products libcurl's times give, as converted to \<open>int64\<close>; \<open>None\<close>
  when libcurl has no times.
\<close>

definition SetRequestTimestamps :: "(int \<times> int) option \<Rightarrow> int \<Rightarrow> request \<Rightarrow> bool \<times> request" where
  "SetRequestTimestamps tms now req = (case tms of
     None \<Rightarrow> (False, req)
   | Some (application_usec, total_usec) \<Rightarrow>
       (True, req\<lparr>rq_proto := (rq_proto req)
          \<lparr>hr_client_time_application_usec := Some application_usec,
           hr_client_time_total_usec := Some total_usec,
           hr_client_completion_time_ms := Some (now * 1000)\<rparr>\<rparr>))"

section \<open>Lemmas\<close>

lemma set_options_frame:
  "set_options e opts h = Some h' \<Longrightarrow> ch_request h' = ch_request h \<and> ch_easy_handle h' = ch_easy_handle h"
  by (auto simp: set_options_def split: if_splits)

lemma start_request_result:
  assumes "start_request F e ref req c = (ok, c', ds)"
  shows "if ok
     then \<exists>h cnt. c' = c\<lparr>hc_curl_handle_cnt := cnt, hc_requests_performed := hc_requests_performed c + 1,
       hc_running_handles := hc_running_handles c @ [h]\<rparr> \<and> ch_request h = ref
     else \<exists>cnt. c' = c\<lparr>hc_curl_handle_cnt := cnt\<rparr>"
proof -
  have "c = c\<lparr>hc_curl_handle_cnt := hc_curl_handle_cnt c\<rparr>" by simp
  then have same: "\<exists>cnt. c = c\<lparr>hc_curl_handle_cnt := cnt\<rparr>" ..
  obtain performed cnt ds1 where perform: "se_MultiPerform e = (performed, cnt, ds1)" by (metis prod_cases3)
  show ?thesis
  proof (cases "ok \<and> performed")
    case True
    then show ?thesis using assms perform
      by (auto simp: start_request_def NewHandle_def SetRequestHeaders_def set_options_def Let_def
          split: option.splits if_splits)
  next
    case False
    then show ?thesis using assms perform same
      by (cases performed) (auto simp: start_request_def split: option.splits if_splits)
  qed
qed

text \<open>Why the loop stops without a failure: no request is left, no room, or the rate is used up.\<close>

definition loop_stopped :: "(nat \<Rightarrow> start_env) \<Rightarrow> nat \<Rightarrow> int \<Rightarrow> http_client \<Rightarrow> bool" where
  "loop_stopped env k room c \<longleftrightarrow> hc_schedule_queue c = [] \<or> room \<le> 0 \<or>
     (\<exists>rl. TakeRateSlotWithTime (se_time (env k)) rl = (False, hc_rate_limiter c))"

lemma start_loop_progress:
  "start_loop F deref env k n q c = Inr (ok, c', ds) \<Longrightarrow>
     \<exists>m hs. m \<le> length q \<and> hc_schedule_queue c' = drop (if ok then m else Suc m) q \<and>
       hc_running_handles c' = hc_running_handles c @ hs \<and>
       map ch_request hs = take m q \<and> (0 \<le> n \<longrightarrow> int m \<le> n) \<and> (n < 0 \<longrightarrow> m = 0) \<and>
       hc_requests_performed c' = hc_requests_performed c + m \<and> hc_enabled c' = hc_enabled c \<and>
       (ok \<longrightarrow> loop_stopped env (k + m) (n - int m) c')"
proof (induction q arbitrary: k n c ok c' ds)
  case (Cons ref q)
  obtain granted rl where rl: "TakeRateSlotWithTime (se_time (env k)) (hc_rate_limiter c) = (granted, rl)"
    by force
  let ?c1 = "c\<lparr>hc_schedule_queue := q, hc_rate_limiter := rl\<rparr>"
  show ?case
  proof (cases "n \<le> 0 \<or> \<not> granted")
    case True
    then have "ok" "hc_schedule_queue c' = ref # q" "hc_running_handles c' = hc_running_handles c"
      "hc_requests_performed c' = hc_requests_performed c" "hc_enabled c' = hc_enabled c" "loop_stopped env k n c'"
      using Cons.prems rl by (auto simp: loop_stopped_def split: if_splits)
    then show ?thesis by (intro exI [of _ 0] exI [of _ "[]"]) auto
  next
    case False
    then have n: "0 < n" and g: "granted" by auto
    then obtain req where req: "deref ref = Some req"
      using Cons.prems rl by (auto simp: Let_def split: option.splits)
    obtain started c2 ds1 where one: "start_request F (env k) ref req ?c1 = (started, c2, ds1)" by (metis prod_cases3)
    show ?thesis
    proof (cases started)
      case False
      then have "\<not> ok" "c' = c2" using Cons.prems rl n g req one by (auto simp: Let_def)
      moreover obtain cnt where "c2 = ?c1\<lparr>hc_curl_handle_cnt := cnt\<rparr>" using start_request_result [OF one] False by auto
      ultimately show ?thesis using n by (intro exI [of _ 0] exI [of _ "[]"]) auto
    next
      case True
      obtain h cnt where c2: "c2 = ?c1\<lparr>hc_curl_handle_cnt := cnt, hc_requests_performed := hc_requests_performed ?c1 + 1,
          hc_running_handles := hc_running_handles ?c1 @ [h]\<rparr>" and h: "ch_request h = ref"
        using start_request_result [OF one] True by auto
      obtain ds2 where rest: "start_loop F deref env (Suc k) (n - 1) q c2 = Inr (ok, c', ds2)"
        using Cons.prems rl n g req one True by (auto simp: and_then_eq_Inr Let_def)
      from Cons.IH [OF rest] obtain m hs where
        "m \<le> length q" "hc_schedule_queue c' = drop (if ok then m else Suc m) q"
        "hc_running_handles c' = hc_running_handles c2 @ hs" "map ch_request hs = take m q"
        "0 \<le> n - 1 \<longrightarrow> int m \<le> n - 1" "hc_requests_performed c' = hc_requests_performed c2 + m"
        "hc_enabled c' = hc_enabled c2" "ok \<longrightarrow> loop_stopped env (Suc k + m) (n - 1 - int m) c'" by blast
      then show ?thesis using c2 n h by (intro exI [of _ "Suc m"] exI [of _ "h # hs"]) (auto simp: algebra_simps)
    qed
  qed
qed (auto simp: loop_stopped_def intro: exI [of _ 0])

text \<open>For limits below a million the float product is six fifths of the limit, rounded down.\<close>

lemma max_active_handles_ratio:
  assumes "0 \<le> limit" "limit < 1000000"
  shows "max_active_handles limit = 6 * limit div 5"
proof -
  have "limit * 10066330 div 8388608 = 6 * limit div 5"
  proof (rule int_div_pos_eq [where r = "limit * 10066330 - 8388608 * (6 * limit div 5)"])
    have "6 * limit = 5 * (6 * limit div 5) + 6 * limit mod 5" "0 \<le> 6 * limit mod 5" "6 * limit mod 5 < 5" by simp_all
    then show "limit * 10066330 - 8388608 * (6 * limit div 5) < 8388608"
      "0 \<le> limit * 10066330 - 8388608 * (6 * limit div 5)" using assms by linarith+
  qed simp
  then show ?thesis using assms(1) by (simp add: max_active_handles_def)
qed

section \<open>Properties\<close>

text \<open>
  C27: starting requests takes them from the front of the queue in order, one handle for each, until
  the queue is empty, the rate of the second is used up, or six fifths of the connection limit are
  running: the client starts more transfers than the limit, by a fifth. When libcurl fails on one,
  that request is dropped from the queue without a handle and the loop stops. A disabled client
  starts nothing.
\<close>

theorem StartNewRequests_order:
  assumes "StartNewRequests F deref env c = Inr (ok, c', ds)"
    "0 \<le> fl_connection_limit F" "fl_connection_limit F < 1000000" "room = 6 * fl_connection_limit F div 5 - hc_curl_handle_cnt c"
  shows "if \<not> hc_enabled c then \<not> ok \<and> c' = c
     else \<exists>m hs. m \<le> length (hc_schedule_queue c) \<and>
       hc_schedule_queue c' = drop (if ok then m else Suc m) (hc_schedule_queue c) \<and>
       hc_running_handles c' = hc_running_handles c @ hs \<and>
       map ch_request hs = take m (hc_schedule_queue c) \<and>
       int m \<le> max 0 room \<and>
       (ok \<longrightarrow> hc_schedule_queue c' = [] \<or> room \<le> int m \<or>
          (\<exists>rl. TakeRateSlotWithTime (se_time (env m)) rl = (False, hc_rate_limiter c'))) \<and>
       hc_requests_performed c' = hc_requests_performed c + m"
proof (cases "hc_enabled c \<and> 0 < room")
  case True
  then have "start_loop F deref env 0 room (hc_schedule_queue c) c = Inr (ok, c', ds)"
    using assms max_active_handles_ratio [OF assms(2,3)] by (auto simp: StartNewRequests_def Let_def)
  from start_loop_progress [OF this] show ?thesis using True by (fastforce simp: loop_stopped_def)
next
  case False
  then show ?thesis using assms max_active_handles_ratio [OF assms(2,3)]
    by (auto simp: StartNewRequests_def Let_def intro!: exI [of _ 0])
qed

definition demo_env :: "nat \<Rightarrow> start_env" where
  "demo_env k = \<lparr>se_time = 5, se_EasyInit = Some k, se_EasySetOpt = (\<lambda>opt. True),
     se_AppendSlist = (\<lambda>l. True), se_MultiAddHandle = True, se_MultiPerform = (True, int k + 1, [])\<rparr>"

definition demo_client :: http_client where
  "demo_client = (CurlHttpClient 1)\<lparr>hc_enabled := True,
     hc_schedule_queue := [StoredRequest 1, StoredRequest 2]\<rparr>"

definition demo_request :: request where
  "demo_request = build_url default_flags Request_empty"

theorem StartNewRequests_order_witness:
  "\<exists>c' hs. StartNewRequests default_flags (\<lambda>ref. Some demo_request) demo_env demo_client = Inr (True, c', []) \<and>
     hc_schedule_queue c' = [StoredRequest 2] \<and> map ch_request (hc_running_handles c') = [StoredRequest 1]"
proof -
  let ?r = "StartNewRequests default_flags (\<lambda>ref. Some demo_request) demo_env demo_client"
  have eq: "(case ?r of Inr (ok, c', ds) \<Rightarrow> ok \<and> ds = [] \<and> hc_schedule_queue c' = [StoredRequest 2] | Inl e \<Rightarrow> False)"
    by code_simp
  then obtain c' where r: "?r = Inr (True, c', [])" and q: "hc_schedule_queue c' = [StoredRequest 2]"
    by (cases ?r) auto
  have client: "hc_enabled demo_client" "hc_running_handles demo_client = []"
    "hc_schedule_queue demo_client = [StoredRequest 1, StoredRequest 2]"
    by (simp_all add: demo_client_def CurlHttpClient_def)
  have limit: "0 \<le> fl_connection_limit default_flags" "fl_connection_limit default_flags < 1000000"
    by (simp_all add: default_flags_def)
  obtain m hs where "m \<le> length (hc_schedule_queue demo_client)" "hc_schedule_queue c' = drop m (hc_schedule_queue demo_client)"
      "hc_running_handles c' = hc_running_handles demo_client @ hs" "map ch_request hs = take m (hc_schedule_queue demo_client)"
    using StartNewRequests_order [OF r limit refl] client(1) by (simp only: if_True if_False not_True_eq_False) blast
  then have m: "hc_schedule_queue c' = drop m [StoredRequest 1, StoredRequest 2]" "hc_running_handles c' = hs"
    "map ch_request hs = take m [StoredRequest 1, StoredRequest 2]" "m \<le> 2" by (simp_all add: client)
  then have "m = 1" using q by (cases m; cases "m - 1") auto
  with m r q show ?thesis by auto
qed

text \<open>
  C38: the write callback stops a response only once it is as long as the limit: it compares
  the element size and not the number of bytes offered, so the stored response can pass the
  limit by one buffer, and a chunk of element size zero divides by zero.
\<close>

theorem CurlCallback_limit:
  assumes "0 \<le> fl_max_response_read_size F" "fl_max_response_read_size F < 2 ^ 31"
    "sz \<noteq> 0" "sz + length (rq_raw_response req) < 2 ^ 64" "sz * multiplier < 2 ^ 31"
    "length buffer = sz * multiplier"
  shows "CurlCallback F buffer sz multiplier req =
       (if int (length (rq_raw_response req) + sz) \<le> fl_max_response_read_size F
        then Inr (length buffer, ResponseCb buffer req) else Inr (0, req)) \<and>
     CurlCallback F buffer 0 multiplier req = Inl DivideByZero"
proof -
  have "size_of_int (fl_max_response_read_size F) = nat (fl_max_response_read_size F)"
    using assms(1,2) by (intro size_of_int_small) auto
  moreover have "\<not> size_t_max div sz < multiplier"
  proof -
    have "multiplier * sz \<le> size_t_max" using assms(5) by (simp add: size_t_max_def mult.commute)
    then show ?thesis using assms(3) by (simp add: less_eq_div_iff_mult_less_eq not_less)
  qed
  ultimately show ?thesis using assms by (auto simp: CurlCallback_def Let_def)
qed

theorem CurlCallback_limit_witness:
  "CurlCallback (default_flags\<lparr>fl_max_response_read_size := 2\<rparr>) ''abcd'' 1 4 Request_empty =
     Inr (4, ResponseCb ''abcd'' Request_empty)"
  using CurlCallback_limit [of "default_flags\<lparr>fl_max_response_read_size := 2\<rparr>" 1 Request_empty 4 "''abcd''"]
  by (simp add: Request_empty_def default_flags_def)

end
