(* ===== verification/Pivot.thy ===== *)
theory Pivot
  imports Request "HOL-Library.Multiset"
begin

text \<open>
  \<open>src/pivot.{h,cc}\<close>: the site tree. A pivot has a name, limits, children in name order and
  request samples. A stored request is named by the id the data store gives it, so a sample is
  an id and the requests themselves are looked up in a store \<open>st\<close>. The limits are \<open>int\<close>
  members compared with a \<open>size_t\<close>: a negative limit is no limit.
\<close>

datatype pivot =
  Pivot (pv_template_limit: int) (pv_child_limit: int) (pv_name: string)
    (pv_children: "(string \<times> pivot) list") (pv_samples: "int list")

type_synonym request_store = "int \<Rightarrow> request option"

definition Pivot_name :: "flags \<Rightarrow> string \<Rightarrow> pivot" where
  "Pivot_name F name = Pivot (fl_pivot_request_limit F) (fl_pivot_child_limit F) name [] []"

definition set_children :: "(string \<times> pivot) list \<Rightarrow> pivot \<Rightarrow> pivot" where
  "set_children cs p = Pivot (pv_template_limit p) (pv_child_limit p) (pv_name p) cs (pv_samples p)"

definition GetChildPivot :: "string \<Rightarrow> pivot \<Rightarrow> pivot option" where
  "GetChildPivot name p = map_of (pv_children p) name"

definition AddChildPivot :: "pivot \<Rightarrow> pivot \<Rightarrow> bool \<times> pivot" where
  "AddChildPivot c p =
     (if length (pv_children p) \<ge> size_of_int (pv_child_limit p) then (False, p)
      else if GetChildPivot (pv_name c) p \<noteq> None then (False, p)
      else (True, set_children (omap_emplace (pv_name c) c (pv_children p)) p))"

definition sample_Equals :: "request_store \<Rightarrow> request \<Rightarrow> int \<Rightarrow> bool" where
  "sample_Equals st req i = (case st i of Some r \<Rightarrow> request_Equals r req | None \<Rightarrow> False)"

text \<open>\<open>new_id\<close> names the request once it is stored.\<close>

definition pivot_AddRequest :: "request_store \<Rightarrow> int \<Rightarrow> request \<Rightarrow> pivot \<Rightarrow> bool \<times> pivot" where
  "pivot_AddRequest st new_id req p =
     (if length (pv_samples p) \<ge> size_of_int (pv_template_limit p) then (False, p)
      else if list_ex (sample_Equals st req) (pv_samples p) then (False, p)
      else (True, Pivot (pv_template_limit p) (pv_child_limit p) (pv_name p) (pv_children p)
              (pv_samples p @ [new_id])))"

text \<open>
  The loop of \<open>DataStore::AddRequestToPivot\<close> over the path segments: descends to a child,
  adds the missing ones, and at the end offers the request to the last pivot. Pivots made on
  the way stay when a later step fails.
\<close>

fun add_at_path ::
    "flags \<Rightarrow> request_store \<Rightarrow> int \<Rightarrow> request \<Rightarrow> string list \<Rightarrow> pivot \<Rightarrow> bool \<times> pivot" where
  "add_at_path F st new_id req [] p = pivot_AddRequest st new_id req p"
| "add_at_path F st new_id req (v # vs) p =
     (case GetChildPivot v p of
        Some c \<Rightarrow>
          (let (ok, c') = add_at_path F st new_id req vs c
           in (ok, set_children (omap_set v c' (pv_children p)) p))
      | None \<Rightarrow>
          (case AddChildPivot (Pivot_name F v) p of
             (False, p1) \<Rightarrow> (False, p1)
           | (True, p1) \<Rightarrow>
               (let (ok, c') = add_at_path F st new_id req vs (Pivot_name F v)
                in (ok, set_children (omap_set v c' (pv_children p1)) p1))))"

text \<open>\<open>Pivot::Report\<close>: the calls of \<open>ReportPivot\<close>, in order, with their depth.\<close>

fun pivot_Report :: "int \<Rightarrow> pivot \<Rightarrow> (pivot \<times> int) list" where
  "pivot_Report depth (Pivot tlim clim n cs samples) =
     concat (map (\<lambda>(k, c). (c, depth + 1) # pivot_Report (depth + 1) c) cs)"

section \<open>The requests of a tree\<close>

fun pivot_ids :: "pivot \<Rightarrow> int list" where
  "pivot_ids (Pivot tlim clim n cs samples) = samples @ concat (map (\<lambda>(k, c). pivot_ids c) cs)"

text \<open>
  Well-formedness: children in ascending order under their own names, limits kept, and no two
  samples of one pivot equal in the sense of \<open>Request::Equals\<close>.
\<close>

definition samples_distinct :: "request_store \<Rightarrow> int list \<Rightarrow> bool" where
  "samples_distinct st ids \<longleftrightarrow>
     sorted_wrt (\<lambda>i j. case st j of Some r \<Rightarrow> \<not> sample_Equals st r i | None \<Rightarrow> False) ids"

fun pivot_ok :: "request_store \<Rightarrow> pivot \<Rightarrow> bool" where
  "pivot_ok st (Pivot tlim clim n cs samples) \<longleftrightarrow>
     omap_ok cs \<and> length cs \<le> size_of_int clim \<and> length samples \<le> size_of_int tlim \<and>
     samples_distinct st samples \<and> (\<forall>(k, c) \<in> set cs. pv_name c = k \<and> pivot_ok st c)"

section \<open>Lemmas: comparison keys\<close>

text \<open>What \<open>Request::Equals\<close> looks at.\<close>

definition request_key ::
    "request \<Rightarrow> bool \<times> request_method \<times> string \<times> int \<times> string list \<times> string list \<times> string list" where
  "request_key r = (let p = rq_proto r in
     (req_ssl p, req_method p, req_host p, req_port p, map field_name (hr_param p),
      map field_name (hr_body_param p), map field_value (hr_path p)))"

lemma FieldNamesEqual_cong:
  "map field_name a = map field_name a' \<Longrightarrow> map field_name b = map field_name b' \<Longrightarrow>
     FieldNamesEqual a b = FieldNamesEqual a' b'"
proof -
  assume *: "map field_name a = map field_name a'" "map field_name b = map field_name b'"
  have "length a = length a'" "length b = length b'" using *[THEN map_eq_imp_length_eq] by auto
  moreover have "field_name ` set a = field_name ` set a'" "field_name ` set b = field_name ` set b'"
    using *[THEN arg_cong [of _ _ set]] by simp_all
  ultimately show ?thesis by (simp add: FieldNamesEqual_card)
qed

lemma list_all2_map_eq: "list_all2 (\<lambda>a b. f a = f b) xs ys \<longleftrightarrow> map f xs = map f ys"
  by (induction xs arbitrary: ys) (auto simp: list_all2_Cons1 Cons_eq_map_conv)

lemma request_Equals_key:
  assumes "request_key r = request_key r'" "request_key s = request_key s'"
  shows "request_Equals r s = request_Equals r' s'"
proof -
  have len: "length (hr_param (rq_proto r)) = length (hr_param (rq_proto r'))"
    "length (hr_param (rq_proto s)) = length (hr_param (rq_proto s'))"
    "length (hr_body_param (rq_proto r)) = length (hr_body_param (rq_proto r'))"
    "length (hr_body_param (rq_proto s)) = length (hr_body_param (rq_proto s'))"
    "length (hr_path (rq_proto r)) = length (hr_path (rq_proto r'))"
    "length (hr_path (rq_proto s)) = length (hr_path (rq_proto s'))"
    using assms unfolding request_key_def Let_def by (metis length_map prod.inject)+
  have fn: "FieldNamesEqual (hr_param (rq_proto r)) (hr_param (rq_proto s)) =
      FieldNamesEqual (hr_param (rq_proto r')) (hr_param (rq_proto s'))"
    "FieldNamesEqual (hr_body_param (rq_proto r)) (hr_body_param (rq_proto s)) =
      FieldNamesEqual (hr_body_param (rq_proto r')) (hr_body_param (rq_proto s'))"
    using assms by (auto simp: request_key_def Let_def intro!: FieldNamesEqual_cong)
  show ?thesis
    using assms by (simp add: request_Equals_def Let_def len fn list_all2_map_eq request_key_def)
qed

definition same_keys :: "request_store \<Rightarrow> request_store \<Rightarrow> int set \<Rightarrow> bool" where
  "same_keys st st' A \<longleftrightarrow> (\<forall>i \<in> A. map_option request_key (st i) = map_option request_key (st' i))"

lemma same_keys_sample:
  assumes "same_keys st st' A" "i \<in> A" "request_key r = request_key r'"
  shows "sample_Equals st r i = sample_Equals st' r' i"
proof -
  have "map_option request_key (st i) = map_option request_key (st' i)"
    using assms by (simp add: same_keys_def)
  then show ?thesis
    by (cases "st i"; cases "st' i")
      (simp_all add: sample_Equals_def request_Equals_key [OF _ assms(3)])
qed

lemma samples_distinct_cong:
  assumes "same_keys st st' (set ids)"
  shows "samples_distinct st ids = samples_distinct st' ids"
proof -
  have "(case st j of Some r \<Rightarrow> \<not> sample_Equals st r i | None \<Rightarrow> False) =
      (case st' j of Some r \<Rightarrow> \<not> sample_Equals st' r i | None \<Rightarrow> False)"
    if "i \<in> set ids" "j \<in> set ids" for i j
  proof -
    have "map_option request_key (st j) = map_option request_key (st' j)"
      using assms that by (simp add: same_keys_def)
    then show ?thesis
      by (cases "st j"; cases "st' j") (simp_all add: same_keys_sample [OF assms that(1)])
  qed
  then show ?thesis unfolding samples_distinct_def
    by (intro iffI; elim sorted_wrt_mono_rel [rotated]; simp)
qed

lemma pivot_ok_cong: "same_keys st st' (set (pivot_ids p)) \<Longrightarrow> pivot_ok st p = pivot_ok st' p"
proof (induction p)
  case (Pivot tlim clim n cs samples)
  have "pivot_ok st c = pivot_ok st' c" if "(k, c) \<in> set cs" for k c
    using that Pivot.prems by (intro Pivot.IH [of "(k, c)"]) (auto simp: same_keys_def)
  moreover have "samples_distinct st samples = samples_distinct st' samples"
    using Pivot.prems by (intro samples_distinct_cong) (simp add: same_keys_def)
  ultimately show ?case by auto
qed

section \<open>Lemmas: adding a request\<close>

lemma mset_omap_set:
  assumes "omap_ok m" "map_of m k = Some v"
  shows "mset (concat (map f (omap_set k v' m))) + mset (f (k, v)) =
     mset (concat (map f m)) + mset (f (k, v'))"
  using assms
proof (induction m)
  case (Cons e m)
  obtain k1 v1 where e: "e = (k1, v1)" by (cases e)
  have ok: "omap_ok m" "\<forall>x \<in> fst ` set m. k1 < x" using Cons.prems(1) e by (auto simp: omap_ok_def)
  show ?case
  proof (cases "k = k1")
    case False
    then have "map_of m k = Some v" using Cons.prems(2) e by simp
    moreover from this have "k1 < k" using ok(2) by (force dest: map_of_SomeD)
    ultimately show ?thesis using Cons.IH ok e by (auto simp: ac_simps)
  qed (use Cons.prems e in \<open>auto simp: ac_simps\<close>)
qed simp

lemma mset_omap_new:
  "map_of m k = None \<Longrightarrow> mset (concat (map f (omap_set k v m))) = mset (concat (map f m)) + mset (f (k, v))"
  by (induction m) (auto split: if_splits)

lemma pivot_AddRequest_ids:
  "pivot_AddRequest st new_id req p = (ok, p') \<Longrightarrow>
     mset (pivot_ids p') = mset (pivot_ids p) + (if ok then {#new_id#} else {#})"
  by (cases p) (auto simp: pivot_AddRequest_def split: if_splits)

lemma pivot_ids_children:
  "mset (pivot_ids p) = mset (pv_samples p) + mset (concat (map (\<lambda>(k, c). pivot_ids c) (pv_children p)))"
  by (cases p) simp

lemma set_children_sel [simp]:
  "pv_children (set_children cs p) = cs" "pv_samples (set_children cs p) = pv_samples p"
  "pv_name (set_children cs p) = pv_name p" "pv_child_limit (set_children cs p) = pv_child_limit p"
  "pv_template_limit (set_children cs p) = pv_template_limit p"
  by (simp_all add: set_children_def)

lemma pivot_ids_Pivot_name [simp]: "pivot_ids (Pivot_name F v) = []"
  by (simp add: Pivot_name_def)

lemma pivot_ok_Pivot_name [simp]: "pivot_ok st (Pivot_name F v)"
  by (simp add: Pivot_name_def samples_distinct_def)

lemma pv_name_Pivot_name [simp]: "pv_name (Pivot_name F v) = v"
  by (simp add: Pivot_name_def)

lemma pivot_ok_sel:
  "pivot_ok st p \<longleftrightarrow>
     omap_ok (pv_children p) \<and> length (pv_children p) \<le> size_of_int (pv_child_limit p) \<and>
     length (pv_samples p) \<le> size_of_int (pv_template_limit p) \<and>
     samples_distinct st (pv_samples p) \<and>
     (\<forall>(k, c) \<in> set (pv_children p). pv_name c = k \<and> pivot_ok st c)"
  by (cases p) simp

lemma AddChildPivot_cases:
  assumes "AddChildPivot (Pivot_name F v) p = (b, p1)" "GetChildPivot v p = None"
  shows "(b = False \<and> p1 = p) \<or>
     (b = True \<and> length (pv_children p) < size_of_int (pv_child_limit p) \<and>
      p1 = set_children (omap_set v (Pivot_name F v) (pv_children p)) p)"
  using assms by (auto simp: AddChildPivot_def GetChildPivot_def omap_emplace_def split: if_splits)

lemma omap_set_set [simp]: "omap_set k v (omap_set k v' m) = omap_set k v m"
  by (induction m) auto

text \<open>The new child is made and filled in one step.\<close>

lemma add_at_path_new:
  assumes "GetChildPivot v p = None"
  shows "add_at_path F st new_id req (v # vs) p =
     (if length (pv_children p) \<ge> size_of_int (pv_child_limit p) then (False, p)
      else let (ok, c') = add_at_path F st new_id req vs (Pivot_name F v)
           in (ok, set_children (omap_set v c' (pv_children p)) p))"
proof -
  have "AddChildPivot (Pivot_name F v) p =
      (if length (pv_children p) \<ge> size_of_int (pv_child_limit p) then (False, p)
       else (True, set_children (omap_set v (Pivot_name F v) (pv_children p)) p))"
    using assms by (simp add: AddChildPivot_def GetChildPivot_def omap_emplace_def)
  then show ?thesis using assms by (simp add: set_children_def split_beta)
qed

lemma add_at_path_old:
  "GetChildPivot v p = Some c \<Longrightarrow>
   add_at_path F st new_id req (v # vs) p =
     (let (ok, c') = add_at_path F st new_id req vs c
      in (ok, set_children (omap_set v c' (pv_children p)) p))"
  by simp

lemma add_at_path_ids:
  "add_at_path F st new_id req vs p = (ok, p') \<Longrightarrow> pivot_ok st p \<Longrightarrow>
     mset (pivot_ids p') = mset (pivot_ids p) + (if ok then {#new_id#} else {#})"
proof (induction vs arbitrary: p ok p')
  case Nil
  then show ?case by (simp add: pivot_AddRequest_ids)
next
  case (Cons v vs)
  show ?case
  proof (cases "GetChildPivot v p")
    case None
    obtain b c' where c': "add_at_path F st new_id req vs (Pivot_name F v) = (b, c')" by force
    then have "mset (pivot_ids c') = (if b then {#new_id#} else {#})" using Cons.IH by fastforce
    then show ?thesis
      using Cons.prems(1) None c'
      by (auto simp: add_at_path_new pivot_ids_children mset_omap_new GetChildPivot_def
          simp del: add_at_path.simps split: if_splits)
  next
    case (Some c)
    then have kc: "map_of (pv_children p) v = Some c" by (simp add: GetChildPivot_def)
    then have okc: "pivot_ok st c" "omap_ok (pv_children p)"
      using Cons.prems(2) by (auto simp: pivot_ok_sel [of st p] dest: map_of_SomeD)
    obtain b c' where c': "add_at_path F st new_id req vs c = (b, c')" by force
    have "mset (pivot_ids c') = mset (pivot_ids c) + (if b then {#new_id#} else {#})"
      by (rule Cons.IH [OF c' okc(1)])
    then show ?thesis
      using Cons.prems(1) Some c' mset_omap_set [OF okc(2) kc, of "\<lambda>(k, c). pivot_ids c" c']
      by (auto simp: pivot_ids_children)
  qed
qed

lemma add_at_path_fields:
  "add_at_path F st new_id req vs p = (ok, p') \<Longrightarrow>
     pv_name p' = pv_name p \<and> pv_child_limit p' = pv_child_limit p \<and>
     pv_template_limit p' = pv_template_limit p"
proof (cases vs)
  case (Cons v ws)
  assume "add_at_path F st new_id req vs p = (ok, p')"
  then show ?thesis unfolding Cons
    by (cases "GetChildPivot v p")
      (auto simp: add_at_path_new add_at_path_old split_beta Let_def simp del: add_at_path.simps(2)
        split: if_splits)
qed (auto simp: pivot_AddRequest_def split: if_splits)

lemma set_omap_set: "set (omap_set k v m) \<subseteq> insert (k, v) (set m)"
  by (induction m) (auto split: if_splits)

lemma same_keys_new:
  "st new_id = None \<Longrightarrow> \<forall>i \<in> A. st i \<noteq> None \<Longrightarrow> same_keys st (st(new_id \<mapsto> req)) A"
  by (auto simp: same_keys_def)

lemma pivot_AddRequest_ok:
  assumes "pivot_AddRequest st new_id req p = (ok, p')" "pivot_ok st p"
    "st new_id = None" "\<forall>i \<in> set (pivot_ids p). st i \<noteq> None"
  shows "pivot_ok (st(new_id \<mapsto> req)) p'"
proof -
  have sk: "same_keys st (st(new_id \<mapsto> req)) (set (pivot_ids p))"
    by (rule same_keys_new [OF assms(3,4)])
  obtain tlim clim n cs ss where p: "p = Pivot tlim clim n cs ss" by (cases p)
  have old: "pivot_ok (st(new_id \<mapsto> req)) p" using pivot_ok_cong [OF sk] assms(2) by simp
  have "sample_Equals (st(new_id \<mapsto> req)) req i = sample_Equals st req i" if "i \<in> set ss" for i
    using that same_keys_sample [OF sk, of i req req] p by simp
  then have "samples_distinct (st(new_id \<mapsto> req)) (ss @ [new_id])"
    if "samples_distinct (st(new_id \<mapsto> req)) ss" "\<not> list_ex (sample_Equals st req) ss"
    using that by (simp add: samples_distinct_def sorted_wrt_append list_ex_iff del: fun_upd_apply)
      (simp add: fun_upd_def)
  then show ?thesis using old assms(1)
    by (auto simp: pivot_AddRequest_def p simp del: fun_upd_apply split: if_splits)
qed

lemma add_at_path_ok:
  "add_at_path F st new_id req vs p = (ok, p') \<Longrightarrow> pivot_ok st p \<Longrightarrow> st new_id = None \<Longrightarrow>
     \<forall>i \<in> set (pivot_ids p). st i \<noteq> None \<Longrightarrow> pivot_ok (st(new_id \<mapsto> req)) p'"
proof (induction vs arbitrary: p ok p')
  case Nil
  then show ?case using pivot_AddRequest_ok by (simp del: fun_upd_apply)
next
  case (Cons v vs)
  let ?st = "st(new_id \<mapsto> req)"
  have "same_keys st ?st (set (pivot_ids p))" by (rule same_keys_new [OF Cons.prems(3,4)])
  then have old: "pivot_ok ?st p" using pivot_ok_cong Cons.prems(2) by blast
  define c where "c = (case GetChildPivot v p of Some c \<Rightarrow> c | None \<Rightarrow> Pivot_name F v)"
  obtain b c' where c': "add_at_path F st new_id req vs c = (b, c')" by force
  have ch: "pivot_ok st c" "\<forall>i \<in> set (pivot_ids c). st i \<noteq> None" "pv_name c = v"
    using Cons.prems(2,4)
    by (cases p; force simp: c_def GetChildPivot_def split: option.splits dest: map_of_SomeD)+
  have new: "pivot_ok ?st c'" "pv_name c' = v"
    using Cons.IH [OF c' ch(1) Cons.prems(3) ch(2)] add_at_path_fields [OF c'] ch(3) by blast+
  have room: "length (omap_set v c' (pv_children p)) \<le> size_of_int (pv_child_limit p)"
    if "GetChildPivot v p = None \<longrightarrow> length (pv_children p) < size_of_int (pv_child_limit p)"
    using that old length_omap_set [of "pv_children p" v c']
    by (auto simp: pivot_ok_sel [of _ p] GetChildPivot_def split: if_splits)
  have "p' = p \<or> (p' = set_children (omap_set v c' (pv_children p)) p \<and>
      (GetChildPivot v p = None \<longrightarrow> length (pv_children p) < size_of_int (pv_child_limit p)))"
  proof (cases "GetChildPivot v p")
    case None
    then show ?thesis using Cons.prems(1) c' by (auto simp: add_at_path_new c_def
        simp del: add_at_path.simps(2) split: if_splits)
  next
    case (Some d)
    then show ?thesis using Cons.prems(1) c' by (auto simp: c_def)
  qed
  then show ?case
  proof (elim disjE conjE)
    assume "p' = p"
    then show ?thesis using old by (simp only:)
  next
    assume p': "p' = set_children (omap_set v c' (pv_children p)) p"
      "GetChildPivot v p = None \<longrightarrow> length (pv_children p) < size_of_int (pv_child_limit p)"
    show ?thesis unfolding pivot_ok_sel [of ?st p']
      using old new room [OF p'(2)] set_omap_set [of v c' "pv_children p"]
      by (auto simp: p'(1) pivot_ok_sel [of ?st p] simp del: fun_upd_apply)
  qed
qed

end
