(* ===== verification/Data_Store.thy ===== *)
theory Data_Store
  imports Pivot
begin

text \<open>
  \<open>src/datastore.{h,cc}\<close>: the shared state of a scan. \<open>ds_requests_by_id\<close> holds the stored
  request objects under their ids; pivots and queues refer to them by id, as the code does by
  pointer. Each operation runs under its own mutex, so the model runs it as one step. The two
  callbacks the class stores are never called and have no field.
\<close>

record data_store =
  ds_allowed_hosts :: "string list"
  ds_url_blacklist_regexes :: "string list"
  ds_url_whitelist_regexes :: "string list"
  ds_site_pivots :: "(string, pivot) omap"
  ds_requests_by_id :: "(int, request) omap"
  ds_issue_per_id :: "(int, (issue_type, issue_details list) omap) omap"
  ds_issue_count_per_severity :: "(severity, 32 word) omap"
  ds_request_meta :: "(int, (metadata_type, int) omap) omap"
  ds_request_id :: int
  ds_check_issue_counters :: "(issue_type, int) omap"
  ds_audit_queue :: "int list"
  ds_crawl_queue :: "int list"
  ds_probe_queue :: "int list"
  ds_not_found_fingerprints :: "string list"

definition DataStore :: data_store where
  "DataStore =
     \<lparr>ds_allowed_hosts = [], ds_url_blacklist_regexes = [], ds_url_whitelist_regexes = [],
      ds_site_pivots = [], ds_requests_by_id = [], ds_issue_per_id = [],
      ds_issue_count_per_severity =
        fold (\<lambda>s. omap_set s 0) [CRITICAL, HIGH, MODERATE, LOW, MINIMAL, SEVERITY_UNKNOWN] [],
      ds_request_meta = [], ds_request_id = 0, ds_check_issue_counters = [],
      ds_audit_queue = [], ds_crawl_queue = [], ds_probe_queue = [],
      ds_not_found_fingerprints = []\<rparr>"

section \<open>Scope\<close>

definition AddHost :: "string \<Rightarrow> data_store \<Rightarrow> data_store" where
  "AddHost h ds = ds\<lparr>ds_allowed_hosts := hset_insert h (ds_allowed_hosts ds)\<rparr>"

definition AddBlacklistRegex :: "externals \<Rightarrow> string \<Rightarrow> data_store \<Rightarrow> bool \<times> data_store" where
  "AddBlacklistRegex L re ds =
     (if \<not> RE2_ok L re then (False, ds)
      else (True, ds\<lparr>ds_url_blacklist_regexes := ds_url_blacklist_regexes ds @ [re]\<rparr>))"

definition AddWhitelistRegex :: "externals \<Rightarrow> string \<Rightarrow> data_store \<Rightarrow> bool \<times> data_store" where
  "AddWhitelistRegex L re ds =
     (if \<not> RE2_ok L re then (False, ds)
      else (True, ds\<lparr>ds_url_whitelist_regexes := ds_url_whitelist_regexes ds @ [re]\<rparr>))"

section \<open>Queues\<close>

definition AddRequestToAuditQueue :: "int \<Rightarrow> data_store \<Rightarrow> data_store" where
  "AddRequestToAuditQueue i ds = ds\<lparr>ds_audit_queue := ds_audit_queue ds @ [i]\<rparr>"

definition AddRequestToCrawlQueue :: "int \<Rightarrow> data_store \<Rightarrow> data_store" where
  "AddRequestToCrawlQueue i ds = ds\<lparr>ds_crawl_queue := ds_crawl_queue ds @ [i]\<rparr>"

definition AddRequestToProbeQueue :: "int \<Rightarrow> data_store \<Rightarrow> data_store" where
  "AddRequestToProbeQueue i ds = ds\<lparr>ds_probe_queue := ds_probe_queue ds @ [i]\<rparr>"

definition GetRequestFromAuditQueue :: "data_store \<Rightarrow> int option \<times> data_store" where
  "GetRequestFromAuditQueue ds = (case ds_audit_queue ds of
     [] \<Rightarrow> (None, ds) | i # q \<Rightarrow> (Some i, ds\<lparr>ds_audit_queue := q\<rparr>))"

definition GetRequestFromCrawlQueue :: "data_store \<Rightarrow> int option \<times> data_store" where
  "GetRequestFromCrawlQueue ds = (case ds_crawl_queue ds of
     [] \<Rightarrow> (None, ds) | i # q \<Rightarrow> (Some i, ds\<lparr>ds_crawl_queue := q\<rparr>))"

definition GetRequestFromProbeQueue :: "data_store \<Rightarrow> int option \<times> data_store" where
  "GetRequestFromProbeQueue ds = (case ds_probe_queue ds of
     [] \<Rightarrow> (None, ds) | i # q \<Rightarrow> (Some i, ds\<lparr>ds_probe_queue := q\<rparr>))"

section \<open>Requests\<close>

definition GetRequestById :: "int \<Rightarrow> data_store \<Rightarrow> request option" where
  "GetRequestById i ds = map_of (ds_requests_by_id ds) i"

text \<open>A write through the pointer of a stored request.\<close>

definition put_request :: "int \<Rightarrow> request \<Rightarrow> data_store \<Rightarrow> data_store" where
  "put_request i r ds = ds\<lparr>ds_requests_by_id := omap_set i r (ds_requests_by_id ds)\<rparr>"

definition AddRequestToIdMap :: "request \<Rightarrow> data_store \<Rightarrow> int \<times> data_store" where
  "AddRequestToIdMap req ds =
     (let i = ds_request_id ds + 1;
          ds1 = put_request i (req\<lparr>rq_id := i\<rparr>) (ds\<lparr>ds_request_id := i\<rparr>)
      in (i, AddRequestToProbeQueue i ds1))"

definition AddRequestToPivot :: "flags \<Rightarrow> request \<Rightarrow> data_store \<Rightarrow> int \<times> data_store" where
  "AddRequestToPivot F req ds =
     (let name = host req;
          sites = omap_emplace name (Pivot_name F name) (ds_site_pivots ds);
          site = omap_get (Pivot_name F name) name sites;
          (ok, site') = add_at_path F (\<lambda>i. GetRequestById i ds) (ds_request_id ds + 1) req
             (map field_value (hr_path (rq_proto req))) site;
          ds1 = ds\<lparr>ds_site_pivots := omap_set name site' sites\<rparr>
      in if ok then AddRequestToIdMap req ds1 else (kInvalidId, ds1))"

definition AddRequest :: "externals \<Rightarrow> flags \<Rightarrow> request \<Rightarrow> data_store \<Rightarrow> int \<times> data_store" where
  "AddRequest L F req ds =
     (if host req \<notin> set (ds_allowed_hosts ds) then (kInvalidId, ds)
      else if list_ex (\<lambda>re. \<not> PartialMatch L (rq_url req) re) (ds_url_whitelist_regexes ds)
      then (kInvalidId, ds)
      else if list_ex (\<lambda>re. PartialMatch L (rq_url req) re) (ds_url_blacklist_regexes ds)
      then (kInvalidId, ds)
      else if \<not> url_is_valid req then (kInvalidId, ds)
      else AddRequestToPivot F req ds)"

section \<open>Issues\<close>

definition CheckAndUpdateIssueCounters ::
    "flags \<Rightarrow> issue_type \<Rightarrow> data_store \<Rightarrow> bool \<times> data_store" where
  "CheckAndUpdateIssueCounters F t ds =
     (case map_of (ds_check_issue_counters ds) t of
        None \<Rightarrow> (True, ds\<lparr>ds_check_issue_counters := omap_set t 1 (ds_check_issue_counters ds)\<rparr>)
      | Some n \<Rightarrow>
          if n = fl_max_issues_per_check F then (False, ds)
          else (True, ds\<lparr>ds_check_issue_counters := omap_set t (n + 1) (ds_check_issue_counters ds)\<rparr>))"

text \<open>
  \<open>issue_map[type].size()\<close> makes an empty entry where there was none, and the entry stays
  when a limit refuses the issue.
\<close>

definition touch_issue_entry :: "int \<Rightarrow> issue_type \<Rightarrow> data_store \<Rightarrow> data_store" where
  "touch_issue_entry i t ds =
     (case map_of (ds_issue_per_id ds) i of
        None \<Rightarrow> ds
      | Some m \<Rightarrow> ds\<lparr>ds_issue_per_id := omap_set i (omap_emplace t [] m) (ds_issue_per_id ds)\<rparr>)"

definition issues_at :: "data_store \<Rightarrow> int \<Rightarrow> issue_type \<Rightarrow> issue_details list" where
  "issues_at ds i t = omap_get [] t (omap_get [] i (ds_issue_per_id ds))"

definition store_issue :: "int \<Rightarrow> issue_details \<Rightarrow> data_store \<Rightarrow> data_store" where
  "store_issue i issue ds =
     (let m = omap_get [] i (ds_issue_per_id ds); t = issue_type_of issue
      in ds\<lparr>ds_issue_per_id := omap_set i (omap_set t (omap_get [] t m @ [issue]) m)
              (ds_issue_per_id ds)\<rparr>)"

definition count_severity :: "severity \<Rightarrow> data_store \<Rightarrow> data_store" where
  "count_severity s ds = ds\<lparr>ds_issue_count_per_severity :=
     omap_set s (omap_get 0 s (ds_issue_count_per_severity ds) + 1) (ds_issue_count_per_severity ds)\<rparr>"

definition AddIssueDetails ::
    "externals \<Rightarrow> flags \<Rightarrow> int \<Rightarrow> issue_details \<Rightarrow> data_store \<Rightarrow> bool \<times> data_store" where
  "AddIssueDetails L F i issue ds =
     (case GetRequestById i ds of
        None \<Rightarrow> (False, ds)
      | Some req \<Rightarrow>
          let t = issue_type_of issue in
          if length (rq_issues req) = size_of_int (fl_max_issues_per_url F) then (False, ds)
          else if list_ex (\<lambda>e. MessageEquals L e issue) (issues_at ds i t) then (False, ds)
          else
            let ds1 = touch_issue_entry i t ds in
            if map_of (ds_issue_per_id ds) i \<noteq> None \<and>
               length (issues_at ds1 i t) = size_of_int (fl_max_issues_per_check_per_url F)
            then (False, ds1)
            else
              (case CheckAndUpdateIssueCounters F t ds1 of
                 (False, ds2) \<Rightarrow> (False, ds2)
               | (True, ds2) \<Rightarrow>
                   let ds3 = count_severity (issue_severity_of issue) ds2;
                       ds4 = put_request i (request_AddIssue issue req) ds3
                   in (True, store_issue i issue ds4)))"

definition make_issue :: "issue_type \<Rightarrow> severity \<Rightarrow> request \<Rightarrow> issue_details" where
  "make_issue t sev req =
     empty_issue\<lparr>is_request := Some (rq_proto req), is_type := Some t, is_severity := Some sev,
       is_response := map_option rs_http_response (rq_response req)\<rparr>"

definition AddIssue ::
    "externals \<Rightarrow> flags \<Rightarrow> int \<Rightarrow> issue_type \<Rightarrow> severity \<Rightarrow> request \<Rightarrow> data_store \<Rightarrow>
     bool \<times> data_store" where
  "AddIssue L F i t sev test_request ds =
     AddIssueDetails L F i (make_issue t sev test_request) ds"

definition AddIssueById ::
    "externals \<Rightarrow> flags \<Rightarrow> int \<Rightarrow> issue_type \<Rightarrow> severity \<Rightarrow> data_store \<Rightarrow>
     (bool \<times> data_store) result" where
  "AddIssueById L F i t sev ds =
     (case GetRequestById i ds of
        None \<Rightarrow> Inl NullPointer
      | Some req \<Rightarrow> Inr (AddIssueDetails L F i (make_issue t sev req) ds))"

section \<open>Metadata and fingerprints\<close>

definition AddRequestMetadata ::
    "int \<Rightarrow> metadata_type \<Rightarrow> int \<Rightarrow> data_store \<Rightarrow> bool \<times> data_store" where
  "AddRequestMetadata i t v ds =
     (let m = omap_get [] i (ds_request_meta ds) in
      if map_of (ds_request_meta ds) i \<noteq> None \<and> map_of m t \<noteq> None then (False, ds)
      else (True, ds\<lparr>ds_request_meta := omap_set i (omap_set t v m) (ds_request_meta ds)\<rparr>))"

definition GetRequestMetadata :: "int \<Rightarrow> metadata_type \<Rightarrow> data_store \<Rightarrow> int option" where
  "GetRequestMetadata i t ds =
     (case map_of (ds_request_meta ds) i of None \<Rightarrow> None | Some m \<Rightarrow> map_of m t)"

definition AddResponseFingerprintToRequest ::
    "int \<Rightarrow> html_fingerprint \<Rightarrow> data_store \<Rightarrow> (bool \<times> data_store) result" where
  "AddResponseFingerprintToRequest i fp ds =
     (case GetRequestById i ds of
        None \<Rightarrow> Inr (False, ds)
      | Some req \<Rightarrow>
          and_then (set_response_html_fingerprint fp req) (\<lambda>r. Inr (True, put_request i r ds)))"

definition AddFileNotFoundHtmlFingerprint :: "html_fingerprint \<Rightarrow> data_store \<Rightarrow> data_store" where
  "AddFileNotFoundHtmlFingerprint fp ds =
     ds\<lparr>ds_not_found_fingerprints := hset_insert (fp_ToString fp) (ds_not_found_fingerprints ds)\<rparr>"

definition IsFileNotFoundHtmlFingerprint :: "html_fingerprint option \<Rightarrow> data_store \<Rightarrow> bool" where
  "IsFileNotFoundHtmlFingerprint fp ds =
     (case fp of None \<Rightarrow> False | Some f \<Rightarrow> fp_ToString f \<in> set (ds_not_found_fingerprints ds))"

text \<open>\<open>DataStore::Report\<close>: the pivots one reporter is called with, in order.\<close>

definition datastore_Report :: "data_store \<Rightarrow> (pivot \<times> int) list" where
  "datastore_Report ds =
     concat (map (\<lambda>(k, p). (p, 1) # pivot_Report 1 p) (ds_site_pivots ds))"

section \<open>The invariant\<close>

abbreviation store_of :: "data_store \<Rightarrow> request_store" where
  "store_of ds \<equiv> map_of (ds_requests_by_id ds)"

definition site_ids :: "data_store \<Rightarrow> int list" where
  "site_ids ds = concat (map (\<lambda>(k, p). pivot_ids p) (ds_site_pivots ds))"

text \<open>Requests: numbered from one without gaps, each under its own id, hosts in scope.\<close>

definition ids_inv :: "data_store \<Rightarrow> bool" where
  "ids_inv ds \<longleftrightarrow>
     0 \<le> ds_request_id ds \<and> omap_ok (ds_requests_by_id ds) \<and>
     fst ` set (ds_requests_by_id ds) = {1..ds_request_id ds} \<and>
     (\<forall>(i, r) \<in> set (ds_requests_by_id ds). rq_id r = i \<and> host r \<in> set (ds_allowed_hosts ds))"

text \<open>Pivots: well-formed trees, and every stored request is owned by exactly one of them.\<close>

definition pivots_inv :: "data_store \<Rightarrow> bool" where
  "pivots_inv ds \<longleftrightarrow>
     omap_ok (ds_site_pivots ds) \<and>
     (\<forall>(k, p) \<in> set (ds_site_pivots ds). pv_name p = k \<and> pivot_ok (store_of ds) p) \<and>
     mset (site_ids ds) = mset (map fst (ds_requests_by_id ds))"

text \<open>Queues hold stored requests only.\<close>

definition queues_inv :: "data_store \<Rightarrow> bool" where
  "queues_inv ds \<longleftrightarrow>
     set (ds_audit_queue ds) \<union> set (ds_crawl_queue ds) \<union> set (ds_probe_queue ds)
       \<subseteq> {1..ds_request_id ds}"

text \<open>
  Issues: what a request lists is what the store holds for its id, no issue twice, nothing for
  unknown ids, and the counter of a type is the number of issues stored of it.
\<close>

definition all_issues :: "data_store \<Rightarrow> issue_type \<Rightarrow> issue_details list" where
  "all_issues ds t = concat (map (\<lambda>(i, m). omap_get [] t m) (ds_issue_per_id ds))"

definition issues_inv :: "data_store \<Rightarrow> bool" where
  "issues_inv ds \<longleftrightarrow>
     omap_ok (ds_issue_per_id ds) \<and>
     fst ` set (ds_issue_per_id ds) \<subseteq> {1..ds_request_id ds} \<and>
     (\<forall>i r t. store_of ds i = Some r \<longrightarrow> omap_get [] t (rq_issues r) = issues_at ds i t) \<and>
     (\<forall>i t. distinct (issues_at ds i t) \<and> (\<forall>e \<in> set (issues_at ds i t). issue_type_of e = t)) \<and>
     (\<forall>t. omap_get 0 t (ds_check_issue_counters ds) = int (length (all_issues ds t)))"

definition ds_inv :: "data_store \<Rightarrow> bool" where
  "ds_inv ds \<longleftrightarrow> ids_inv ds \<and> pivots_inv ds \<and> queues_inv ds \<and> issues_inv ds"

text \<open>
  What a holder of a stored request's pointer may change: everything but its id, its issues
  and what \<open>Request::Equals\<close> and the host check look at.
\<close>

definition same_identity :: "request \<Rightarrow> request \<Rightarrow> bool" where
  "same_identity r r' \<longleftrightarrow> rq_id r' = rq_id r \<and> rq_issues r' = rq_issues r \<and>
     request_key r' = request_key r \<and> host r' = host r"

inductive ds_step :: "externals \<Rightarrow> flags \<Rightarrow> data_store \<Rightarrow> data_store \<Rightarrow> bool" for L F where
  host: "ds_step L F ds (AddHost h ds)"
| black: "ds_step L F ds (snd (AddBlacklistRegex L re ds))"
| white: "ds_step L F ds (snd (AddWhitelistRegex L re ds))"
| request: "rq_issues req = [] \<Longrightarrow> ds_step L F ds (snd (AddRequest L F req ds))"
| issue: "ds_step L F ds (snd (AddIssueDetails L F i iss ds))"
| meta: "ds_step L F ds (snd (AddRequestMetadata i m v ds))"
| fingerprint: "AddResponseFingerprintToRequest i fp ds = Inr (ok, ds') \<Longrightarrow> ds_step L F ds ds'"
| not_found: "ds_step L F ds (AddFileNotFoundHtmlFingerprint fp ds)"
| update: "GetRequestById i ds = Some r \<Longrightarrow> same_identity r r' \<Longrightarrow>
    ds_step L F ds (put_request i r' ds)"
| audit: "GetRequestById i ds \<noteq> None \<Longrightarrow> ds_step L F ds (AddRequestToAuditQueue i ds)"
| crawl: "GetRequestById i ds \<noteq> None \<Longrightarrow> ds_step L F ds (AddRequestToCrawlQueue i ds)"
| probe: "GetRequestById i ds \<noteq> None \<Longrightarrow> ds_step L F ds (AddRequestToProbeQueue i ds)"
| pop_audit: "ds_step L F ds (snd (GetRequestFromAuditQueue ds))"
| pop_crawl: "ds_step L F ds (snd (GetRequestFromCrawlQueue ds))"
| pop_probe: "ds_step L F ds (snd (GetRequestFromProbeQueue ds))"

inductive ds_reachable :: "externals \<Rightarrow> flags \<Rightarrow> data_store \<Rightarrow> bool" for L F where
  init: "ds_reachable L F DataStore"
| step: "ds_reachable L F ds \<Longrightarrow> ds_step L F ds ds' \<Longrightarrow> ds_reachable L F ds'"

section \<open>Lemmas: adding requests\<close>

lemma omap_set_emplace [simp]: "omap_set k v (omap_emplace k v' m) = omap_set k v m"
  by (auto simp: omap_emplace_def split: option.split)

lemma omap_get_emplace: "omap_get d k (omap_emplace k d m) = omap_get d k m"
  by (auto simp: omap_get_def omap_emplace_def split: option.splits)

lemma AddRequestToPivot_alt:
  "AddRequestToPivot F req ds =
     (let name = host req;
          (ok, site') = add_at_path F (store_of ds) (ds_request_id ds + 1) req
             (map field_value (hr_path (rq_proto req)))
             (omap_get (Pivot_name F name) name (ds_site_pivots ds));
          ds1 = ds\<lparr>ds_site_pivots := omap_set name site' (ds_site_pivots ds)\<rparr>
      in if ok then AddRequestToIdMap req ds1 else (kInvalidId, ds1))"
  by (simp add: AddRequestToPivot_def omap_get_emplace GetRequestById_def Let_def split_beta)

lemma AddRequestToIdMap_alt:
  "AddRequestToIdMap req ds =
     (ds_request_id ds + 1,
      ds\<lparr>ds_request_id := ds_request_id ds + 1,
         ds_requests_by_id := omap_set (ds_request_id ds + 1) (req\<lparr>rq_id := ds_request_id ds + 1\<rparr>)
           (ds_requests_by_id ds),
         ds_probe_queue := ds_probe_queue ds @ [ds_request_id ds + 1]\<rparr>)"
  by (simp add: AddRequestToIdMap_def put_request_def AddRequestToProbeQueue_def Let_def)

text \<open>What \<open>AddRequest\<close> does, by its two outcomes.\<close>

definition in_scope :: "externals \<Rightarrow> request \<Rightarrow> data_store \<Rightarrow> bool" where
  "in_scope L req ds \<longleftrightarrow>
     host req \<in> set (ds_allowed_hosts ds) \<and>
     (\<forall>re \<in> set (ds_url_whitelist_regexes ds). PartialMatch L (rq_url req) re) \<and>
     (\<forall>re \<in> set (ds_url_blacklist_regexes ds). \<not> PartialMatch L (rq_url req) re) \<and>
     url_is_valid req"

definition pivot_takes :: "flags \<Rightarrow> request \<Rightarrow> data_store \<Rightarrow> bool" where
  "pivot_takes F req ds \<longleftrightarrow>
     fst (add_at_path F (store_of ds) (ds_request_id ds + 1) req
       (map field_value (hr_path (rq_proto req)))
       (omap_get (Pivot_name F (host req)) (host req) (ds_site_pivots ds)))"

lemma AddRequest_scope:
  "AddRequest L F req ds = (if in_scope L req ds then AddRequestToPivot F req ds else (kInvalidId, ds))"
  by (auto simp: AddRequest_def in_scope_def list_ex_iff)

lemma new_id_fresh: "ids_inv ds \<Longrightarrow> store_of ds (ds_request_id ds + 1) = None"
  by (auto simp: ids_inv_def map_of_eq_None_iff)

lemma store_of_ids: "ids_inv ds \<Longrightarrow> store_of ds i \<noteq> None \<longleftrightarrow> i \<in> {1..ds_request_id ds}"
  using map_of_eq_None_iff [of "ds_requests_by_id ds" i] by (auto simp: ids_inv_def)

lemma site_ids_stored:
  assumes "ids_inv ds" "pivots_inv ds" "(k, p) \<in> set (ds_site_pivots ds)" "i \<in> set (pivot_ids p)"
  shows "store_of ds i \<noteq> None"
proof -
  have "i \<in> set (site_ids ds)" using assms(3,4) by (force simp: site_ids_def)
  moreover have "set (site_ids ds) = set (map fst (ds_requests_by_id ds))"
    using assms(2) by (metis pivots_inv_def set_mset_mset)
  ultimately show ?thesis by (simp add: map_of_eq_None_iff)
qed

lemma omap_set_append_new:
  assumes "omap_ok m" "\<forall>x \<in> fst ` set m. x < k"
  shows "omap_set k v m = m @ [(k, v)]"
  using assms by (induction m) (auto simp: omap_ok_def)

text \<open>The site tree after the walk, with the new request in the store or not.\<close>

lemma site_walk:
  assumes "ids_inv ds" "pivots_inv ds"
    "add_at_path F (store_of ds) (ds_request_id ds + 1) req vs
       (omap_get (Pivot_name F name) name (ds_site_pivots ds)) = (ok, site')"
  shows "pv_name site' = name"
    "pivot_ok ((store_of ds)(ds_request_id ds + 1 \<mapsto> req)) site'"
    "mset (concat (map (\<lambda>(k, p). pivot_ids p) (omap_set name site' (ds_site_pivots ds)))) =
       mset (site_ids ds) + (if ok then {#ds_request_id ds + 1#} else {#})"
proof -
  let ?m = "ds_site_pivots ds" and ?n = "ds_request_id ds + 1"
  define site where "site = omap_get (Pivot_name F name) name ?m"
  have w: "add_at_path F (store_of ds) ?n req vs site = (ok, site')"
    using assms(3) by (simp add: site_def)
  have site: "pivot_ok (store_of ds) site" "pv_name site = name"
    "\<forall>i \<in> set (pivot_ids site). store_of ds i \<noteq> None"
    using assms(2) site_ids_stored [OF assms(1,2)]
    by (auto simp: site_def omap_get_def pivots_inv_def split: option.splits dest!: map_of_SomeD)
  show "pv_name site' = name" using add_at_path_fields [OF w] site(2) by blast
  show "pivot_ok ((store_of ds)(?n \<mapsto> req)) site'"
    by (rule add_at_path_ok [OF w site(1) new_id_fresh [OF assms(1)] site(3)])
  note ids = add_at_path_ids [OF w site(1)]
  show "mset (concat (map (\<lambda>(k, p). pivot_ids p) (omap_set name site' ?m))) =
      mset (site_ids ds) + (if ok then {#?n#} else {#})"
  proof (cases "map_of ?m name")
    case None
    then show ?thesis using ids by (simp add: site_def omap_get_def mset_omap_new site_ids_def)
  next
    case (Some p)
    then have "p = site" by (simp add: site_def omap_get_def)
    then show ?thesis
      using ids mset_omap_set [of ?m name p "\<lambda>(k, p). pivot_ids p" site'] Some assms(2)
      by (auto simp: site_ids_def pivots_inv_def)
  qed
qed

lemma pivots_stored_cong:
  assumes "ids_inv ds" "pivots_inv ds" "(k, p) \<in> set (ds_site_pivots ds)"
    "\<forall>i. store_of ds i \<noteq> None \<longrightarrow>
       map_option request_key (st i) = map_option request_key (store_of ds i)"
  shows "pivot_ok st p"
proof -
  have "same_keys (store_of ds) st (set (pivot_ids p))"
    using assms(4) site_ids_stored [OF assms(1-3)] by (auto simp: same_keys_def)
  then show ?thesis using pivot_ok_cong assms(2,3) by (fastforce simp: pivots_inv_def)
qed

lemma request_key_id [simp]: "request_key (r\<lparr>rq_id := i\<rparr>) = request_key r"
  by (simp add: request_key_def)

lemma host_id [simp]: "host (r\<lparr>rq_id := i\<rparr>) = host r"
  by (simp add: host_def split: option.split)

lemma AddRequestToPivot_pivots_inv:
  assumes "ids_inv ds" "pivots_inv ds"
  shows "pivots_inv (snd (AddRequestToPivot F req ds))"
proof -
  let ?name = "host req" and ?n = "ds_request_id ds + 1"
  obtain ok site' where w: "add_at_path F (store_of ds) ?n req (map field_value (hr_path (rq_proto req)))
       (omap_get (Pivot_name F ?name) ?name (ds_site_pivots ds)) = (ok, site')" by force
  note sw = site_walk [OF assms w]
  have old: "\<forall>x \<in> fst ` set (ds_requests_by_id ds). x < ?n" "omap_ok (ds_requests_by_id ds)"
    using assms(1) by (auto simp: ids_inv_def)
  define st where "st = (if ok then (store_of ds)(?n \<mapsto> req\<lparr>rq_id := ?n\<rparr>) else store_of ds)"
  have st_old: "\<forall>i. store_of ds i \<noteq> None \<longrightarrow>
      map_option request_key (st i) = map_option request_key (store_of ds i)"
    using new_id_fresh [OF assms(1)] by (auto simp: st_def)
  have n_out: "?n \<notin> set (pivot_ids site')" if "\<not> ok"
  proof -
    have "(?name, site') \<in> set (omap_set ?name site' (ds_site_pivots ds))"
      by (rule map_of_SomeD) simp
    then have "set (pivot_ids site') \<subseteq> set (concat (map (\<lambda>(k, p). pivot_ids p) (omap_set ?name site' (ds_site_pivots ds))))"
      by fastforce
    also have "\<dots> = set (site_ids ds)" using sw(3) that by (metis add_0_right set_mset_mset)
    also have "\<dots> = fst ` set (ds_requests_by_id ds)"
      using assms(2) by (metis list.set_map pivots_inv_def set_mset_mset)
    finally show ?thesis using old(1) by blast
  qed
  have "same_keys ((store_of ds)(?n \<mapsto> req)) st (set (pivot_ids site'))"
    using n_out by (auto simp: same_keys_def st_def)
  then have site': "pivot_ok st site'" using pivot_ok_cong sw(2) by blast
  have pv: "pv_name p = k \<and> pivot_ok st p"
    if "(k, p) \<in> set (omap_set ?name site' (ds_site_pivots ds))" for k p
    using that set_omap_set [of ?name site' "ds_site_pivots ds"] site' sw(1) assms(2)
      pivots_stored_cong [OF assms _ st_old]
    by (auto simp: pivots_inv_def)
  have "image_mset fst (mset (omap_set ?n v (ds_requests_by_id ds))) =
      add_mset ?n (image_mset fst (mset (ds_requests_by_id ds)))" for v
    by (simp add: omap_set_append_new [OF old(2,1)])
  then show ?thesis
    using assms(2) pv sw(3)
    by (auto simp: AddRequestToPivot_alt AddRequestToIdMap_alt w Let_def pivots_inv_def site_ids_def
        st_def simp del: fun_upd_apply split: if_splits)
qed

lemma AddRequestToPivot_ids_inv:
  assumes "ids_inv ds" "host req \<in> set (ds_allowed_hosts ds)"
  shows "ids_inv (snd (AddRequestToPivot F req ds))"
proof -
  let ?n = "ds_request_id ds + 1"
  have "{1..?n} = insert ?n {1..ds_request_id ds}" using assms(1) by (auto simp: ids_inv_def)
  then show ?thesis
    using assms set_omap_set [of ?n "req\<lparr>rq_id := ?n\<rparr>" "ds_requests_by_id ds"]
    by (auto simp: AddRequestToPivot_alt AddRequestToIdMap_alt Let_def ids_inv_def keys_omap_set
        split_beta split: if_splits)
qed

section \<open>Lemmas: issues\<close>

lemma omap_get_emplace_Nil [simp]: "omap_get [] k (omap_emplace k' [] m) = omap_get [] k m"
  by (auto simp: omap_get_def omap_emplace_def split: option.splits)

lemma issues_at_touch [simp]: "issues_at (touch_issue_entry i t ds) j u = issues_at ds j u"
  by (auto simp: issues_at_def touch_issue_entry_def omap_get_set split: option.split)
    (auto simp: omap_get_def)

lemma touch_frame [simp, frame_simps]:
  "ds_requests_by_id (touch_issue_entry i t ds) = ds_requests_by_id ds"
  "ds_request_id (touch_issue_entry i t ds) = ds_request_id ds"
  "ds_check_issue_counters (touch_issue_entry i t ds) = ds_check_issue_counters ds"
  "ds_allowed_hosts (touch_issue_entry i t ds) = ds_allowed_hosts ds"
  "ds_site_pivots (touch_issue_entry i t ds) = ds_site_pivots ds"
  "ds_audit_queue (touch_issue_entry i t ds) = ds_audit_queue ds"
  "ds_crawl_queue (touch_issue_entry i t ds) = ds_crawl_queue ds"
  "ds_probe_queue (touch_issue_entry i t ds) = ds_probe_queue ds"
  "ds_issue_count_per_severity (touch_issue_entry i t ds) = ds_issue_count_per_severity ds"
  by (simp_all add: touch_issue_entry_def split: option.split)

lemma all_issues_touch:
  assumes "omap_ok (ds_issue_per_id ds)"
  shows "mset (all_issues (touch_issue_entry i t ds) u) = mset (all_issues ds u)"
proof (cases "map_of (ds_issue_per_id ds) i")
  case (Some m)
  then show ?thesis
    using mset_omap_set [OF assms Some, of "\<lambda>(i, m). omap_get [] u m" "omap_emplace t [] m"]
    by (simp add: touch_issue_entry_def all_issues_def)
qed (simp add: touch_issue_entry_def)

lemma keys_touch:
  "fst ` set (ds_issue_per_id (touch_issue_entry i t ds)) = fst ` set (ds_issue_per_id ds)"
  using map_of_eq_None_iff [of "ds_issue_per_id ds" i]
  by (auto simp: touch_issue_entry_def keys_omap_set split: option.split)

lemma omap_ok_touch: "omap_ok (ds_issue_per_id ds) \<Longrightarrow> omap_ok (ds_issue_per_id (touch_issue_entry i t ds))"
  by (simp add: touch_issue_entry_def split: option.split)

text \<open>A refused issue changes nothing but that empty entry.\<close>

lemma AddIssueDetails_False:
  "AddIssueDetails L F i iss ds = (False, ds') \<Longrightarrow>
     ds' = ds \<or> ds' = touch_issue_entry i (issue_type_of iss) ds"
  by (auto simp: AddIssueDetails_def CheckAndUpdateIssueCounters_def Let_def
      split: option.splits if_splits)

definition counter_bumped :: "issue_type \<Rightarrow> data_store \<Rightarrow> (issue_type, int) omap" where
  "counter_bumped t ds = omap_set t (omap_get 0 t (ds_check_issue_counters ds) + 1) (ds_check_issue_counters ds)"

text \<open>An accepted issue passes every check, and is written to the request, the id map and the
  counters.\<close>

lemma AddIssueDetails_True:
  assumes "AddIssueDetails L F i iss ds = (True, ds')"
  shows "\<exists>req. store_of ds i = Some req \<and>
     length (rq_issues req) \<noteq> size_of_int (fl_max_issues_per_url F) \<and>
     \<not> list_ex (\<lambda>e. MessageEquals L e iss) (issues_at ds i (issue_type_of iss)) \<and>
     (map_of (ds_issue_per_id ds) i \<noteq> None \<longrightarrow> length (issues_at ds i (issue_type_of iss)) \<noteq>
        size_of_int (fl_max_issues_per_check_per_url F)) \<and>
     (map_of (ds_check_issue_counters ds) (issue_type_of iss) \<noteq> Some (fl_max_issues_per_check F)) \<and>
     ds' = store_issue i iss (put_request i (request_AddIssue iss req)
        (count_severity (issue_severity_of iss) ((touch_issue_entry i (issue_type_of iss) ds)
          \<lparr>ds_check_issue_counters := counter_bumped (issue_type_of iss) ds\<rparr>)))"
  using assms
  by (auto simp: AddIssueDetails_def CheckAndUpdateIssueCounters_def Let_def GetRequestById_def
      counter_bumped_def omap_get_def split: option.splits if_splits)

lemma put_issue_frame [simp, frame_simps]:
  "ds_issue_per_id (put_request i r ds) = ds_issue_per_id ds"
  "ds_issue_per_id (count_severity s ds) = ds_issue_per_id ds"
  "ds_check_issue_counters (put_request i r ds) = ds_check_issue_counters ds"
  "ds_check_issue_counters (count_severity s ds) = ds_check_issue_counters ds"
  "ds_check_issue_counters (store_issue i iss ds) = ds_check_issue_counters ds"
  "ds_requests_by_id (count_severity s ds) = ds_requests_by_id ds"
  "ds_requests_by_id (store_issue i iss ds) = ds_requests_by_id ds"
  "ds_requests_by_id (put_request i r ds) = omap_set i r (ds_requests_by_id ds)"
  "ds_request_id (put_request i r ds) = ds_request_id ds"
  "ds_request_id (count_severity s ds) = ds_request_id ds"
  "ds_request_id (store_issue i iss ds) = ds_request_id ds"
  "ds_allowed_hosts (put_request i r ds) = ds_allowed_hosts ds"
  "ds_allowed_hosts (count_severity s ds) = ds_allowed_hosts ds"
  "ds_allowed_hosts (store_issue i iss ds) = ds_allowed_hosts ds"
  "ds_site_pivots (put_request i r ds) = ds_site_pivots ds"
  "ds_site_pivots (count_severity s ds) = ds_site_pivots ds"
  "ds_site_pivots (store_issue i iss ds) = ds_site_pivots ds"
  "ds_audit_queue (put_request i r ds) = ds_audit_queue ds"
  "ds_audit_queue (count_severity s ds) = ds_audit_queue ds"
  "ds_audit_queue (store_issue i iss ds) = ds_audit_queue ds"
  "ds_crawl_queue (put_request i r ds) = ds_crawl_queue ds"
  "ds_crawl_queue (count_severity s ds) = ds_crawl_queue ds"
  "ds_crawl_queue (store_issue i iss ds) = ds_crawl_queue ds"
  "ds_probe_queue (put_request i r ds) = ds_probe_queue ds"
  "ds_probe_queue (count_severity s ds) = ds_probe_queue ds"
  "ds_probe_queue (store_issue i iss ds) = ds_probe_queue ds"
  by (simp_all add: put_request_def count_severity_def store_issue_def Let_def)

lemma issues_at_store:
  "issues_at (store_issue i iss ds) j u =
     (if j = i \<and> u = issue_type_of iss then issues_at ds i u @ [iss] else issues_at ds j u)"
  by (auto simp: issues_at_def store_issue_def Let_def omap_get_set)

lemma all_issues_store:
  assumes "omap_ok (ds_issue_per_id ds)"
  shows "length (all_issues (store_issue i iss ds) u) =
     length (all_issues ds u) + (if u = issue_type_of iss then 1 else 0)"
proof -
  let ?f = "\<lambda>(i, m). omap_get [] u m" and ?t = "issue_type_of iss"
  let ?m = "omap_get [] i (ds_issue_per_id ds)"
  let ?m' = "omap_set ?t (omap_get [] ?t ?m @ [iss]) ?m"
  have "mset (concat (map ?f (omap_set i ?m' (ds_issue_per_id ds)))) + mset (?f (i, ?m)) =
      mset (concat (map ?f (ds_issue_per_id ds))) + mset (?f (i, ?m'))"
  proof (cases "map_of (ds_issue_per_id ds) i")
    case None
    then have "?m = []" by (simp add: omap_get_def)
    then show ?thesis using mset_omap_new [OF None, of ?f] by (simp add: omap_get_def)
  next
    case (Some m)
    then have "?m = m" by (simp add: omap_get_def)
    then show ?thesis using mset_omap_set [OF assms Some, of ?f] by simp
  qed
  from arg_cong [OF this, of size] show ?thesis
    by (auto simp: all_issues_def store_issue_def Let_def size_mset omap_get_set split: if_splits)
qed

lemma issues_of_AddIssue:
  "omap_get [] t (rq_issues (request_AddIssue iss req)) =
     omap_get [] t (rq_issues req) @ (if t = issue_type_of iss then [iss] else [])"
  by (simp add: request_AddIssue_def omap_get_set)

lemma store_keys:
  assumes "ids_inv ds" "store_of ds i \<noteq> None"
  shows "fst ` set (omap_set i r (ds_requests_by_id ds)) = {1..ds_request_id ds}"
proof -
  have "i \<in> fst ` set (ds_requests_by_id ds)" using assms(2) by (simp add: map_of_eq_None_iff)
  then show ?thesis using assms(1) by (auto simp: keys_omap_set ids_inv_def)
qed

text \<open>Writing a request back under its id, with its identity kept.\<close>

lemma put_request_ids_inv:
  assumes "ids_inv ds" "store_of ds i = Some r" "rq_id r' = rq_id r" "host r' = host r"
  shows "ids_inv (put_request i r' ds)"
proof -
  have "rq_id r = i" "host r \<in> set (ds_allowed_hosts ds)"
    using assms(1,2) by (auto simp: ids_inv_def dest: map_of_SomeD)
  then show ?thesis
    using assms store_keys [OF assms(1), of i r'] set_omap_set [of i r' "ds_requests_by_id ds"]
    by (auto simp: ids_inv_def)
qed

lemma put_request_pivots_inv:
  assumes "ids_inv ds" "pivots_inv ds" "store_of ds i = Some r" "request_key r' = request_key r"
  shows "pivots_inv (put_request i r' ds)"
proof -
  have "map fst (omap_set i r' (ds_requests_by_id ds)) = map fst (ds_requests_by_id ds)"
  proof (rule sorted_distinct_set_unique)
    show "sorted (map fst (omap_set i r' (ds_requests_by_id ds)))" "sorted (map fst (ds_requests_by_id ds))"
      "distinct (map fst (omap_set i r' (ds_requests_by_id ds)))" "distinct (map fst (ds_requests_by_id ds))"
      using assms(1) omap_ok_set [of "ds_requests_by_id ds" i r']
      by (auto simp: ids_inv_def omap_ok_def strict_sorted_iff)
    show "set (map fst (omap_set i r' (ds_requests_by_id ds))) = set (map fst (ds_requests_by_id ds))"
      using store_keys [OF assms(1), of i r'] assms(1,3) by (simp add: ids_inv_def)
  qed
  moreover have "pivot_ok (store_of (put_request i r' ds)) p" if "(k, p) \<in> set (ds_site_pivots ds)" for k p
    using assms(3,4) by (intro pivots_stored_cong [OF assms(1,2) that]) auto
  ultimately show ?thesis using assms(2) by (auto simp: pivots_inv_def site_ids_def)
qed

lemma AddIssue_keys [simp]:
  "request_key (request_AddIssue iss req) = request_key req"
  "host (request_AddIssue iss req) = host req" "rq_id (request_AddIssue iss req) = rq_id req"
  by (simp_all add: request_AddIssue_def request_key_def host_def split: option.split)

lemma touch_inv:
  assumes "ds_inv ds"
  shows "ds_inv (touch_issue_entry i t ds)"
proof -
  have "omap_ok (ds_issue_per_id ds)" using assms by (simp add: ds_inv_def issues_inv_def)
  from all_issues_touch [OF this] have "length (all_issues (touch_issue_entry i t ds) u) = length (all_issues ds u)" for u
    by (metis size_mset)
  then show ?thesis using assms
    by (simp add: ds_inv_def ids_inv_def pivots_inv_def queues_inv_def issues_inv_def site_ids_def
        keys_touch omap_ok_touch)
qed

lemma AddIssueDetails_inv:
  assumes "message_law L" "ds_inv ds" "AddIssueDetails L F i iss ds = (ok, ds')"
  shows "ds_inv ds'"
proof (cases ok)
  case False
  then show ?thesis using AddIssueDetails_False [of L F i iss ds ds'] assms touch_inv by auto
next
  case True
  let ?t = "issue_type_of iss"
  obtain req where req: "store_of ds i = Some req"
    and dup: "\<not> list_ex (\<lambda>e. MessageEquals L e iss) (issues_at ds i ?t)"
    and ds': "ds' = store_issue i iss (put_request i (request_AddIssue iss req)
        (count_severity (issue_severity_of iss) ((touch_issue_entry i ?t ds)
          \<lparr>ds_check_issue_counters := counter_bumped ?t ds\<rparr>)))"
    using AddIssueDetails_True [of L F i iss ds ds'] assms(3) True by auto
  have inv: "ids_inv ds" "pivots_inv ds" "queues_inv ds" "issues_inv ds" using assms(2) by (auto simp: ds_inv_def)
  have frame: "ds_requests_by_id ds' = ds_requests_by_id (put_request i (request_AddIssue iss req) ds)"
    "ds_request_id ds' = ds_request_id ds" "ds_allowed_hosts ds' = ds_allowed_hosts ds"
    "ds_site_pivots ds' = ds_site_pivots ds" "ds_audit_queue ds' = ds_audit_queue ds"
    "ds_crawl_queue ds' = ds_crawl_queue ds" "ds_probe_queue ds' = ds_probe_queue ds"
    "ds_check_issue_counters ds' = counter_bumped ?t ds"
    by (simp_all add: ds')
  have "ids_inv ds'"
    using put_request_ids_inv [OF inv(1) req, of "request_AddIssue iss req"] frame
    by (simp add: ids_inv_def)
  moreover have "pivots_inv ds'"
    using put_request_pivots_inv [OF inv(1,2) req, of "request_AddIssue iss req"] frame
    by (simp add: pivots_inv_def site_ids_def)
  moreover have "queues_inv ds'" using inv(3) frame by (simp add: queues_inv_def)
  moreover have "issues_inv ds'"
  proof -
    let ?tds = "touch_issue_entry i ?t ds"
    have ok: "omap_ok (ds_issue_per_id ?tds)" using inv(4) by (simp add: issues_inv_def omap_ok_touch)
    have at: "issues_at ds' j u = (if j = i \<and> u = ?t then issues_at ds i u @ [iss] else issues_at ds j u)" for j u
      by (simp add: ds' issues_at_store)
        (simp add: issues_at_def issues_at_touch [unfolded issues_at_def])
    have "length (all_issues ds' u) = length (all_issues ds u) + (if u = ?t then 1 else 0)" for u
      using all_issues_store [of "put_request i (request_AddIssue iss req)
        (count_severity (issue_severity_of iss) (?tds\<lparr>ds_check_issue_counters := counter_bumped ?t ds\<rparr>))" i iss u]
        ok all_issues_touch [of ds i ?t u, THEN arg_cong, of size] inv(4)
      by (simp add: ds' all_issues_def issues_inv_def)
    moreover have "fst ` set (ds_issue_per_id ds') \<subseteq> {1..ds_request_id ds}" "omap_ok (ds_issue_per_id ds')"
      using inv(4) store_of_ids [OF inv(1), of i] req ok keys_touch [of i ?t ds]
      by (auto simp: ds' store_issue_def Let_def keys_omap_set issues_inv_def)
    moreover have "iss \<notin> set (issues_at ds i ?t)"
      using dup assms(1) by (auto simp: list_ex_iff message_law_def)
    ultimately show ?thesis using inv(4) req
      by (auto simp: issues_inv_def at frame counter_bumped_def omap_get_set issues_of_AddIssue)
  qed
  ultimately show ?thesis by (simp add: ds_inv_def)
qed

section \<open>Lemmas: every step keeps the invariant\<close>

lemma ds_inv_init: "ds_inv DataStore"
  by (simp add: ds_inv_def ids_inv_def pivots_inv_def queues_inv_def issues_inv_def DataStore_def
      site_ids_def issues_at_def all_issues_def omap_get_def)

text \<open>The invariant does not look at these fields.\<close>

lemma ds_inv_frame:
  assumes "ds_inv ds" "ds_requests_by_id ds' = ds_requests_by_id ds" "ds_request_id ds' = ds_request_id ds"
    "set (ds_allowed_hosts ds) \<subseteq> set (ds_allowed_hosts ds')" "ds_site_pivots ds' = ds_site_pivots ds"
    "ds_issue_per_id ds' = ds_issue_per_id ds" "ds_check_issue_counters ds' = ds_check_issue_counters ds"
    "set (ds_audit_queue ds') \<subseteq> {1..ds_request_id ds}" "set (ds_crawl_queue ds') \<subseteq> {1..ds_request_id ds}"
    "set (ds_probe_queue ds') \<subseteq> {1..ds_request_id ds}"
  shows "ds_inv ds'"
  using assms
  by (auto simp: ds_inv_def ids_inv_def pivots_inv_def queues_inv_def issues_inv_def site_ids_def
      issues_at_def all_issues_def)

lemma ds_inv_queues:
  assumes "ds_inv ds"
  shows "set (ds_audit_queue ds) \<subseteq> {1..ds_request_id ds}"
    "set (ds_crawl_queue ds) \<subseteq> {1..ds_request_id ds}" "set (ds_probe_queue ds) \<subseteq> {1..ds_request_id ds}"
  using assms by (auto simp: ds_inv_def queues_inv_def)

lemma ds_inv_stored: "ds_inv ds \<Longrightarrow> GetRequestById i ds \<noteq> None \<Longrightarrow> i \<in> {1..ds_request_id ds}"
  using store_of_ids [of ds i] by (simp add: ds_inv_def GetRequestById_def)

lemma put_request_inv:
  assumes "ds_inv ds" "GetRequestById i ds = Some r" "same_identity r r'"
  shows "ds_inv (put_request i r' ds)"
proof -
  have st: "store_of ds i = Some r" using assms(2) by (simp add: GetRequestById_def)
  have inv: "ids_inv ds" "pivots_inv ds" "queues_inv ds" "issues_inv ds" using assms(1) by (auto simp: ds_inv_def)
  have "ids_inv (put_request i r' ds)" "pivots_inv (put_request i r' ds)"
    using assms(3) put_request_ids_inv [OF inv(1) st] put_request_pivots_inv [OF inv(1,2) st]
    by (auto simp: same_identity_def)
  moreover have "issues_inv (put_request i r' ds)"
    using inv(4) st assms(3) by (auto simp: issues_inv_def same_identity_def issues_at_def all_issues_def)
  ultimately show ?thesis using inv(3) by (simp add: ds_inv_def queues_inv_def)
qed

lemma AddRequest_inv:
  assumes "ds_inv ds" "rq_issues req = []"
  shows "ds_inv (snd (AddRequest L F req ds))"
proof (cases "in_scope L req ds")
  case True
  let ?ds' = "snd (AddRequestToPivot F req ds)" and ?n = "ds_request_id ds + 1"
  have inv: "ids_inv ds" "pivots_inv ds" "queues_inv ds" "issues_inv ds" using assms(1) by (auto simp: ds_inv_def)
  have fresh: "issues_at ds ?n t = []" for t
  proof -
    have "?n \<notin> fst ` set (ds_issue_per_id ds)" using inv(4) by (auto simp: issues_inv_def)
    then have "map_of (ds_issue_per_id ds) ?n = None" by (simp add: map_of_eq_None_iff)
    then show ?thesis by (simp add: issues_at_def omap_get_def)
  qed
  have "host req \<in> set (ds_allowed_hosts ds)" using True by (simp add: in_scope_def)
  then have "ids_inv ?ds'" "pivots_inv ?ds'"
    by (simp_all add: AddRequestToPivot_ids_inv AddRequestToPivot_pivots_inv inv)
  moreover have "queues_inv ?ds'"
    using inv(1,3) by (auto simp: AddRequestToPivot_alt AddRequestToIdMap_alt Let_def split_beta
        queues_inv_def ids_inv_def)
  moreover have "issues_inv ?ds'"
    using inv(4) assms(2) fresh
    by (auto simp: AddRequestToPivot_alt AddRequestToIdMap_alt Let_def split_beta issues_inv_def
        issues_at_def all_issues_def omap_get_def split: option.splits)
  ultimately show ?thesis using True by (simp add: AddRequest_scope ds_inv_def)
qed (simp add: AddRequest_scope assms)

lemma set_response_html_fingerprint_identity:
  "set_response_html_fingerprint fp r = Inr r' \<Longrightarrow> same_identity r r'"
  by (auto simp: set_response_html_fingerprint_def same_identity_def request_key_def host_def
      split: option.splits)

lemma ds_step_inv:
  assumes "ds_step L F ds ds'" "message_law L" "ds_inv ds"
  shows "ds_inv ds'"
  using assms(1)
proof cases
  case (request req)
  then show ?thesis using AddRequest_inv assms(3) by blast
next
  case (issue i iss)
  then show ?thesis using AddIssueDetails_inv [OF assms(2,3)] by (metis prod.collapse)
next
  case (fingerprint i fp ok)
  then show ?thesis using assms(3) put_request_inv set_response_html_fingerprint_identity
    by (auto simp: AddResponseFingerprintToRequest_def and_then_eq_Inr split: option.splits)
next
  case (update i r r')
  then show ?thesis using put_request_inv assms(3) by blast
next
  case (audit i)
  then show ?thesis using assms(3) ds_inv_queues [OF assms(3)] ds_inv_stored [OF assms(3), of i]
    by (intro ds_inv_frame [OF assms(3)]) (auto simp: AddRequestToAuditQueue_def)
next
  case (crawl i)
  then show ?thesis using assms(3) ds_inv_queues [OF assms(3)] ds_inv_stored [OF assms(3), of i]
    by (intro ds_inv_frame [OF assms(3)]) (auto simp: AddRequestToCrawlQueue_def)
next
  case (probe i)
  then show ?thesis using assms(3) ds_inv_queues [OF assms(3)] ds_inv_stored [OF assms(3), of i]
    by (intro ds_inv_frame [OF assms(3)]) (auto simp: AddRequestToProbeQueue_def)
qed (use ds_inv_queues [OF assms(3)] in \<open>auto intro!: ds_inv_frame [OF assms(3)]
      simp: AddHost_def AddBlacklistRegex_def AddWhitelistRegex_def AddRequestMetadata_def Let_def
        AddFileNotFoundHtmlFingerprint_def GetRequestFromAuditQueue_def GetRequestFromCrawlQueue_def
        GetRequestFromProbeQueue_def split: list.splits\<close>)

lemma ds_reachable_inv: "ds_reachable L F ds \<Longrightarrow> message_law L \<Longrightarrow> ds_inv ds"
  by (induction rule: ds_reachable.induct) (auto intro: ds_inv_init ds_step_inv)

section \<open>The queue interface\<close>

fun pop_many :: "(data_store \<Rightarrow> int option \<times> data_store) \<Rightarrow> nat \<Rightarrow> data_store \<Rightarrow> int option list" where
  "pop_many pop 0 ds = []"
| "pop_many pop (Suc n) ds = fst (pop ds) # pop_many pop n (snd (pop ds))"

text \<open>What crawler, auditor and prober rely on, for each of the three queues.\<close>

locale request_queue =
  fixes push :: "int \<Rightarrow> data_store \<Rightarrow> data_store"
    and pop :: "data_store \<Rightarrow> int option \<times> data_store"
    and content :: "data_store \<Rightarrow> int list"
  assumes content_push: "content (push i ds) = content ds @ [i]"
    and pop_empty: "content ds = [] \<Longrightarrow> pop ds = (None, ds)"
    and pop_first: "content ds = i # q \<Longrightarrow> fst (pop ds) = Some i \<and> content (snd (pop ds)) = q"
begin

lemma content_pushes: "content (fold push is ds) = content ds @ is"
  by (induction "is" arbitrary: ds) (simp_all add: content_push)

lemma pop_many_content:
  "pop_many pop n ds =
     map Some (take n (content ds)) @ replicate (n - length (content ds)) None"
proof (induction n arbitrary: ds)
  case (Suc n)
  show ?case
  proof (cases "content ds")
    case Nil
    then show ?thesis using Suc [of ds] pop_empty [OF Nil] by simp
  next
    case (Cons i q)
    then show ?thesis using Suc [of "snd (pop ds)"] pop_first [OF Cons] by simp
  qed
qed simp

lemma fifo:
  "pop_many pop n (fold push is ds) = map Some (take n (content ds @ is)) @
     replicate (n - length (content ds @ is)) None"
  by (simp add: pop_many_content content_pushes)

end

interpretation audit_q: request_queue AddRequestToAuditQueue GetRequestFromAuditQueue ds_audit_queue
  by unfold_locales (auto simp: AddRequestToAuditQueue_def GetRequestFromAuditQueue_def)

interpretation crawl_q: request_queue AddRequestToCrawlQueue GetRequestFromCrawlQueue ds_crawl_queue
  by unfold_locales (auto simp: AddRequestToCrawlQueue_def GetRequestFromCrawlQueue_def)

interpretation probe_q: request_queue AddRequestToProbeQueue GetRequestFromProbeQueue ds_probe_queue
  by unfold_locales (auto simp: AddRequestToProbeQueue_def GetRequestFromProbeQueue_def)

section \<open>Lemmas: issue limits\<close>

definition limits_inv :: "flags \<Rightarrow> data_store \<Rightarrow> bool" where
  "limits_inv F ds \<longleftrightarrow>
     (\<forall>i t. length (issues_at ds i t) \<le> size_of_int (fl_max_issues_per_check_per_url F)) \<and>
     (\<forall>t n. map_of (ds_check_issue_counters ds) t = Some n \<longrightarrow> n \<le> fl_max_issues_per_check F)"

lemma AddIssueDetails_limits:
  assumes "limits_inv F ds" "AddIssueDetails L F i iss ds = (ok, ds')"
    "0 < fl_max_issues_per_check F" "0 < size_of_int (fl_max_issues_per_check_per_url F)"
  shows "limits_inv F ds'"
proof (cases ok)
  case False
  then show ?thesis using AddIssueDetails_False [of L F i iss ds ds'] assms(1,2)
    by (auto simp: limits_inv_def)
next
  case True
  let ?t = "issue_type_of iss"
  obtain req where full: "map_of (ds_issue_per_id ds) i \<noteq> None \<longrightarrow>
        length (issues_at ds i ?t) \<noteq> size_of_int (fl_max_issues_per_check_per_url F)"
    and cnt: "map_of (ds_check_issue_counters ds) ?t \<noteq> Some (fl_max_issues_per_check F)"
    and ds': "ds' = store_issue i iss (put_request i (request_AddIssue iss req)
        (count_severity (issue_severity_of iss) ((touch_issue_entry i ?t ds)
          \<lparr>ds_check_issue_counters := counter_bumped ?t ds\<rparr>)))"
    using AddIssueDetails_True [of L F i iss ds ds'] assms(2) True by auto
  have "issues_at ds' j u = (if j = i \<and> u = ?t then issues_at ds i u @ [iss] else issues_at ds j u)" for j u
    by (simp add: ds' issues_at_store)
      (simp add: issues_at_def issues_at_touch [unfolded issues_at_def])
  moreover have "length (issues_at ds i ?t) < size_of_int (fl_max_issues_per_check_per_url F)"
  proof (cases "map_of (ds_issue_per_id ds) i")
    case None
    then show ?thesis using assms(4) by (simp add: issues_at_def omap_get_def)
  next
    case (Some m)
    then show ?thesis using full assms(1) by (simp add: limits_inv_def le_neq_trans)
  qed
  moreover have "omap_get 0 ?t (ds_check_issue_counters ds) + 1 \<le> fl_max_issues_per_check F"
    using cnt assms(1,3)
    by (cases "map_of (ds_check_issue_counters ds) ?t") (fastforce simp: omap_get_def limits_inv_def)+
  ultimately show ?thesis using assms(1)
    by (auto simp: limits_inv_def ds' counter_bumped_def)
qed

lemma limits_frame:
  "limits_inv F ds \<Longrightarrow> ds_issue_per_id ds' = ds_issue_per_id ds \<Longrightarrow>
     ds_check_issue_counters ds' = ds_check_issue_counters ds \<Longrightarrow> limits_inv F ds'"
  by (simp add: limits_inv_def issues_at_def)

lemma ds_step_limits:
  assumes "ds_step L F ds ds'" "limits_inv F ds"
    "0 < fl_max_issues_per_check F" "0 < size_of_int (fl_max_issues_per_check_per_url F)"
  shows "limits_inv F ds'"
  using assms(1)
proof cases
  case (issue i iss)
  then show ?thesis using AddIssueDetails_limits [OF assms(2) _ assms(3,4)] by (metis prod.collapse)
next
  case (request req)
  then show ?thesis
    by (auto intro!: limits_frame [OF assms(2)] simp: AddRequest_scope AddRequestToPivot_alt
        AddRequestToIdMap_alt Let_def split_beta)
next
  case (fingerprint i fp ok)
  then show ?thesis
    by (auto intro!: limits_frame [OF assms(2)] simp: AddResponseFingerprintToRequest_def
        and_then_eq_Inr split: option.splits)
qed (auto intro!: limits_frame [OF assms(2)]
      simp: AddHost_def AddBlacklistRegex_def AddWhitelistRegex_def AddRequestMetadata_def Let_def
        AddFileNotFoundHtmlFingerprint_def GetRequestFromAuditQueue_def GetRequestFromCrawlQueue_def
        GetRequestFromProbeQueue_def AddRequestToAuditQueue_def AddRequestToCrawlQueue_def
        AddRequestToProbeQueue_def split: list.splits)

lemma ds_reachable_limits:
  "ds_reachable L F ds \<Longrightarrow> 0 < fl_max_issues_per_check F \<Longrightarrow>
     0 < size_of_int (fl_max_issues_per_check_per_url F) \<Longrightarrow> limits_inv F ds"
proof (induction rule: ds_reachable.induct)
  case init
  then show ?case by (simp add: limits_inv_def DataStore_def issues_at_def omap_get_def)
next
  case (step ds ds')
  then show ?case using ds_step_limits by blast
qed

section \<open>A sample scan state\<close>

definition sample_request :: request where
  "sample_request = (case Request_url simple_lib default_flags ''http://a.b/x?k=v'' of
     Inr r \<Rightarrow> r | Inl e \<Rightarrow> Request_empty)"

definition sample_store :: data_store where
  "sample_store = snd (AddRequest simple_lib default_flags sample_request (AddHost ''a.b'' DataStore))"

lemma sample_reachable: "ds_reachable simple_lib default_flags sample_store"
proof -
  have "rq_issues sample_request = []" by code_simp
  then show ?thesis unfolding sample_store_def
    by (intro ds_reachable.step [OF _ ds_step.request] ds_reachable.step [OF _ ds_step.host]
        ds_reachable.init)
qed

lemma sample_stored: "GetRequestById 1 sample_store = Some (sample_request\<lparr>rq_id := 1\<rparr>)"
  by code_simp

section \<open>Properties\<close>

text \<open>
  C12: a request is stored exactly when it is in scope (its host is allowed, its URL valid,
  matched by every whitelist expression and by no blacklist expression) and the pivot its path
  leads to takes it. Then it gets the next id, is found under that id, and is the last entry
  of the probe queue; otherwise the result is \<open>kInvalidId\<close> and no request, id or queue
  changes.
\<close>

theorem AddRequest_outcome:
  "AddRequest L F req ds = (i, ds') \<Longrightarrow>
     (if in_scope L req ds \<and> pivot_takes F req ds
      then i = ds_request_id ds + 1 \<and> ds_request_id ds' = i \<and>
        GetRequestById i ds' = Some (req\<lparr>rq_id := i\<rparr>) \<and>
        (\<forall>j. j \<noteq> i \<longrightarrow> GetRequestById j ds' = GetRequestById j ds) \<and>
        ds_probe_queue ds' = ds_probe_queue ds @ [i]
      else i = kInvalidId \<and> ds_requests_by_id ds' = ds_requests_by_id ds \<and>
        ds_request_id ds' = ds_request_id ds \<and> ds_probe_queue ds' = ds_probe_queue ds)"
  by (auto simp: pivot_takes_def AddRequest_scope AddRequestToPivot_alt AddRequestToIdMap_alt Let_def
      GetRequestById_def split_beta split: if_splits)

theorem AddRequest_outcome_witness:
  "\<exists>ds'. AddRequest simple_lib default_flags sample_request (AddHost ''a.b'' DataStore) = (1, ds') \<and>
     GetRequestById 1 ds' = Some (sample_request\<lparr>rq_id := 1\<rparr>) \<and> ds_probe_queue ds' = [1]"
proof -
  let ?ds = "AddHost ''a.b'' DataStore"
  obtain i ds' where add: "AddRequest simple_lib default_flags sample_request ?ds = (i, ds')" by force
  have "i = fst (AddRequest simple_lib default_flags sample_request ?ds)" using add by simp
  also have "\<dots> = 1" by code_simp
  finally have "i = 1" .
  moreover have "ds_probe_queue ?ds = []" "(1::int) \<noteq> kInvalidId"
    by (simp_all add: AddHost_def DataStore_def kInvalidId_def)
  ultimately show ?thesis using AddRequest_outcome [OF add] add by (metis append_Nil)
qed

text \<open>
  C7: in every state a scan can reach, a stored request carries its own id, its host is in
  scope, it is owned by exactly one pivot of the site trees, and all trees are well-formed:
  limits kept and no two samples of a pivot equal.
\<close>

theorem stored_requests_owned:
  assumes "message_law L" "ds_reachable L F ds" "GetRequestById i ds = Some r"
  shows "rq_id r = i \<and> host r \<in> set (ds_allowed_hosts ds) \<and> count_list (site_ids ds) i = 1 \<and>
     (\<forall>(k, p) \<in> set (ds_site_pivots ds). pivot_ok (\<lambda>j. GetRequestById j ds) p)"
proof -
  have inv: "ids_inv ds" "pivots_inv ds" using ds_reachable_inv assms(1,2) by (auto simp: ds_inv_def)
  have mem: "(i, r) \<in> set (ds_requests_by_id ds)"
    using assms(3) by (auto simp: GetRequestById_def dest: map_of_SomeD)
  have "mset (site_ids ds) = mset (map fst (ds_requests_by_id ds))" using inv(2) by (simp add: pivots_inv_def)
  moreover have "distinct (map fst (ds_requests_by_id ds))"
    using inv(1) by (simp add: ids_inv_def omap_ok_distinct)
  then have "count (mset (map fst (ds_requests_by_id ds))) i = 1"
    using mem by (subst distinct_count_atmost_1 [THEN iffD1, rule_format]) force+
  ultimately have "count_list (site_ids ds) i = 1" by (metis count_mset)
  then show ?thesis using inv mem
    by (auto simp: ids_inv_def pivots_inv_def GetRequestById_def)
qed

theorem stored_requests_owned_witness: "count_list (site_ids sample_store) 1 = 1"
  using stored_requests_owned [OF message_law_simple sample_reachable sample_stored] by simp

text \<open>
  C29: the queues hold stored requests only, and each queue is first in, first out: after
  pushing \<open>is\<close>, popping \<open>n\<close> times returns what was there and then \<open>is\<close>, in order, and
  nothing once it is empty.
\<close>

theorem queues_fifo_stored:
  assumes "message_law L" "ds_reachable L F ds"
  shows "(\<forall>i \<in> set (ds_audit_queue ds @ ds_crawl_queue ds @ ds_probe_queue ds).
       \<exists>r. GetRequestById i ds = Some r) \<and>
     pop_many GetRequestFromAuditQueue n (fold AddRequestToAuditQueue is ds) =
       map Some (take n (ds_audit_queue ds @ is)) @ replicate (n - length (ds_audit_queue ds @ is)) None \<and>
     pop_many GetRequestFromCrawlQueue n (fold AddRequestToCrawlQueue is ds) =
       map Some (take n (ds_crawl_queue ds @ is)) @ replicate (n - length (ds_crawl_queue ds @ is)) None \<and>
     pop_many GetRequestFromProbeQueue n (fold AddRequestToProbeQueue is ds) =
       map Some (take n (ds_probe_queue ds @ is)) @ replicate (n - length (ds_probe_queue ds @ is)) None"
proof -
  have inv: "ds_inv ds" using ds_reachable_inv [OF assms(2,1)] .
  then have "\<exists>r. GetRequestById i ds = Some r"
    if "i \<in> set (ds_audit_queue ds @ ds_crawl_queue ds @ ds_probe_queue ds)" for i
    using that ds_inv_queues [OF inv] store_of_ids [of ds i] by (auto simp: ds_inv_def GetRequestById_def)
  then show ?thesis using audit_q.fifo crawl_q.fifo probe_q.fifo by blast
qed

theorem queues_fifo_stored_witness:
  "pop_many GetRequestFromProbeQueue 3 (fold AddRequestToProbeQueue [1] sample_store) = [Some 1, Some 1, None]"
proof -
  have "ds_probe_queue sample_store = [1]" by code_simp
  then show ?thesis
    using queues_fifo_stored [OF message_law_simple sample_reachable, of 3 "[1]"]
    by (simp add: eval_nat_numeral)
qed

text \<open>
  C8: in every reachable state the issues a request lists are those stored under its id, no
  issue is stored twice, each is filed under its own type, and the counter of a type is the
  number of issues stored of that type in the whole scan.
\<close>

theorem issues_consistent:
  assumes "message_law L" "ds_reachable L F ds"
  shows "(\<forall>i r. GetRequestById i ds = Some r \<longrightarrow> omap_get [] t (rq_issues r) = issues_at ds i t) \<and>
     (\<forall>i. distinct (issues_at ds i t)) \<and>
     (\<forall>i. \<forall>e \<in> set (issues_at ds i t). issue_type_of e = t) \<and>
     omap_get 0 t (ds_check_issue_counters ds) = int (length (all_issues ds t))"
  using ds_reachable_inv [OF assms(2,1)] by (auto simp: ds_inv_def issues_inv_def GetRequestById_def)

text \<open>The sample store after one issue.\<close>

definition sample_issue_store :: data_store where
  "sample_issue_store =
     snd (AddIssue simple_lib default_flags 1 SQL_INJECTION HIGH sample_request sample_store)"

lemma sample_issue_reachable: "ds_reachable simple_lib default_flags sample_issue_store"
  unfolding sample_issue_store_def AddIssue_def
  by (intro ds_reachable.step [OF sample_reachable ds_step.issue])

theorem issues_consistent_witness:
  "length (all_issues sample_issue_store SQL_INJECTION) = 1"
proof -
  have "omap_get 0 SQL_INJECTION (ds_check_issue_counters sample_issue_store) = 1" by code_simp
  then show ?thesis
    using issues_consistent [OF message_law_simple sample_issue_reachable, of SQL_INJECTION] by simp
qed

text \<open>
  C30: positive limits are kept in every reachable state: at most \<open>max_issues_per_check_per_url\<close>
  issues of one type for one request, and at most \<open>max_issues_per_check\<close> issues of one type
  in the scan.
\<close>

theorem issue_limits:
  assumes "message_law L" "ds_reachable L F ds" "0 < fl_max_issues_per_check F"
    "0 < fl_max_issues_per_check_per_url F" "fl_max_issues_per_check_per_url F < 2 ^ 31"
  shows "int (length (issues_at ds i t)) \<le> fl_max_issues_per_check_per_url F \<and>
     int (length (all_issues ds t)) \<le> fl_max_issues_per_check F"
proof -
  have sz: "size_of_int (fl_max_issues_per_check_per_url F) = nat (fl_max_issues_per_check_per_url F)"
    using assms(4,5) by (intro size_of_int_small) auto
  then have lim: "limits_inv F ds" using assms ds_reachable_limits by simp
  have "int (length (all_issues ds t)) = omap_get 0 t (ds_check_issue_counters ds)"
    using ds_reachable_inv [OF assms(2,1)] by (simp add: ds_inv_def issues_inv_def)
  also have "\<dots> \<le> fl_max_issues_per_check F"
    using lim assms(3) by (auto simp: limits_inv_def omap_get_def split: option.split)
  finally show ?thesis using lim sz by (auto simp: limits_inv_def)
    (metis (mono_tags, lifting) assms(4) int_nat_eq of_nat_le_iff order_less_imp_le)
qed

theorem issue_limits_witness:
  "int (length (issues_at sample_issue_store 1 SQL_INJECTION)) \<le> 3"
  using issue_limits [OF message_law_simple sample_issue_reachable, of 1 SQL_INJECTION]
  by (simp add: default_flags_def)

text \<open>
  metadata is written once: the first value set for a request and a type is what is read
  from then on, a second write is refused, and other entries are untouched.
\<close>

theorem request_metadata_once:
  "AddRequestMetadata i m v ds = (ok, ds') \<Longrightarrow>
     (ok \<longleftrightarrow> GetRequestMetadata i m ds = None) \<and>
     GetRequestMetadata i m ds' = (if ok then Some v else GetRequestMetadata i m ds) \<and>
     (\<forall>j n. (j, n) \<noteq> (i, m) \<longrightarrow> GetRequestMetadata j n ds' = GetRequestMetadata j n ds)"
  by (cases "map_of (ds_request_meta ds) i")
    (auto simp: AddRequestMetadata_def GetRequestMetadata_def omap_get_def Let_def split: if_splits)

theorem request_metadata_once_witness:
  "GetRequestMetadata 1 AVERAGE_APPLICATION_TIME_USEC
     (snd (AddRequestMetadata 1 AVERAGE_APPLICATION_TIME_USEC 5 sample_store)) = Some 5"
proof -
  obtain ok ds' where add: "AddRequestMetadata 1 AVERAGE_APPLICATION_TIME_USEC 5 sample_store = (ok, ds')"
    by force
  have "GetRequestMetadata 1 AVERAGE_APPLICATION_TIME_USEC sample_store = None" by code_simp
  then show ?thesis using request_metadata_once [OF add] add by simp
qed

end
