(* ===== verification/Not_Found_Detector.thy ===== *)
theory Not_Found_Detector
  imports Html_Scraper Url_Util Http_Client Data_Store
begin

text \<open>
  \<open>src/not_found_detector.{h,cc}\<close>: probes every directory with URLs that cannot exist and keeps
  the fingerprints of the answers. The random number of a probe is an argument. The requests
  are held by URL, each with the number of its making, which is how the client names it; the
  callbacks into the client and the data store are made on their models.
\<close>

record not_found_detector =
  nd_requests :: "(string \<times> nat \<times> request) list"
  nd_probed_urls :: "string list"
  nd_num_completed_requests :: int
  nd_next :: nat

definition kExtensionsToProbe :: "string list" where
  "kExtensionsToProbe = [''html'', ''php'', ''jsp'', ''asp'', ''aspx'', ''rb'', ''cgi'', ''pl'', ''py'']"

definition NotFoundDetector :: not_found_detector where
  "NotFoundDetector = \<lparr>nd_requests = [], nd_probed_urls = [], nd_num_completed_requests = 0, nd_next = 0\<rparr>"

definition probe_url :: "string \<Rightarrow> int \<Rightarrow> string \<Rightarrow> string" where
  "probe_url base_url number ext = base_url @ to_string number @ ''.'' @ ext"

text \<open>One round of the loop: a request that is not scheduled is dropped.\<close>

definition probe_extension ::
    "externals \<Rightarrow> flags \<Rightarrow> string \<Rightarrow> int \<Rightarrow> string \<Rightarrow> not_found_detector \<times> http_client \<Rightarrow>
     (not_found_detector \<times> http_client) result" where
  "probe_extension L F base_url number ext s =
     (case s of (nd, c) \<Rightarrow>
       and_then (Request_url L F (probe_url base_url number ext)) (\<lambda>r.
         let req = r\<lparr>rq_handler := Some NotFoundDetectorHandler\<rparr>;
             n = nd_next nd;
             nd1 = nd\<lparr>nd_next := n + 1\<rparr>;
             (ok, c') = Schedule (ProbeRequest n) c
         in Inr (if ok
                 then nd1\<lparr>nd_requests := hmap_put (rq_url req) (n, req) (nd_requests nd1),
                          nd_probed_urls := hset_insert base_url (nd_probed_urls nd1)\<rparr>
                 else nd1, c')))"

definition nfd_AddUrl ::
    "externals \<Rightarrow> flags \<Rightarrow> int \<Rightarrow> string \<Rightarrow> not_found_detector \<Rightarrow> http_client \<Rightarrow>
     (bool \<times> not_found_detector \<times> http_client) result" where
  "nfd_AddUrl L F number url nd c =
     and_then (StripUrlFileSuffix url) (\<lambda>base_url.
       if base_url \<in> set (nd_probed_urls nd) then Inr (False, nd, c)
       else and_then (for_each (probe_extension L F base_url number) kExtensionsToProbe (nd, c))
         (\<lambda>(nd', c'). Inr (True, nd', c')))"

definition nfd_erase :: "string \<Rightarrow> not_found_detector \<Rightarrow> not_found_detector" where
  "nfd_erase url nd = nd\<lparr>nd_requests := hmap_erase url (nd_requests nd)\<rparr>"

definition nfd_RequestCallback ::
    "externals \<Rightarrow> request \<Rightarrow> not_found_detector \<Rightarrow> data_store \<Rightarrow>
     (int \<times> not_found_detector \<times> data_store) result" where
  "nfd_RequestCallback L req nd ds =
     (case rq_response req of
        None \<Rightarrow> Inr (0, nfd_erase (rq_url req) nd, ds)
      | Some resp \<Rightarrow>
          let nd1 = nd\<lparr>nd_num_completed_requests := nd_num_completed_requests nd + 1\<rparr> in
          and_then (body_fingerprint L (resp_body (rs_http_response resp))) (\<lambda>fp.
            case fp of
              None \<Rightarrow> Inr (0, nfd_erase (rq_url req) nd1, ds)
            | Some f \<Rightarrow> Inr (1, nfd_erase (rq_url req) nd1, AddFileNotFoundHtmlFingerprint f ds)))"

section \<open>Lemmas\<close>

lemma probe_round:
  assumes "split_law L"
  shows "\<exists>r. Request_url L F (probe_url base number ext) = Inr r \<and>
     probe_extension L F base number ext (nd, c) = Inr
       (if hc_enabled c
        then (nd\<lparr>nd_next := nd_next nd + 1,
                 nd_requests := hmap_put (rq_url r) (nd_next nd, r\<lparr>rq_handler := Some NotFoundDetectorHandler\<rparr>)
                   (nd_requests nd),
                 nd_probed_urls := hset_insert base (nd_probed_urls nd)\<rparr>,
              c\<lparr>hc_schedule_queue := hc_schedule_queue c @ [ProbeRequest (nd_next nd)]\<rparr>)
        else (nd\<lparr>nd_next := nd_next nd + 1\<rparr>, c))"
  using Request_url_total [OF assms]
  by (fastforce simp: probe_extension_def Schedule_def Let_def and_then_def split: sum.splits)

text \<open>All rounds, over an enabled and over a disabled client.\<close>

lemma probe_rounds_disabled:
  assumes "split_law L" "\<not> hc_enabled c"
  shows "for_each (probe_extension L F base number) exts (nd, c) =
     Inr (nd\<lparr>nd_next := nd_next nd + length exts\<rparr>, c)"
proof (induction exts arbitrary: nd)
  case (Cons ext exts)
  obtain r where "probe_extension L F base number ext (nd, c) = Inr (nd\<lparr>nd_next := nd_next nd + 1\<rparr>, c)"
    using probe_round [OF assms(1), of F base number ext nd c] assms(2) by auto
  then show ?case using Cons.IH by simp
qed simp

lemma probe_rounds_enabled:
  assumes "split_law L"
  shows "hc_enabled c \<Longrightarrow> \<exists>nd'. for_each (probe_extension L F base number) exts (nd, c) =
       Inr (nd', c\<lparr>hc_schedule_queue := hc_schedule_queue c @ map ProbeRequest [nd_next nd..<nd_next nd + length exts]\<rparr>) \<and>
     set (nd_probed_urls nd') = set (nd_probed_urls nd) \<union> (if exts = [] then {} else {base}) \<and>
     (\<forall>u. map_of (nd_requests nd) u \<noteq> None \<longrightarrow> map_of (nd_requests nd') u \<noteq> None) \<and>
     (\<forall>ext \<in> set exts. \<exists>r. Request_url L F (probe_url base number ext) = Inr r \<and>
        map_of (nd_requests nd') (rq_url r) \<noteq> None)"
proof (induction exts arbitrary: nd c)
  case (Cons ext exts)
  let ?c1 = "c\<lparr>hc_schedule_queue := hc_schedule_queue c @ [ProbeRequest (nd_next nd)]\<rparr>"
  obtain r where r: "Request_url L F (probe_url base number ext) = Inr r" using Request_url_total [OF assms] by blast
  define nd1 where "nd1 = nd\<lparr>nd_next := nd_next nd + 1,
     nd_requests := hmap_put (rq_url r) (nd_next nd, r\<lparr>rq_handler := Some NotFoundDetectorHandler\<rparr>) (nd_requests nd),
     nd_probed_urls := hset_insert base (nd_probed_urls nd)\<rparr>"
  have step: "probe_extension L F base number ext (nd, c) = Inr (nd1, ?c1)"
    using probe_round [OF assms, of F base number ext nd c] Cons.prems r by (auto simp: nd1_def)
  have upt: "[nd_next nd..<nd_next nd + length (ext # exts)] = nd_next nd # [nd_next nd1..<nd_next nd1 + length exts]"
    by (simp add: nd1_def upt_rec)
  obtain nd' where nd': "for_each (probe_extension L F base number) exts (nd1, ?c1) =
       Inr (nd', ?c1\<lparr>hc_schedule_queue := hc_schedule_queue ?c1 @ map ProbeRequest [nd_next nd1..<nd_next nd1 + length exts]\<rparr>)"
    "set (nd_probed_urls nd') = set (nd_probed_urls nd1) \<union> (if exts = [] then {} else {base})"
    "\<forall>u. map_of (nd_requests nd1) u \<noteq> None \<longrightarrow> map_of (nd_requests nd') u \<noteq> None"
    "\<forall>ext \<in> set exts. \<exists>r. Request_url L F (probe_url base number ext) = Inr r \<and>
        map_of (nd_requests nd') (rq_url r) \<noteq> None"
    using Cons.IH [of ?c1 nd1] Cons.prems by auto
  have "map_of (nd_requests nd') (rq_url r) \<noteq> None"
    "\<forall>u. map_of (nd_requests nd) u \<noteq> None \<longrightarrow> map_of (nd_requests nd') u \<noteq> None"
    using nd'(3) by (auto simp: nd1_def)
  then show ?case using nd' step upt r by (intro exI [of _ nd']) (auto simp: nd1_def)
qed simp

lemma IsFileNotFound_added: "IsFileNotFoundHtmlFingerprint (Some fp) (AddFileNotFoundHtmlFingerprint fp ds)"
  by (simp add: IsFileNotFoundHtmlFingerprint_def AddFileNotFoundHtmlFingerprint_def)

section \<open>Properties\<close>

text \<open>
  C24: a directory is probed once. The first URL of a directory queues nine probes on an enabled
  client, holds their requests and marks the directory; from then on the directory's URLs are
  refused and nothing is queued. On a disabled client nothing is queued or marked, but the
  result is still true.
\<close>

theorem AddUrl_probes_once:
  assumes "split_law L" "StripUrlFileSuffix url = Inr base"
  shows "if base \<in> set (nd_probed_urls nd) then nfd_AddUrl L F number url nd c = Inr (False, nd, c)
     else if hc_enabled c then
       \<exists>nd'. nfd_AddUrl L F number url nd c = Inr (True, nd',
           c\<lparr>hc_schedule_queue := hc_schedule_queue c @ map ProbeRequest [nd_next nd..<nd_next nd + 9]\<rparr>) \<and>
         set (nd_probed_urls nd') = insert base (set (nd_probed_urls nd)) \<and>
         (\<forall>ext \<in> set kExtensionsToProbe. \<exists>r. Request_url L F (probe_url base number ext) = Inr r \<and>
            map_of (nd_requests nd') (rq_url r) \<noteq> None)
     else nfd_AddUrl L F number url nd c = Inr (True, nd\<lparr>nd_next := nd_next nd + 9\<rparr>, c)"
proof -
  have "length kExtensionsToProbe = 9" "kExtensionsToProbe \<noteq> []" by (simp_all add: kExtensionsToProbe_def)
  then show ?thesis
    using probe_rounds_enabled [OF assms(1), of c F base number kExtensionsToProbe nd]
      probe_rounds_disabled [OF assms(1), of c F base number kExtensionsToProbe nd] assms(2)
    by (auto simp: nfd_AddUrl_def)
qed

theorem AddUrl_probes_once_witness:
  "\<exists>nd'. nfd_AddUrl simple_lib default_flags 42 ''http://a.b/x'' NotFoundDetector (client_Enable (CurlHttpClient 1)) =
       Inr (True, nd', (client_Enable (CurlHttpClient 1))\<lparr>hc_schedule_queue := map ProbeRequest [0..<9]\<rparr>) \<and>
     set (nd_probed_urls nd') = {''http://a.b/''}"
proof -
  have base: "StripUrlFileSuffix ''http://a.b/x'' = Inr ''http://a.b/''" by code_simp
  show ?thesis
    using AddUrl_probes_once [OF split_law_simple base, of NotFoundDetector default_flags 42 "client_Enable (CurlHttpClient 1)"]
    by (auto simp: NotFoundDetector_def client_Enable_def CurlHttpClient_def)
qed

text \<open>
  the answer to a probe teaches the data store what a missing page looks like. The callback
  drops the request and never faults; when the body parses, a page with the same body is from
  then on recognised as missing, and everything known before still is.
\<close>

theorem probe_answer_recognised:
  assumes "rq_response req = Some resp" "body_fingerprint L (resp_body (rs_http_response resp)) = Inr fp"
  shows "\<exists>n nd' ds'. nfd_RequestCallback L req nd ds = Inr (n, nd', ds') \<and>
     map_of (nd_requests nd') (rq_url req) = None \<and> (n = 1 \<longleftrightarrow> fp \<noteq> None) \<and>
     (fp \<noteq> None \<longrightarrow> IsFileNotFoundHtmlFingerprint fp ds') \<and>
     (\<forall>f. IsFileNotFoundHtmlFingerprint f ds \<longrightarrow> IsFileNotFoundHtmlFingerprint f ds')"
proof (cases fp)
  case None
  then show ?thesis using assms by (simp add: nfd_RequestCallback_def nfd_erase_def Let_def)
next
  case (Some f)
  have "IsFileNotFoundHtmlFingerprint g ds \<Longrightarrow> IsFileNotFoundHtmlFingerprint g (AddFileNotFoundHtmlFingerprint f ds)" for g
    by (auto simp: IsFileNotFoundHtmlFingerprint_def AddFileNotFoundHtmlFingerprint_def split: option.splits)
  then show ?thesis using assms Some IsFileNotFound_added
    by (simp add: nfd_RequestCallback_def nfd_erase_def Let_def)
qed

theorem probe_answer_recognised_witness:
  "\<exists>fp nd' ds'. body_fingerprint page_lib [] = Inr (Some fp) \<and>
     nfd_RequestCallback page_lib (Request_empty\<lparr>rq_response := Some Response\<rparr>) NotFoundDetector DataStore = Inr (1, nd', ds') \<and>
     IsFileNotFoundHtmlFingerprint (Some fp) ds'"
proof -
  have "map_sum id (\<lambda>fp. fp \<noteq> None) (body_fingerprint page_lib []) = Inr True" by code_simp
  then obtain fp where fp: "body_fingerprint page_lib [] = Inr (Some fp)"
    by (cases "body_fingerprint page_lib []") auto
  then have "body_fingerprint page_lib (resp_body (rs_http_response Response)) = Inr (Some fp)"
    by (simp add: Response_def empty_response_def)
  from probe_answer_recognised [OF _ this, of "Request_empty\<lparr>rq_response := Some Response\<rparr>" NotFoundDetector DataStore] fp
  show ?thesis by auto
qed

end
