(* ===== verification/Matchers.thy ===== *)
theory Matchers
  imports Data_Store "HOL-Library.Sublist"
begin

text \<open>
  \<open>src/audit/matchers\<close> and \<open>src/audit/generic_response_matcher.{h,cc}\<close>: the matchers of a
  match rule, one constructor per class, the factory, the conditions and the response matcher.
  The timing matcher asks a callback for the measured average; the callback is an argument
  (\<open>meta\<close>). Durations are \<open>uint32\<close> in the rule and \<open>int64\<close> in the comparison.
\<close>

type_synonym meta_cb = "int \<Rightarrow> metadata_type \<Rightarrow> int option"

datatype matcher =
    ContainsMatcher match
  | RegexMatcher match "string list"
  | PrefixMatcher match
  | EqualsMatcher match
  | TimingMatcher match

section \<open>MatchSingle\<close>

abbreviation insensitive :: "match \<Rightarrow> bool" where
  "insensitive m \<equiv> value_or False (ma_case_insensitive m)"

definition ContainsMatcher_MatchSingle :: "match \<Rightarrow> string \<Rightarrow> string \<Rightarrow> bool" where
  "ContainsMatcher_MatchSingle m search_string content =
     (if insensitive m then strcasestr content search_string \<noteq> None
      else strstr content search_string \<noteq> None)"

definition EqualsMatcher_MatchSingle :: "match \<Rightarrow> string \<Rightarrow> string \<Rightarrow> bool" where
  "EqualsMatcher_MatchSingle m search_string content =
     (if insensitive m then strcasecmp_eq search_string content
      else strcmp_eq search_string content)"

definition PrefixMatcher_MatchSingle :: "match \<Rightarrow> string \<Rightarrow> string \<Rightarrow> bool" where
  "PrefixMatcher_MatchSingle m search_string content =
     (if insensitive m then strncasecmp_eq content search_string (length search_string)
      else strncmp_eq content search_string (length search_string))"

section \<open>MatchAny\<close>

definition ContainsMatcher_MatchAny :: "match \<Rightarrow> string \<Rightarrow> bool" where
  "ContainsMatcher_MatchAny m content =
     list_ex (\<lambda>s. ContainsMatcher_MatchSingle m s content) (ma_value m)"

definition EqualsMatcher_MatchAny :: "match \<Rightarrow> string \<Rightarrow> bool" where
  "EqualsMatcher_MatchAny m content =
     list_ex (\<lambda>s. EqualsMatcher_MatchSingle m s content) (ma_value m)"

definition PrefixMatcher_MatchAny :: "match \<Rightarrow> string \<Rightarrow> bool" where
  "PrefixMatcher_MatchAny m content =
     list_ex (\<lambda>s. PrefixMatcher_MatchSingle m s content) (ma_value m)"

definition RegexMatcher_MatchAny :: "externals \<Rightarrow> string list \<Rightarrow> string \<Rightarrow> bool" where
  "RegexMatcher_MatchAny L res content = list_ex (PartialMatch L content) res"

text \<open>\<open>int64\<close> division by 1000 truncates towards zero.\<close>

definition div_1000 :: "int \<Rightarrow> int" where
  "div_1000 x = (if x < 0 then - ((- x) div 1000) else x div 1000)"

definition tm_min :: "match \<Rightarrow> 32 word" where
  "tm_min m = (case ma_timing m of Some t \<Rightarrow> value_or 0 (tm_min_duration_ms t) | None \<Rightarrow> 0)"

definition tm_max :: "match \<Rightarrow> 32 word" where
  "tm_max m = (case ma_timing m of Some t \<Rightarrow> value_or 0 (tm_max_duration_ms t) | None \<Rightarrow> 0)"

definition TimingMatcher_MatchAny :: "meta_cb \<Rightarrow> match \<Rightarrow> request \<Rightarrow> bool" where
  "TimingMatcher_MatchAny meta m req =
     (let avg = (case meta (rq_parent_id req) AVERAGE_APPLICATION_TIME_USEC of
            Some v \<Rightarrow> div_1000 v | None \<Rightarrow> 0);
          min_duration_ms = uint (tm_min m) + avg;
          max_duration_ms = uint (tm_max m) + avg;
          t = div_1000 (value_or 0 (hr_client_time_application_usec (rq_proto req)))
      in t > min_duration_ms \<and> t < max_duration_ms)"

definition MatchAny :: "externals \<Rightarrow> meta_cb \<Rightarrow> matcher \<Rightarrow> request \<Rightarrow> string \<Rightarrow> bool" where
  "MatchAny L meta ma req content = (case ma of
     ContainsMatcher m \<Rightarrow> ContainsMatcher_MatchAny m content
   | RegexMatcher m res \<Rightarrow> RegexMatcher_MatchAny L res content
   | PrefixMatcher m \<Rightarrow> PrefixMatcher_MatchAny m content
   | EqualsMatcher m \<Rightarrow> EqualsMatcher_MatchAny m content
   | TimingMatcher m \<Rightarrow> TimingMatcher_MatchAny meta m req)"

definition negative :: "matcher \<Rightarrow> bool" where
  "negative ma = value_or False (ma_negative_match (case ma of
     ContainsMatcher m \<Rightarrow> m | RegexMatcher m res \<Rightarrow> m | PrefixMatcher m \<Rightarrow> m
   | EqualsMatcher m \<Rightarrow> m | TimingMatcher m \<Rightarrow> m))"

section \<open>The factory and Prepare\<close>

definition GetMatcher :: "match \<Rightarrow> matcher option" where
  "GetMatcher m = (case value_or METHOD_NONE (ma_method m) of
     METHOD_CONTAINS \<Rightarrow> Some (ContainsMatcher m)
   | METHOD_REGEX \<Rightarrow> Some (RegexMatcher m [])
   | METHOD_PREFIX \<Rightarrow> Some (PrefixMatcher m)
   | METHOD_EQUALS \<Rightarrow> Some (EqualsMatcher m)
   | METHOD_TIMING \<Rightarrow> Some (TimingMatcher m)
   | METHOD_NONE \<Rightarrow> None)"

definition kCaseInsensitivePrefix :: string where "kCaseInsensitivePrefix = ''(?i)''"

fun prepare_regexes :: "externals \<Rightarrow> match \<Rightarrow> string list \<Rightarrow> string list \<Rightarrow> bool \<times> string list" where
  "prepare_regexes L m [] res = (True, res)"
| "prepare_regexes L m (re # rest) res =
     (let re' = (if insensitive m \<and> substr re 0 4 \<noteq> kCaseInsensitivePrefix
                 then kCaseInsensitivePrefix @ re else re)
      in if \<not> RE2_ok L re' then (False, res @ [re'])
         else prepare_regexes L m rest (res @ [re']))"

definition Prepare :: "externals \<Rightarrow> matcher \<Rightarrow> bool \<times> matcher" where
  "Prepare L ma = (case ma of
     ContainsMatcher m \<Rightarrow> (ma_value m \<noteq> [], ma)
   | PrefixMatcher m \<Rightarrow> (ma_value m \<noteq> [], ma)
   | EqualsMatcher m \<Rightarrow> (ma_value m \<noteq> [], ma)
   | RegexMatcher m res \<Rightarrow>
       (let (ok, res') = prepare_regexes L m (ma_value m) res in (ok, RegexMatcher m res'))
   | TimingMatcher m \<Rightarrow> (ma_timing m \<noteq> None \<and> tm_min m < tm_max m, ma))"

section \<open>Conditions\<close>

fun ConditionMatcher_Match ::
    "externals \<Rightarrow> meta_cb \<Rightarrow> matcher list \<Rightarrow> request \<Rightarrow> string option \<Rightarrow> bool" where
  "ConditionMatcher_Match L meta [] req content = True"
| "ConditionMatcher_Match L meta (ma # rest) req content =
     (case content of
        None \<Rightarrow> negative ma
      | Some c \<Rightarrow>
          if MatchAny L meta ma req c = negative ma then False
          else ConditionMatcher_Match L meta rest req content)"

section \<open>The response matcher\<close>

text \<open>\<open>matchers_\<close> is a map ordered by address: its order is that of one run.\<close>

record response_matcher =
  rm_match_rule :: match_rule
  rm_initialized :: bool
  rm_matchers :: "(matcher list \<times> condition) list"

definition GenericResponseMatcher :: "match_rule \<Rightarrow> response_matcher" where
  "GenericResponseMatcher rule = \<lparr>rm_match_rule = rule, rm_initialized = False, rm_matchers = []\<rparr>"

fun prepare_matches :: "externals \<Rightarrow> match list \<Rightarrow> matcher list option" where
  "prepare_matches L [] = Some []"
| "prepare_matches L (m # ms) =
     (case GetMatcher m of
        None \<Rightarrow> None
      | Some ma \<Rightarrow>
          (case Prepare L ma of
             (False, _) \<Rightarrow> None
           | (True, ma') \<Rightarrow> map_option (\<lambda>rest. ma' # rest) (prepare_matches L ms)))"

fun init_conditions ::
    "externals \<Rightarrow> condition list \<Rightarrow> response_matcher \<Rightarrow> bool \<times> response_matcher" where
  "init_conditions L [] rm = (True, rm\<lparr>rm_initialized := True\<rparr>)"
| "init_conditions L (c # cs) rm =
     (case prepare_matches L (co_match c) of
        None \<Rightarrow> (False, rm)
      | Some mas \<Rightarrow> init_conditions L cs (rm\<lparr>rm_matchers := rm_matchers rm @ [(mas, c)]\<rparr>))"

definition Init :: "externals \<Rightarrow> response_matcher \<Rightarrow> bool \<times> response_matcher" where
  "Init L rm = init_conditions L (mr_condition (rm_match_rule rm)) rm"

definition search_string :: "condition \<Rightarrow> request \<Rightarrow> response \<Rightarrow> string option option" where
  "search_string c req resp = (case value_or TARGET_UNSPECIFIED (co_target c) of
     RESPONSE_BODY \<Rightarrow> Some (Some (resp_body (rs_http_response resp)))
   | RESPONSE_HEADER_VALUE \<Rightarrow> Some (GetHeader resp (value_or [] (co_field c)))
   | REQUEST_URL \<Rightarrow> Some (Some (rq_url req))
   | _ \<Rightarrow> None)"

definition MatchSingle :: "externals \<Rightarrow> meta_cb \<Rightarrow> response_matcher \<Rightarrow> request \<Rightarrow> bool" where
  "MatchSingle L meta rm req = (case rq_response req of
     None \<Rightarrow> False
   | Some resp \<Rightarrow>
       list_all (\<lambda>(mas, c). case search_string c req resp of
            None \<Rightarrow> False
          | Some content \<Rightarrow> ConditionMatcher_Match L meta mas req content) (rm_matchers rm))"

definition Match :: "externals \<Rightarrow> meta_cb \<Rightarrow> response_matcher \<Rightarrow> request list \<Rightarrow> bool" where
  "Match L meta rm requests = list_ex (MatchSingle L meta rm) requests"

section \<open>The text matcher interface\<close>

text \<open>
  What the three string matchers share: one of the values decides, and the content is read as
  a C string.
\<close>

locale text_matcher =
  fixes match_single :: "match \<Rightarrow> string \<Rightarrow> string \<Rightarrow> bool"
    and match_any :: "match \<Rightarrow> string \<Rightarrow> bool"
  assumes any_single: "match_any m content = list_ex (\<lambda>s. match_single m s content) (ma_value m)"
    and single_c_str: "match_single m s (c_str content) = match_single m s content"
begin

lemma any_c_str: "match_any m (c_str content) = match_any m content"
  by (simp add: any_single single_c_str)

lemma any_NUL: "match_any m (content @ NUL # rest) = match_any m content"
proof -
  have "c_str (content @ NUL # rest) = c_str content"
    by (induction content) (simp_all add: c_str_def)
  then show ?thesis by (metis any_c_str)
qed

end

interpretation contains: text_matcher ContainsMatcher_MatchSingle ContainsMatcher_MatchAny
  by unfold_locales
    (simp_all add: ContainsMatcher_MatchAny_def ContainsMatcher_MatchSingle_def strstr_def strcasestr_def)

interpretation equals: text_matcher EqualsMatcher_MatchSingle EqualsMatcher_MatchAny
  by unfold_locales
    (simp_all add: EqualsMatcher_MatchAny_def EqualsMatcher_MatchSingle_def strcmp_eq_def strcasecmp_eq_def)

interpretation prefix_m: text_matcher PrefixMatcher_MatchSingle PrefixMatcher_MatchAny
  by unfold_locales
    (simp_all add: PrefixMatcher_MatchAny_def PrefixMatcher_MatchSingle_def strncmp_eq_def strncasecmp_eq_def)

section \<open>What a match rule means\<close>

text \<open>
  The meaning of a match, of a condition and of a rule as \<open>src/CONFIGURATION.md\<close> and
  \<open>src/proto/matching.proto\<close> give it, without the matchers. Texts and values are C strings, and a
  value with a NUL can only be the start of a text that it is equal to.
\<close>

abbreviation wants_negative :: "match \<Rightarrow> bool" where
  "wants_negative m \<equiv> value_or False (ma_negative_match m)"

definition as_read :: "match \<Rightarrow> string \<Rightarrow> string" where
  "as_read m s = (if insensitive m then map tolower (c_str s) else c_str s)"

definition flagged :: "match \<Rightarrow> string \<Rightarrow> string" where
  "flagged m re = (if insensitive m \<and> \<not> prefix ''(?i)'' re then ''(?i)'' @ re else re)"

definition milliseconds :: "int \<Rightarrow> int" where
  "milliseconds usec = sgn usec * (\<bar>usec\<bar> div 1000)"

definition in_time_range :: "meta_cb \<Rightarrow> match \<Rightarrow> request \<Rightarrow> bool" where
  "in_time_range meta m req \<longleftrightarrow>
     (let limit = (\<lambda>get. case ma_timing m of Some t \<Rightarrow> uint (value_or 0 (get t)) | None \<Rightarrow> 0);
          usual = milliseconds (value_or 0 (meta (rq_parent_id req) AVERAGE_APPLICATION_TIME_USEC));
          taken = milliseconds (value_or 0 (hr_client_time_application_usec (rq_proto req)))
      in usual + limit tm_min_duration_ms < taken \<and> taken < usual + limit tm_max_duration_ms)"

definition match_holds :: "externals \<Rightarrow> meta_cb \<Rightarrow> match \<Rightarrow> request \<Rightarrow> string \<Rightarrow> bool" where
  "match_holds L meta m req content = (case value_or METHOD_NONE (ma_method m) of
     METHOD_CONTAINS \<Rightarrow> \<exists>v \<in> set (ma_value m). sublist (as_read m v) (as_read m content)
   | METHOD_REGEX \<Rightarrow> \<exists>re \<in> set (ma_value m). PartialMatch L content (flagged m re)
   | METHOD_PREFIX \<Rightarrow> \<exists>v \<in> set (ma_value m). prefix (as_read m v) (as_read m content) \<and>
       (NUL \<in> set v \<longrightarrow> as_read m content = as_read m v)
   | METHOD_EQUALS \<Rightarrow> \<exists>v \<in> set (ma_value m). as_read m content = as_read m v
   | METHOD_TIMING \<Rightarrow> in_time_range meta m req
   | METHOD_NONE \<Rightarrow> False)"

text \<open>What a condition is matched against: none when it names no target, no text when the header is missing.\<close>

definition condition_text :: "condition \<Rightarrow> request \<Rightarrow> response \<Rightarrow> string option option" where
  "condition_text c req resp =
     (if co_target c = Some RESPONSE_HEADER_VALUE then Some (GetHeader resp (value_or [] (co_field c)))
      else if co_target c = Some RESPONSE_BODY then Some (Some (resp_body (rs_http_response resp)))
      else if co_target c = Some REQUEST_URL then Some (Some (rq_url req)) else None)"

text \<open>All matches of a condition need to match, and a header that is missing matches nothing.\<close>

definition condition_meant :: "externals \<Rightarrow> meta_cb \<Rightarrow> request \<Rightarrow> response \<Rightarrow> condition \<Rightarrow> bool" where
  "condition_meant L meta req resp c = (case condition_text c req resp of
     None \<Rightarrow> False
   | Some text \<Rightarrow> \<forall>m \<in> set (co_match c).
       (case text of None \<Rightarrow> False | Some s \<Rightarrow> match_holds L meta m req s) \<noteq> wants_negative m)"

text \<open>What the code makes of it: on a missing header it looks at the first match only.\<close>

definition condition_holds :: "externals \<Rightarrow> meta_cb \<Rightarrow> request \<Rightarrow> response \<Rightarrow> condition \<Rightarrow> bool" where
  "condition_holds L meta req resp c =
     (if condition_text c req resp = Some None then list_all wants_negative (take 1 (co_match c))
      else condition_meant L meta req resp c)"

definition mixed_on_missing_header :: "request \<Rightarrow> response \<Rightarrow> condition \<Rightarrow> bool" where
  "mixed_on_missing_header req resp c \<longleftrightarrow> condition_text c req resp = Some None \<and>
     (\<exists>m \<in> set (co_match c). wants_negative m \<noteq> wants_negative (hd (co_match c)))"

lemma condition_meant_holds:
  "\<not> mixed_on_missing_header req resp c \<Longrightarrow> condition_holds L meta req resp c = condition_meant L meta req resp c"
  by (cases "co_match c") (auto simp: mixed_on_missing_header_def condition_holds_def condition_meant_def)

text \<open>The C string functions and the text they look for.\<close>

lemma take_prefix: "take (length p) s = p \<longleftrightarrow> prefix p s"
  by (auto simp: prefix_def) (metis append_take_drop_id)

lemma str_find_is_sublist: "str_find p s \<noteq> None \<longleftrightarrow> sublist p s"
  by (induction s) (auto simp: sublist_Cons_right take_prefix)

lemma Contains_holds:
  "ContainsMatcher_MatchSingle m v content \<longleftrightarrow> sublist (as_read m v) (as_read m content)"
  unfolding ContainsMatcher_MatchSingle_def strstr_def strcasestr_def as_read_def str_find_is_sublist by simp

lemma Equals_holds: "EqualsMatcher_MatchSingle m v content \<longleftrightarrow> as_read m content = as_read m v"
  by (auto simp: EqualsMatcher_MatchSingle_def strcmp_eq_def strcasecmp_eq_def as_read_def)

lemma take_eq_prefix:
  assumes "length w \<le> n"
  shows "take n t = w \<longleftrightarrow> prefix w t \<and> (length w < n \<longrightarrow> t = w)"
proof (cases "length w = n")
  case False
  then have "length w < n" using assms by simp
  moreover have "length (take n t) = n" if "\<not> length t \<le> n" using that by simp
  ultimately have "take n t = w \<longleftrightarrow> t = w" by (cases "length t \<le> n") auto
  then show ?thesis using \<open>length w < n\<close> by auto
qed (auto simp: take_prefix)

lemma c_str_shorter: "length (c_str v) < length v \<longleftrightarrow> NUL \<in> set v"
  by (induction v) (auto simp: c_str_def)

lemma Prefix_holds:
  "PrefixMatcher_MatchSingle m v content \<longleftrightarrow> prefix (as_read m v) (as_read m content) \<and>
     (NUL \<in> set v \<longrightarrow> as_read m content = as_read m v)"
proof -
  have le: "length (c_str v) \<le> length v" by (simp add: c_str_def length_takeWhile_le)
  have "PrefixMatcher_MatchSingle m v content \<longleftrightarrow> take (length v) (as_read m content) = as_read m v"
    using le by (auto simp: PrefixMatcher_MatchSingle_def strncmp_eq_def strncasecmp_eq_def as_read_def take_map)
  also have "\<dots> \<longleftrightarrow> prefix (as_read m v) (as_read m content) \<and>
      (length (as_read m v) < length v \<longrightarrow> as_read m content = as_read m v)"
    using le by (intro take_eq_prefix) (simp add: as_read_def)
  finally show ?thesis using c_str_shorter [of v] by (simp add: as_read_def)
qed

lemma Timing_holds: "TimingMatcher_MatchAny meta m req \<longleftrightarrow> in_time_range meta m req"
proof -
  have "div_1000 x = milliseconds x" for x by (auto simp: div_1000_def milliseconds_def sgn_if)
  then show ?thesis
    by (auto simp: TimingMatcher_MatchAny_def in_time_range_def tm_min_def tm_max_def milliseconds_def Let_def add.commute
        split: option.splits)
qed

lemma regex_flag:
  "(if insensitive m \<and> substr re 0 4 \<noteq> kCaseInsensitivePrefix then kCaseInsensitivePrefix @ re else re) = flagged m re"
  using take_prefix [of "''(?i)''" re] by (simp add: flagged_def kCaseInsensitivePrefix_def substr_def eval_nat_numeral)

lemma prepare_regexes_True:
  "prepare_regexes L m vs res = (True, res') \<Longrightarrow> res' = res @ map (flagged m) vs"
proof (induction vs arbitrary: res)
  case (Cons re vs)
  then have "prepare_regexes L m vs (res @ [flagged m re]) = (True, res')"
    by (simp add: regex_flag Let_def split: if_splits)
  then show ?case using Cons.IH by fastforce
qed simp

lemma prepared_regex:
  "Prepare L (RegexMatcher m []) = (True, ma') \<Longrightarrow> ma' = RegexMatcher m (map (flagged m) (ma_value m))"
  by (auto simp: Prepare_def split: prod.splits dest: prepare_regexes_True)

lemma prepared_other: "Prepare L ma = (True, ma') \<Longrightarrow> (\<nexists>m res. ma = RegexMatcher m res) \<Longrightarrow> ma' = ma"
  by (auto simp: Prepare_def split: matcher.splits)

lemma prepared_matcher:
  assumes "GetMatcher m = Some ma" "Prepare L ma = (True, ma')"
  shows "MatchAny L meta ma' req content = match_holds L meta m req content"
    "negative ma' = wants_negative m"
proof -
  note prep = prepared_regex [of L m ma'] prepared_other [of L ma ma']
  show "MatchAny L meta ma' req content = match_holds L meta m req content"
    using assms prep by (cases "value_or METHOD_NONE (ma_method m)")
      (auto simp: GetMatcher_def MatchAny_def match_holds_def RegexMatcher_MatchAny_def ContainsMatcher_MatchAny_def
        PrefixMatcher_MatchAny_def EqualsMatcher_MatchAny_def Contains_holds Prefix_holds Equals_holds Timing_holds list_ex_iff)
  show "negative ma' = wants_negative m"
    using assms prep by (cases "value_or METHOD_NONE (ma_method m)")
      (auto simp: GetMatcher_def negative_def)
qed

lemma prepare_matches_Match:
  "prepare_matches L ms = Some mas \<Longrightarrow>
     ConditionMatcher_Match L meta mas req content =
       (case content of None \<Rightarrow> list_all wants_negative (take 1 ms)
        | Some c \<Rightarrow> \<forall>m \<in> set ms. match_holds L meta m req c \<noteq> wants_negative m)"
proof (induction ms arbitrary: mas)
  case (Cons m ms)
  then obtain ma ma' rest where ma: "GetMatcher m = Some ma" "Prepare L ma = (True, ma')"
    and rest: "prepare_matches L ms = Some rest" "mas = ma' # rest"
    by (auto split: option.splits prod.splits bool.splits)
  show ?case using Cons.IH [OF rest(1)] prepared_matcher [OF ma] rest(2)
    by (auto split: option.splits)
qed (simp split: option.splits)

lemma init_conditions_True:
  "init_conditions L cs rm = (True, rm') \<Longrightarrow>
     \<exists>mcs. rm_matchers rm' = rm_matchers rm @ mcs \<and> map snd mcs = cs \<and>
       (\<forall>(mas, c) \<in> set mcs. prepare_matches L (co_match c) = Some mas)"
proof (induction cs arbitrary: rm)
  case (Cons c cs)
  then obtain mas where mas: "prepare_matches L (co_match c) = Some mas"
    "init_conditions L cs (rm\<lparr>rm_matchers := rm_matchers rm @ [(mas, c)]\<rparr>) = (True, rm')"
    by (auto split: option.splits)
  from Cons.IH [OF mas(2)] obtain mcs where
    "rm_matchers rm' = (rm_matchers rm @ [(mas, c)]) @ mcs" "map snd mcs = cs"
    "\<forall>(mas, c) \<in> set mcs. prepare_matches L (co_match c) = Some mas" by auto
  then show ?case using mas(1) by (intro exI [of _ "(mas, c) # mcs"]) auto
qed auto

lemma search_text: "search_string c req resp = condition_text c req resp"
  by (cases "co_target c") (auto simp: search_string_def condition_text_def split: match_target.split)

text \<open>The conditions of a rule are all there after \<open>Init\<close>, with matchers that mean the same.\<close>

lemma MatchSingle_conditions:
  assumes "Init L (GenericResponseMatcher rule) = (True, rm)"
  shows "MatchSingle L meta rm req \<longleftrightarrow>
     (\<exists>resp. rq_response req = Some resp \<and>
        (\<forall>c \<in> set (mr_condition rule). condition_holds L meta req resp c))"
proof -
  from init_conditions_True [OF assms [unfolded Init_def]] obtain mcs where
    mcs: "rm_matchers rm = mcs" "map snd mcs = mr_condition rule"
    "\<forall>(mas, c) \<in> set mcs. prepare_matches L (co_match c) = Some mas"
    by (auto simp: GenericResponseMatcher_def)
  have "(case search_string c req resp of None \<Rightarrow> False
        | Some content \<Rightarrow> ConditionMatcher_Match L meta mas req content) = condition_holds L meta req resp c"
    if "(mas, c) \<in> set mcs" for mas c resp
    using that mcs(3) prepare_matches_Match [of L "co_match c" mas meta req]
    by (auto simp: condition_holds_def condition_meant_def search_text split: option.splits)
  then have "list_all (\<lambda>(mas, c). case search_string c req resp of None \<Rightarrow> False
        | Some content \<Rightarrow> ConditionMatcher_Match L meta mas req content) mcs =
      (\<forall>(mas, c) \<in> set mcs. condition_holds L meta req resp c)" for resp
    unfolding list_all_iff by (intro ball_cong) auto
  then have "MatchSingle L meta rm req \<longleftrightarrow>
      (\<exists>resp. rq_response req = Some resp \<and> (\<forall>(mas, c) \<in> set mcs. condition_holds L meta req resp c))"
    by (simp add: MatchSingle_def mcs(1) split: option.split)
  moreover have "set (mr_condition rule) = snd ` set mcs" using mcs(2) by (metis set_map)
  ultimately show ?thesis by (auto simp: case_prod_beta)
qed

section \<open>Properties\<close>


definition sql_match :: match where
  "sql_match = \<lparr>ma_method = Some METHOD_CONTAINS, ma_value = [''SQL syntax''],
     ma_case_insensitive = None, ma_negative_match = None, ma_timing = None\<rparr>"

definition sql_rule :: match_rule where
  "sql_rule = \<lparr>mr_condition = [\<lparr>co_target = Some RESPONSE_BODY, co_match = [sql_match], co_field = None\<rparr>]\<rparr>"

definition sql_request :: request where
  "sql_request = sample_request\<lparr>rq_response := Some (set_body ''your SQL syntax'' Response)\<rparr>"

text \<open>A rule with a negative match on a header that is missing.\<close>

definition missing_rule :: match_rule where
  "missing_rule = \<lparr>mr_condition =
     [\<lparr>co_target = Some RESPONSE_BODY, co_match = [sql_match\<lparr>ma_value := [''sql''], ma_case_insensitive := Some True\<rparr>],
       co_field = None\<rparr>,
      \<lparr>co_target = Some RESPONSE_HEADER_VALUE, co_match = [sql_match\<lparr>ma_negative_match := Some True\<rparr>],
       co_field = Some ''Server''\<rparr>]\<rparr>"

lemma missing_rule_init:
  "Init simple_lib (GenericResponseMatcher missing_rule) =
     (True, snd (Init simple_lib (GenericResponseMatcher missing_rule)))"
proof -
  have "fst (Init simple_lib (GenericResponseMatcher missing_rule))" by code_simp
  then show ?thesis by (metis (full_types) prod.collapse)
qed


text \<open>
  A condition on a missing header is decided by its first match: a negative one accepts the
  response although the condition also asks for a value, and with the matches in the other order
  it does not.
\<close>

definition server_conditions :: "match list \<Rightarrow> match_rule" where
  "server_conditions ms =
     \<lparr>mr_condition = [\<lparr>co_target = Some RESPONSE_HEADER_VALUE, co_match = ms, co_field = Some ''Server''\<rparr>]\<rparr>"

theorem missing_header_first_match:
  "let no = sql_match\<lparr>ma_negative_match := Some True\<rparr>; yes = sql_match;
       verdict = (\<lambda>ms. MatchSingle simple_lib (\<lambda>i t. None)
         (snd (Init simple_lib (GenericResponseMatcher (server_conditions ms)))) sql_request)
   in verdict [no, yes] \<and> \<not> verdict [yes, no]"
  by code_simp

text \<open>
  the contains, equals and prefix matchers read the content up to its first NUL byte;
  what a server sends behind one cannot be matched.
\<close>

theorem text_matchers_stop_at_NUL:
  "ContainsMatcher_MatchAny m (content @ NUL # rest) = ContainsMatcher_MatchAny m content \<and>
   EqualsMatcher_MatchAny m (content @ NUL # rest) = EqualsMatcher_MatchAny m content \<and>
   PrefixMatcher_MatchAny m (content @ NUL # rest) = PrefixMatcher_MatchAny m content"
  using contains.any_NUL equals.any_NUL prefix_m.any_NUL by blast

end
