(* ===== verification/Generic_Generator.thy ===== *)
theory Generic_Generator
  imports Audit_Util Request
begin

text \<open>
  \<open>src/audit/generic_generator.{h,cc}\<close>: the requests a generator rule derives from a base
  request. The code mutates one field of a copy of the base protobuf in place, builds a request
  from the copy and restores the field; the model threads that copy through the loops.
\<close>

definition ShouldInjectInField :: "payload_target \<Rightarrow> string \<Rightarrow> bool" where
  "ShouldInjectInField target name \<longleftrightarrow>
     pt_target_name target = [] \<or> list_ex (\<lambda>n. strcasecmp_eq n name) (pt_target_name target)"

text \<open>The repeated field a target type names, and writing it.\<close>

definition fields_of :: "target_type \<Rightarrow> http_request \<Rightarrow> request_field list" where
  "fields_of t p = (case t of
     URL_PARAMS \<Rightarrow> hr_param p | BODY_PARAMS \<Rightarrow> hr_body_param p | HEADERS \<Rightarrow> hr_header p
   | PATH_ELEMENTS \<Rightarrow> hr_path p | TARGET_UNKNOWN \<Rightarrow> [])"

definition put_fields :: "target_type \<Rightarrow> request_field list \<Rightarrow> http_request \<Rightarrow> http_request" where
  "put_fields t fs p = (case t of
     URL_PARAMS \<Rightarrow> p\<lparr>hr_param := fs\<rparr> | BODY_PARAMS \<Rightarrow> p\<lparr>hr_body_param := fs\<rparr>
   | HEADERS \<Rightarrow> p\<lparr>hr_header := fs\<rparr> | PATH_ELEMENTS \<Rightarrow> p\<lparr>hr_path := fs\<rparr> | TARGET_UNKNOWN \<Rightarrow> p)"

definition GetMutableFieldsForType :: "target_type \<Rightarrow> http_request \<Rightarrow> request_field list option" where
  "GetMutableFieldsForType t p = (if fields_of t p = [] then None else Some (fields_of t p))"

definition set_field :: "target_type \<Rightarrow> nat \<Rightarrow> string \<Rightarrow> bool \<Rightarrow> http_request \<Rightarrow> http_request" where
  "set_field t k v modified p =
     put_fields t ((fields_of t p)[k := (fields_of t p ! k)\<lparr>f_value := Some v, f_modified := Some modified\<rparr>]) p"

text \<open>The innermost loop body: the request of one payload, then the original value again.\<close>

definition append_payload ::
    "externals \<Rightarrow> flags \<Rightarrow> int \<Rightarrow> target_type \<Rightarrow> nat \<Rightarrow> string \<Rightarrow>
     injection_method \<times> encoding_type \<times> string \<Rightarrow>
     http_request \<times> request list \<Rightarrow> http_request \<times> request list" where
  "append_payload L F parent_id t k original_value v s =
     (let (m, e, pay) = v; (p, requests) = s;
          final_payload = GeneratePayloadString original_value pay m e;
          new_request = Request_proto L F (set_field t k final_payload True p)
      in (set_field t k original_value False (set_field t k final_payload True p),
          requests @ [new_request\<lparr>rq_parent_id := parent_id\<rparr>]))"

definition payloads_of :: "generator_rule \<Rightarrow> (injection_method \<times> encoding_type \<times> string) list" where
  "payloads_of rule =
     concat (map (\<lambda>m. concat (map (\<lambda>e.
       map (\<lambda>pay. (m, e, pay)) (case gr_payload rule of Some pl \<Rightarrow> pl_arg pl | None \<Rightarrow> []))
       (gr_encoding rule))) (gr_method rule))"

definition AppendSingleMutatedFieldRequest ::
    "externals \<Rightarrow> flags \<Rightarrow> generator_rule \<Rightarrow> int \<Rightarrow> target_type \<Rightarrow> nat \<Rightarrow>
     http_request \<times> request list \<Rightarrow> int \<times> http_request \<times> request list" where
  "AppendSingleMutatedFieldRequest L F rule parent_id t k s =
     (let original_value = field_value (fields_of t (fst s) ! k) in
      (int (length (payloads_of rule)),
       fold (append_payload L F parent_id t k original_value) (payloads_of rule) s))"

text \<open>The loop over the fields, by index.\<close>

fun append_fields ::
    "externals \<Rightarrow> flags \<Rightarrow> generator_rule \<Rightarrow> int \<Rightarrow> payload_target \<Rightarrow> target_type \<Rightarrow> nat list \<Rightarrow>
     int \<times> http_request \<times> request list \<Rightarrow> int \<times> http_request \<times> request list" where
  "append_fields L F rule parent_id target t [] s = s"
| "append_fields L F rule parent_id target t (k # ks) (n, p, requests) =
     (let f = fields_of t p ! k in
      if f_name f = None \<or> \<not> ShouldInjectInField target (field_name f)
      then append_fields L F rule parent_id target t ks (n, p, requests)
      else
        let (m, p', requests') =
          AppendSingleMutatedFieldRequest L F rule parent_id t k (p, requests)
        in append_fields L F rule parent_id target t ks (n + m, p', requests'))"

definition AppendMutatedFieldRequests ::
    "externals \<Rightarrow> flags \<Rightarrow> generator_rule \<Rightarrow> int \<Rightarrow> payload_target \<Rightarrow> target_type \<Rightarrow>
     http_request \<times> request list \<Rightarrow> int \<times> http_request \<times> request list" where
  "AppendMutatedFieldRequests L F rule parent_id target t s =
     (let n = length (fields_of t (fst s)) in
      if value_or False (pt_last_field_only target) \<and> n \<noteq> 0
      then AppendSingleMutatedFieldRequest L F rule parent_id t (n - 1) s
      else append_fields L F rule parent_id target t [0..<n] (0, s))"

text \<open>\<open>Generate\<close>: every target starts from its own copy of the base protobuf.\<close>

definition generate_target ::
    "externals \<Rightarrow> flags \<Rightarrow> generator_rule \<Rightarrow> request \<Rightarrow> payload_target \<Rightarrow>
     int \<times> request list \<Rightarrow> int \<times> request list" where
  "generate_target L F rule base_request target s =
     (let (n, requests) = s; p = rq_proto base_request;
          t = value_or TARGET_UNKNOWN (pt_type target)
      in case GetMutableFieldsForType t p of
           None \<Rightarrow> (n, requests)
         | Some fs \<Rightarrow>
             let (m, p', requests') =
               AppendMutatedFieldRequests L F rule (rq_id base_request) target t (p, requests)
             in (n + m, requests'))"

definition Generate ::
    "externals \<Rightarrow> flags \<Rightarrow> generator_rule \<Rightarrow> request \<Rightarrow> request list \<Rightarrow> int \<times> request list" where
  "Generate L F rule base_request requests =
     fold (generate_target L F rule base_request) (gr_target rule) (0, requests)"

section \<open>Lemmas\<close>

lemma fields_of_put [simp]:
  "fields_of t (put_fields t fs p) = (if t = TARGET_UNKNOWN then [] else fs)"
  by (cases t) (simp_all add: fields_of_def put_fields_def)

lemma put_fields_put [simp]: "put_fields t fs (put_fields t fs' p) = put_fields t fs p"
  by (cases t) (simp_all add: put_fields_def)

lemma put_fields_same [simp]: "put_fields t (fields_of t p) p = p"
  by (cases t) (simp_all add: fields_of_def put_fields_def)

section \<open>What the generator is to make\<close>

text \<open>
  The requests without the loops: for every target, every selected field and every payload, a
  request made of the base with that one field injected. A field that was injected before
  has its value again, but as a field that is set and marked as unmodified.
\<close>

definition injected :: "string \<Rightarrow> request_field \<Rightarrow> request_field" where
  "injected v f = f\<lparr>f_value := Some v, f_modified := Some True\<rparr>"

definition restored :: "request_field \<Rightarrow> request_field" where
  "restored f = f\<lparr>f_value := Some (field_value f), f_modified := Some False\<rparr>"

definition restored_at :: "nat list \<Rightarrow> request_field list \<Rightarrow> request_field list" where
  "restored_at past fs = map (\<lambda>i. if i \<in> set past then restored (fs ! i) else fs ! i) [0..<length fs]"

definition injected_at :: "nat list \<Rightarrow> nat \<Rightarrow> string \<Rightarrow> request_field list \<Rightarrow> request_field list" where
  "injected_at past k v fs =
     map (\<lambda>i. if i = k then injected v (fs ! i) else if i \<in> set past then restored (fs ! i) else fs ! i) [0..<length fs]"

text \<open>The value to inject; without a value in the field, appending and prefixing give the payload alone.\<close>

definition injected_value :: "string option \<Rightarrow> injection_method \<times> encoding_type \<times> string \<Rightarrow> string" where
  "injected_value original v = (case v of (m, e, pay) \<Rightarrow>
     let raw = (if m = APPEND_TO_VALUE then value_or [] original @ pay
                else if m = PREFIX_VALUE then pay @ value_or [] original else pay)
     in if e = ENCODING_URL then encode_url_token raw else if e = ENCODING_HTML then EscapeHtml raw else raw)"

definition selected :: "payload_target \<Rightarrow> request_field \<Rightarrow> bool" where
  "selected target f \<longleftrightarrow> (case f_name f of
     None \<Rightarrow> False
   | Some name \<Rightarrow> pt_target_name target = [] \<or> list_ex (\<lambda>n. strcasecmp_eq n name) (pt_target_name target))"

definition selected_fields :: "payload_target \<Rightarrow> request_field list \<Rightarrow> nat list" where
  "selected_fields target fs =
     (if fs = [] then [] else if pt_last_field_only target = Some True then [length fs - 1]
      else filter (\<lambda>i. selected target (fs ! i)) [0..<length fs])"

definition request_with :: "externals \<Rightarrow> flags \<Rightarrow> request \<Rightarrow> target_type \<Rightarrow> request_field list \<Rightarrow> request" where
  "request_with L F base t fs = (Request_proto L F (put_fields t fs (rq_proto base)))\<lparr>rq_parent_id := rq_id base\<rparr>"

fun requests_of_fields :: "externals \<Rightarrow> flags \<Rightarrow> generator_rule \<Rightarrow> request \<Rightarrow> target_type \<Rightarrow> nat list \<Rightarrow> nat list \<Rightarrow> request list" where
  "requests_of_fields L F rule base t past [] = []"
| "requests_of_fields L F rule base t past (k # ks) =
     (let fs = fields_of t (rq_proto base) in
      map (\<lambda>v. request_with L F base t (injected_at past k (injected_value (f_value (fs ! k)) v) fs))
        (payloads_of rule) @
      requests_of_fields L F rule base t (past @ [k]) ks)"

definition requests_of :: "externals \<Rightarrow> flags \<Rightarrow> generator_rule \<Rightarrow> request \<Rightarrow> payload_target \<Rightarrow> request list" where
  "requests_of L F rule base target =
     (let t = value_or TARGET_UNKNOWN (pt_type target)
      in requests_of_fields L F rule base t [] (selected_fields target (fields_of t (rq_proto base))))"

section \<open>The loops make just those\<close>

lemma injected_value_payload: "injected_value (f_value f) (m, e, pay) = GeneratePayloadString (field_value f) pay m e"
  by (simp add: injected_value_def GeneratePayloadString_def
      split: injection_method.split encoding_type.split)

lemma restored_at_length [simp]: "length (restored_at past fs) = length fs"
  by (simp add: restored_at_def)

lemma restored_at_nil [simp]: "restored_at [] fs = fs"
  by (simp add: restored_at_def map_nth)

lemma restored_nth:
  assumes "k < length fs"
  shows "field_value (restored_at past fs ! k) = field_value (fs ! k)" "f_name (restored_at past fs ! k) = f_name (fs ! k)"
  using assms by (simp_all add: restored_at_def restored_def)

lemma inject_restored:
  assumes "k < length fs" "set past' - {k} = set past - {k}"
  shows "(restored_at past' fs)[k := (restored_at past' fs ! k)\<lparr>f_value := Some v, f_modified := Some True\<rparr>] =
     injected_at past k v fs"
proof (rule nth_equalityI)
  fix i assume "i < length ((restored_at past' fs)[k := (restored_at past' fs ! k)\<lparr>f_value := Some v, f_modified := Some True\<rparr>])"
  then have i: "i < length fs" by simp
  have "i \<noteq> k \<longrightarrow> i \<in> set past' \<longleftrightarrow> i \<in> set past" using assms(2) by blast
  then show "(restored_at past' fs)[k := (restored_at past' fs ! k)\<lparr>f_value := Some v, f_modified := Some True\<rparr>] ! i =
      injected_at past k v fs ! i"
    using i assms(1) by (auto simp: restored_at_def injected_at_def injected_def restored_def nth_list_update)
qed (simp add: injected_at_def)

lemma restore_injected:
  assumes "k < length fs"
  shows "(injected_at past k v fs)[k := (injected_at past k v fs ! k)\<lparr>f_value := Some (field_value (fs ! k)),
       f_modified := Some False\<rparr>] = restored_at (past @ [k]) fs"
proof (rule nth_equalityI)
  fix i assume "i < length ((injected_at past k v fs)[k := (injected_at past k v fs ! k)\<lparr>f_value := Some (field_value (fs ! k)),
       f_modified := Some False\<rparr>])"
  then have "i < length fs" by (simp add: injected_at_def)
  then show "(injected_at past k v fs)[k := (injected_at past k v fs ! k)\<lparr>f_value := Some (field_value (fs ! k)),
       f_modified := Some False\<rparr>] ! i = restored_at (past @ [k]) fs ! i"
    using assms by (auto simp: restored_at_def injected_at_def injected_def restored_def nth_list_update)
qed (simp add: injected_at_def)

text \<open>The copy of the base protobuf after the fields \<open>past\<close>.\<close>

abbreviation copy_after :: "target_type \<Rightarrow> nat list \<Rightarrow> request \<Rightarrow> http_request" where
  "copy_after t past base \<equiv> put_fields t (restored_at past (fields_of t (rq_proto base))) (rq_proto base)"

lemma append_payloads:
  fixes base :: request and t :: target_type
  defines "fs \<equiv> fields_of t (rq_proto base)"
  assumes "t \<noteq> TARGET_UNKNOWN" "k < length fs"
  shows "set past' - {k} = set past - {k} \<Longrightarrow>
     fold (append_payload L F (rq_id base) t k (field_value (fs ! k))) vs (copy_after t past' base, requests) =
       (copy_after t (if vs = [] then past' else past @ [k]) base,
        requests @ map (\<lambda>v. request_with L F base t (injected_at past k (injected_value (f_value (fs ! k)) v) fs)) vs)"
proof (induction vs arbitrary: past' requests)
  case (Cons v vs)
  obtain m e pay where v: "v = (m, e, pay)" by (cases v)
  let ?x = "injected_value (f_value (fs ! k)) v"
  have inject: "set_field t k ?x True (copy_after t past' base) = put_fields t (injected_at past k ?x fs) (rq_proto base)"
    using inject_restored [OF assms(3) Cons.prems] assms(2) by (simp add: set_field_def fs_def)
  have restore: "set_field t k (field_value (fs ! k)) False (put_fields t (injected_at past k ?x fs) (rq_proto base)) =
      copy_after t (past @ [k]) base"
    using restore_injected [OF assms(3)] assms(2) by (simp add: set_field_def fs_def)
  have "append_payload L F (rq_id base) t k (field_value (fs ! k)) v (copy_after t past' base, requests) =
      (copy_after t (past @ [k]) base, requests @ [request_with L F base t (injected_at past k ?x fs)])"
    using inject restore by (simp add: append_payload_def v injected_value_payload request_with_def Let_def)
  then show ?case using Cons.IH [of "past @ [k]"] by auto
qed simp

lemma AppendSingle_makes:
  fixes base :: request and t :: target_type
  defines "fs \<equiv> fields_of t (rq_proto base)"
  assumes "t \<noteq> TARGET_UNKNOWN" "k < length fs"
  shows "AppendSingleMutatedFieldRequest L F rule (rq_id base) t k (copy_after t past base, requests) =
     (int (length (payloads_of rule)), copy_after t (if payloads_of rule = [] then past else past @ [k]) base,
      requests @ map (\<lambda>v. request_with L F base t (injected_at past k (injected_value (f_value (fs ! k)) v) fs))
        (payloads_of rule))"
  using append_payloads [of t k base past past L F "payloads_of rule" requests] assms restored_nth(1) [of k fs past]
  by (simp add: AppendSingleMutatedFieldRequest_def)

text \<open>Without payloads nothing is made, whatever is in the copy.\<close>

lemma requests_of_fields_length:
  "length (requests_of_fields L F rule base t past ks) = length ks * length (payloads_of rule)"
  by (induction ks arbitrary: past) (simp_all add: Let_def)

lemma append_fields_makes:
  fixes base :: request and t :: target_type
  defines "fs \<equiv> fields_of t (rq_proto base)"
  assumes "t \<noteq> TARGET_UNKNOWN" "\<forall>k \<in> set ks. k < length fs"
  shows "\<exists>p'. append_fields L F rule (rq_id base) target t ks (n, copy_after t past base, requests) =
     (let new = requests_of_fields L F rule base t past (filter (\<lambda>k. selected target (fs ! k)) ks)
      in (n + int (length new), p', requests @ new))"
  using assms(3)
proof (induction ks arbitrary: n past requests)
  case (Cons k ks)
  have k: "k < length fs" using Cons.prems by simp
  let ?f = "fields_of t (copy_after t past base) ! k"
  have "f_name ?f = f_name (fs ! k)" using restored_nth(2) [OF k] assms(2) by (simp add: fs_def)
  then have skip: "f_name ?f = None \<or> \<not> ShouldInjectInField target (field_name ?f) \<longleftrightarrow> \<not> selected target (fs ! k)"
    by (auto simp: selected_def ShouldInjectInField_def split: option.splits)
  have none: "requests_of_fields L F rule base t past xs = []" if "payloads_of rule = []" for past xs
    using requests_of_fields_length [of L F rule base t past xs] that by simp
  show ?case
  proof (cases "selected target (fs ! k)")
    case False
    then show ?thesis using Cons skip by simp
  next
    case True
    let ?past = "if payloads_of rule = [] then past else past @ [k]"
    obtain p' where rest: "append_fields L F rule (rq_id base) target t ks
        (n + int (length (payloads_of rule)), copy_after t ?past base,
         requests @ map (\<lambda>v. request_with L F base t (injected_at past k (injected_value (f_value (fs ! k)) v) fs)) (payloads_of rule)) =
        (let new = requests_of_fields L F rule base t ?past (filter (\<lambda>k. selected target (fs ! k)) ks)
         in (n + int (length (payloads_of rule)) + int (length new), p',
           (requests @ map (\<lambda>v. request_with L F base t (injected_at past k (injected_value (f_value (fs ! k)) v) fs)) (payloads_of rule)) @ new))"
      using Cons.IH Cons.prems by (meson list.set_intros(2))
    show ?thesis using rest True skip AppendSingle_makes [OF assms(2), of k base L F rule past requests] k none
      by (auto simp: Let_def fs_def [symmetric] intro!: exI [of _ p'])
  qed
qed simp

lemma generate_target_makes:
  "generate_target L F rule base target (n, requests) =
     (n + int (length (requests_of L F rule base target)), requests @ requests_of L F rule base target)"
proof -
  define t where "t = value_or TARGET_UNKNOWN (pt_type target)"
  define fs where "fs = fields_of t (rq_proto base)"
  have last: "value_or False (pt_last_field_only target) \<longleftrightarrow> pt_last_field_only target = Some True"
    by (cases "pt_last_field_only target") auto
  have copy: "copy_after t [] base = rq_proto base" by simp
  show ?thesis
  proof (cases "fs = []")
    case False
    then have t: "t \<noteq> TARGET_UNKNOWN" "length fs - 1 < length fs" by (auto simp: fs_def fields_of_def)
    have single: "AppendSingleMutatedFieldRequest L F rule (rq_id base) t (length fs - 1) (rq_proto base, requests) =
        (int (length (payloads_of rule)), copy_after t (if payloads_of rule = [] then [] else [length fs - 1]) base,
         requests @ requests_of_fields L F rule base t [] [length fs - 1])"
      using AppendSingle_makes [OF t(1), of "length fs - 1" base L F rule "[]" requests] t(2)
      by (simp add: fs_def Let_def)
    obtain p' where loop: "append_fields L F rule (rq_id base) target t [0..<length fs] (0, rq_proto base, requests) =
        (let new = requests_of_fields L F rule base t [] (filter (\<lambda>k. selected target (fs ! k)) [0..<length fs])
         in (int (length new), p', requests @ new))"
      using append_fields_makes [OF t(1), of "[0..<length fs]" base L F rule target 0 "[]" requests] copy
      by (auto simp: fs_def)
    show ?thesis using False single loop last
      by (simp add: generate_target_def GetMutableFieldsForType_def AppendMutatedFieldRequests_def requests_of_def
          selected_fields_def t_def [symmetric] fs_def [symmetric] requests_of_fields_length Let_def)
  qed (simp add: generate_target_def GetMutableFieldsForType_def requests_of_def selected_fields_def
      t_def [symmetric] fs_def [symmetric])
qed

lemma generate_targets:
  "fold (generate_target L F rule base) targets (n, requests) =
     (n + int (length (concat (map (requests_of L F rule base) targets))),
      requests @ concat (map (requests_of L F rule base) targets))"
  by (induction targets arbitrary: n requests) (simp_all add: generate_target_makes)

text \<open>All of them are fresh requests below the base.\<close>

lemma requests_of_fields_shape:
  "r \<in> set (requests_of_fields L F rule base t past ks) \<Longrightarrow> \<exists>fs. r = request_with L F base t fs"
  by (induction ks arbitrary: past) (auto simp: Let_def)

lemma requests_of_shape: "r \<in> set (requests_of L F rule base target) \<Longrightarrow> \<exists>t fs. r = request_with L F base t fs"
  using requests_of_fields_shape by (fastforce simp: requests_of_def Let_def)

section \<open>Properties\<close>

text \<open>
  C18: \<open>Generate\<close> appends its requests behind those it is given and returns their number. Its loops,
  which change one copy of the base in place, make exactly the requests of the specification,
  in order: per target the selected fields (the last one if the target says so, or those with a
  listed name, in any case of the letters), and per field every method, encoding and payload. In each
  request that one field has the payload and is marked as modified, fields injected before are
  set to their original value and marked as not modified, all other fields and everything else
  are those of the base request, which is the parent. A field without a value takes the bare payload,
  with \<open>APPEND_TO_VALUE\<close> too.
\<close>

theorem Generate_requests:
  "Generate L F rule base requests =
     (let new = concat (map (requests_of L F rule base) (gr_target rule)) in (int (length new), requests @ new))"
  using generate_targets [of L F rule base "gr_target rule" 0 requests] by (simp add: Generate_def Let_def)

text \<open>
  after the payloads of a field the field holds its original value but is marked as set,
  so a parameter without a value comes back with an empty one: the requests for later fields
  send \<open>?debug=\<close> where the base request sends \<open>?debug\<close>.
\<close>

definition debug_request :: http_request where
  "debug_request = empty_request\<lparr>hr_host := Some ''a'', hr_port := Some 80,
     hr_path := [path_field []],
     hr_param := [empty_field\<lparr>f_name := Some ''debug''\<rparr>, new_field ''x'' ''1'']\<rparr>"

definition debug_rule :: generator_rule where
  "debug_rule = \<lparr>gr_method = [SET_VALUE], gr_encoding = [ENCODING_NONE],
     gr_target = [\<lparr>pt_type = Some URL_PARAMS, pt_target_name = [], pt_last_field_only = None\<rparr>],
     gr_payload = Some \<lparr>pl_type = None, pl_arg = [''P'']\<rparr>\<rparr>"

theorem Generate_value_presence:
  "rq_url (Request_proto simple_lib default_flags debug_request) = ''http://a:80/?debug&x=1'' \<and>
   map rq_url (snd (Generate simple_lib default_flags debug_rule
     (Request_proto simple_lib default_flags debug_request) [])) =
     [''http://a:80/?debug=P&x=1'', ''http://a:80/?debug=&x=P'']"
proof
  show "rq_url (Request_proto simple_lib default_flags debug_request) = ''http://a:80/?debug&x=1''"
    by code_simp
  show "map rq_url (snd (Generate simple_lib default_flags debug_rule
     (Request_proto simple_lib default_flags debug_request) [])) =
     [''http://a:80/?debug=P&x=1'', ''http://a:80/?debug=&x=P'']"
    by code_simp
qed

end
