(* ===== verification/Security_Checks.thy ===== *)
theory Security_Checks
  imports Matchers Generic_Generator
begin

text \<open>
  \<open>src/audit/generic_security_check.{h,cc}\<close> and \<open>src/audit/response_time_check.{h,cc}\<close>: the
  two implementations of \<open>SecurityCheckInterface\<close>. The metadata callbacks are bound to the
  data store, as \<open>main\<close> does it; \<open>Evaluate\<close> of the response time check writes through
  one of them, so it takes and returns the store.
\<close>

datatype security_check =
    GenericSecurityCheck security_test "response_matcher option"
  | ResponseTimeCheck int int

definition meta_of :: "data_store \<Rightarrow> meta_cb" where
  "meta_of ds i t = GetRequestMetadata i t ds"

definition kCheckName :: string where "kCheckName = ''ResponseTime''"

definition check_name :: "security_check \<Rightarrow> string" where
  "check_name c = (case c of
     GenericSecurityCheck test m \<Rightarrow> value_or [] (st_name test) | ResponseTimeCheck n ms \<Rightarrow> kCheckName)"

definition check_issue_type :: "security_check \<Rightarrow> issue_type" where
  "check_issue_type c = (case c of
     GenericSecurityCheck test m \<Rightarrow> value_or INVALID (st_issue_type test)
   | ResponseTimeCheck n ms \<Rightarrow> SLOW_SERVER)"

definition advisory_severity :: "security_test \<Rightarrow> severity" where
  "advisory_severity test = (case st_advisory test of
     Some a \<Rightarrow> value_or MODERATE (ad_severity a) | None \<Rightarrow> MODERATE)"

definition check_severity :: "security_check \<Rightarrow> severity" where
  "check_severity c = (case c of
     GenericSecurityCheck test m \<Rightarrow> advisory_severity test | ResponseTimeCheck n ms \<Rightarrow> MINIMAL)"

definition CanEvaluateInSerial :: "security_check \<Rightarrow> bool" where
  "CanEvaluateInSerial c = (case c of
     GenericSecurityCheck test m \<Rightarrow> value_or False (st_allow_serial_evaluation test)
   | ResponseTimeCheck n ms \<Rightarrow> False)"

definition empty_rule :: generator_rule where
  "empty_rule = \<lparr>gr_method = [], gr_encoding = [], gr_target = [], gr_payload = None\<rparr>"

definition GenericSecurityCheck_CreateRequests ::
    "externals \<Rightarrow> flags \<Rightarrow> security_test \<Rightarrow> request \<Rightarrow> request list \<Rightarrow> bool \<times> request list" where
  "GenericSecurityCheck_CreateRequests L F test req requests =
     (let (n, requests') =
        Generate L F (value_or empty_rule (st_generator_rule test)) req requests
      in (n \<noteq> 0, requests'))"

definition ResponseTimeCheck_CreateRequests ::
    "externals \<Rightarrow> flags \<Rightarrow> int \<Rightarrow> request \<Rightarrow> request list \<Rightarrow> bool \<times> request list" where
  "ResponseTimeCheck_CreateRequests L F n req requests =
     (True, requests @ replicate (nat n) ((Request_proto L F (rq_proto req))\<lparr>rq_parent_id := rq_id req\<rparr>))"

definition CreateRequests ::
    "externals \<Rightarrow> flags \<Rightarrow> security_check \<Rightarrow> request \<Rightarrow> request list \<Rightarrow> bool \<times> request list" where
  "CreateRequests L F c req requests = (case c of
     GenericSecurityCheck test m \<Rightarrow> GenericSecurityCheck_CreateRequests L F test req requests
   | ResponseTimeCheck n ms \<Rightarrow> ResponseTimeCheck_CreateRequests L F n req requests)"

definition EvaluateSingle :: "externals \<Rightarrow> data_store \<Rightarrow> security_check \<Rightarrow> request \<Rightarrow> bool" where
  "EvaluateSingle L ds c req = (case c of
     GenericSecurityCheck test (Some rm) \<Rightarrow> MatchSingle L (meta_of ds) rm req
   | _ \<Rightarrow> False)"

text \<open>The sum is signed, the size unsigned: the quotient is taken of 64-bit unsigned values.\<close>

definition app_time_usec :: "request \<Rightarrow> int" where
  "app_time_usec r = value_or 0 (hr_client_time_application_usec (rq_proto r))"

definition average_usec :: "request list \<Rightarrow> int result" where
  "average_usec requests =
     (if requests = [] then Inl DivideByZero
      else
        let sum = (\<Sum>r \<leftarrow> requests. app_time_usec r);
            q = (sum mod 2 ^ 64) div int (length requests)
        in Inr (if q < 2 ^ 63 then q else q - 2 ^ 64))"

definition ResponseTimeCheck_Evaluate ::
    "int \<Rightarrow> request list \<Rightarrow> data_store \<Rightarrow> (bool \<times> data_store) result" where
  "ResponseTimeCheck_Evaluate max_average_response_time_ms requests ds =
     and_then (average_usec requests) (\<lambda>average_duration_usec.
       Inr (div_1000 average_duration_usec > max_average_response_time_ms,
            snd (AddRequestMetadata (rq_parent_id (hd requests)) AVERAGE_APPLICATION_TIME_USEC
                   average_duration_usec ds)))"

definition Evaluate ::
    "externals \<Rightarrow> security_check \<Rightarrow> request list \<Rightarrow> data_store \<Rightarrow> (bool \<times> data_store) result" where
  "Evaluate L c requests ds = (case c of
     GenericSecurityCheck test (Some rm) \<Rightarrow> Inr (Match L (meta_of ds) rm requests, ds)
   | GenericSecurityCheck test None \<Rightarrow> Inr (False, ds)
   | ResponseTimeCheck n ms \<Rightarrow> ResponseTimeCheck_Evaluate ms requests ds)"

section \<open>The interface\<close>

text \<open>
  What the runner relies on: a check only adds requests, and each of them names the tested
  request as its parent and has no issue yet.
\<close>

locale request_creator =
  fixes create :: "request \<Rightarrow> request list \<Rightarrow> bool \<times> request list"
  assumes creates: "\<exists>new. snd (create req requests) = requests @ new \<and>
    (\<forall>r \<in> set new. rq_parent_id r = rq_id req \<and> rq_id r = kInvalidId \<and> rq_issues r = [])"
begin

lemma create_from_empty:
  "r \<in> set (snd (create req [])) \<Longrightarrow> rq_parent_id r = rq_id req"
  using creates [of req "[]"] by auto

lemma create_keeps: "take (length requests) (snd (create req requests)) = requests"
  using creates [of req requests] by auto

end

lemma Request_proto_fresh [simp]:
  "rq_id (Request_proto L F p) = kInvalidId" "rq_issues (Request_proto L F p) = []"
  "rq_response (Request_proto L F p) = None" "rq_raw_response (Request_proto L F p) = []"
  by (simp_all add: Request_proto_def Request_empty_def Let_def)

interpretation generic: request_creator "GenericSecurityCheck_CreateRequests L F test" for L F test
proof
  fix req requests
  let ?rule = "value_or empty_rule (st_generator_rule test)"
  let ?new = "concat (map (requests_of L F ?rule req) (gr_target ?rule))"
  have "rq_parent_id r = rq_id req \<and> rq_id r = kInvalidId \<and> rq_issues r = []" if "r \<in> set ?new" for r
    using that by (auto simp: request_with_def dest!: requests_of_shape)
  moreover have "Generate L F ?rule req requests = (int (length ?new), requests @ ?new)"
    using generate_targets [of L F ?rule req "gr_target ?rule" 0 requests] by (simp add: Generate_def)
  ultimately show "\<exists>new. snd (GenericSecurityCheck_CreateRequests L F test req requests) = requests @ new \<and>
      (\<forall>r \<in> set new. rq_parent_id r = rq_id req \<and> rq_id r = kInvalidId \<and> rq_issues r = [])"
    by (intro exI [of _ ?new]) (simp add: GenericSecurityCheck_CreateRequests_def)
qed

interpretation response_time: request_creator "ResponseTimeCheck_CreateRequests L F n" for L F n
  by unfold_locales (simp add: ResponseTimeCheck_CreateRequests_def)

interpretation any_check: request_creator "CreateRequests L F c" for L F c
  using generic.creates response_time.creates
  by unfold_locales (simp add: CreateRequests_def split: security_check.split)

section \<open>Properties\<close>

text \<open>
  the response time check stores the average of the measured application times under the
  tested request, once, and reports the request exactly when the average in milliseconds
  exceeds the threshold; on no request at all it divides by zero.
\<close>

theorem ResponseTimeCheck_average:
  assumes "requests \<noteq> []" "\<forall>r \<in> set requests. 0 \<le> app_time_usec r"
    "(\<Sum>r \<leftarrow> requests. app_time_usec r) < 2 ^ 63"
    "GetRequestMetadata (rq_parent_id (hd requests)) AVERAGE_APPLICATION_TIME_USEC ds = None"
  shows "\<exists>ds'. ResponseTimeCheck_Evaluate ms requests ds =
       Inr ((\<Sum>r \<leftarrow> requests. app_time_usec r) div int (length requests) div 1000 > ms, ds') \<and>
     GetRequestMetadata (rq_parent_id (hd requests)) AVERAGE_APPLICATION_TIME_USEC ds' =
       Some ((\<Sum>r \<leftarrow> requests. app_time_usec r) div int (length requests)) \<and>
     ResponseTimeCheck_Evaluate ms [] ds = Inl DivideByZero"
proof -
  let ?s = "\<Sum>r \<leftarrow> requests. app_time_usec r" and ?n = "int (length requests)"
  have nonneg: "0 \<le> ?s" using assms(2) by (intro sum_list_nonneg) auto
  have n: "0 < ?n" using assms(1) by simp
  have "?s div ?n \<le> ?s" using nonneg n zdiv_mono2 [of ?s 1 ?n] by (simp add: Suc_le_eq)
  then have q: "0 \<le> ?s div ?n" "?s div ?n < 2 ^ 63"
    using nonneg n assms(3) by (simp_all add: pos_imp_zdiv_nonneg_iff)
  have "?s mod 2 ^ 64 = ?s" using nonneg assms(3) by (intro mod_pos_pos_trivial) auto
  then have "average_usec requests = Inr (?s div ?n)"
    using assms(1) q(2) by (simp add: average_usec_def Let_def)
  then show ?thesis using assms(4) q(1)
    by (auto simp: ResponseTimeCheck_Evaluate_def div_1000_def average_usec_def AddRequestMetadata_def
        GetRequestMetadata_def Let_def omap_get_def split: option.splits)
qed

definition timed_request :: "int \<Rightarrow> request" where
  "timed_request usec = Request_empty\<lparr>rq_parent_id := 1,
     rq_proto := empty_request\<lparr>hr_client_time_application_usec := Some usec\<rparr>\<rparr>"

theorem ResponseTimeCheck_average_witness:
  "\<exists>ds'. ResponseTimeCheck_Evaluate 5 [timed_request 5000, timed_request 9000] sample_store = Inr (True, ds') \<and>
     GetRequestMetadata 1 AVERAGE_APPLICATION_TIME_USEC ds' = Some 7000"
proof -
  have "GetRequestMetadata 1 AVERAGE_APPLICATION_TIME_USEC sample_store = None" by code_simp
  then show ?thesis
    using ResponseTimeCheck_average [of "[timed_request 5000, timed_request 9000]" sample_store 5]
    by (auto simp: timed_request_def app_time_usec_def)
qed

end
