(* ===== verification/Check_Runner.thy ===== *)
theory Check_Runner
  imports Security_Checks Http_Client
begin

text \<open>
  \<open>src/audit/security_check_runner.{h,cc}\<close>, \<open>src/audit/selective_auditor.{h,cc}\<close> and
  \<open>src/audit/passive_auditor.{h,cc}\<close>. A runner owns the requests of one check for one tested
  request; the client refers to them by the runner's name and their index. Checks form the list
  \<open>checks_\<close>, and since only \<open>AddSecurityCheck\<close> links a check to the one added after it,
  the successor of a check is the next element. The crawler's scrape callback is an argument.
\<close>

section \<open>The runner\<close>

record check_runner =
  ru_name :: nat
  ru_finished :: bool
  ru_requests_completed :: int
  ru_tested_request :: int
  ru_security_check :: nat
  ru_requests :: "request list"

definition SecurityCheckRunner :: "nat \<Rightarrow> nat \<Rightarrow> int \<Rightarrow> check_runner" where
  "SecurityCheckRunner name check tested =
     \<lparr>ru_name = name, ru_finished = False, ru_requests_completed = 0, ru_tested_request = tested,
      ru_security_check = check, ru_requests = []\<rparr>"

text \<open>The scheduling loop of \<open>Run\<close>; a request that is not queued is fatal unless serial.\<close>

fun schedule_requests ::
    "bool \<Rightarrow> nat \<Rightarrow> nat \<Rightarrow> request list \<Rightarrow> http_client \<Rightarrow> bool \<times> request list \<times> http_client" where
  "schedule_requests serial name k [] c = (True, [], c)"
| "schedule_requests serial name k (req # reqs) c =
     (case Schedule_handler (TestRequest name k) (RunnerHandler name) req c of
        (ok, req', c') \<Rightarrow>
          if \<not> ok \<and> \<not> serial then (False, req' # reqs, c')
          else
            let (ok', reqs', c'') = schedule_requests serial name (Suc k) reqs c'
            in (ok', req' # reqs', c''))"

definition Run ::
    "externals \<Rightarrow> flags \<Rightarrow> data_store \<Rightarrow> security_check \<Rightarrow> request \<Rightarrow> check_runner \<Rightarrow>
     http_client \<Rightarrow> bool \<times> check_runner \<times> http_client" where
  "Run L F ds check tested ru c =
     (let (created, reqs) = CreateRequests L F check tested (ru_requests ru);
          ru1 = ru\<lparr>ru_requests := reqs\<rparr> in
      if \<not> created then (False, ru1, c)
      else if CanEvaluateInSerial check \<and> EvaluateSingle L ds check tested then (False, ru1, c)
      else
        let (ok, reqs', c') =
          schedule_requests (CanEvaluateInSerial check) (ru_name ru) 0 (ru_requests ru1) c
        in (ok, ru1\<lparr>ru_requests := reqs'\<rparr>, c'))"

definition check_next :: "security_check list \<Rightarrow> nat \<Rightarrow> nat option" where
  "check_next checks i = (if Suc i < length checks then Some (Suc i) else None)"

definition SetNextCheck :: "security_check list \<Rightarrow> check_runner \<Rightarrow> bool \<times> check_runner" where
  "SetNextCheck checks ru = (case check_next checks (ru_security_check ru) of
     None \<Rightarrow> (False, ru)
   | Some n \<Rightarrow> (True, ru\<lparr>ru_security_check := n, ru_requests := [], ru_finished := False,
                        ru_requests_completed := 0\<rparr>))"

text \<open>
  \<open>RequestCallback\<close> for the request at index \<open>k\<close>, up to the done callback, which the caller
  makes when the runner is finished.
\<close>

definition runner_RequestCallback ::
    "externals \<Rightarrow> flags \<Rightarrow> security_check \<Rightarrow> nat \<Rightarrow> check_runner \<Rightarrow> data_store \<Rightarrow>
     (check_runner \<times> data_store) result" where
  "runner_RequestCallback L F check k ru ds =
     (let completed = ru_requests_completed ru + 1;
          ru1 = ru\<lparr>ru_requests_completed := completed,
            ru_finished := (ru_finished ru \<or> size_of_int completed = length (ru_requests ru))\<rparr>;
          req = ru_requests ru ! k;
          report = (\<lambda>ds. snd (AddIssue L F (rq_parent_id req) (check_issue_type check)
             (check_severity check) req ds))
      in if CanEvaluateInSerial check then
           Inr (ru1, if EvaluateSingle L ds check req then report ds else ds)
         else if ru_finished ru1 then
           and_then (Evaluate L check (ru_requests ru) ds)
             (\<lambda>(positive, ds'). Inr (ru1, if positive then report ds' else ds'))
         else Inr (ru1, ds))"

section \<open>The selective auditor\<close>

record selective_auditor =
  sa_checks :: "security_check list"
  sa_runners :: "check_runner list"
  sa_next_name :: nat

definition SelectiveAuditor :: selective_auditor where
  "SelectiveAuditor = \<lparr>sa_checks = [], sa_runners = [], sa_next_name = 0\<rparr>"

definition AddSecurityCheck :: "security_check \<Rightarrow> selective_auditor \<Rightarrow> selective_auditor" where
  "AddSecurityCheck check sa = sa\<lparr>sa_checks := sa_checks sa @ [check]\<rparr>"

definition AddSecurityTest ::
    "externals \<Rightarrow> security_test \<Rightarrow> selective_auditor \<Rightarrow> bool \<times> selective_auditor" where
  "AddSecurityTest L test sa = (case st_matching_rule test of
     None \<Rightarrow> (True, AddSecurityCheck (GenericSecurityCheck test None) sa)
   | Some rule \<Rightarrow>
       (case Init L (GenericResponseMatcher rule) of
          (False, rm) \<Rightarrow> (False, sa)
        | (True, rm) \<Rightarrow> (True, AddSecurityCheck (GenericSecurityCheck test (Some rm)) sa)))"

text \<open>
  The loop of \<open>ScheduleNextCheck\<close>. \<open>Run\<close> keeps the current check, so the comparison of the
  next position with the current one never stops the loop; it only bounds the recursion.
\<close>

function ScheduleNextCheck ::
    "externals \<Rightarrow> flags \<Rightarrow> data_store \<Rightarrow> security_check list \<Rightarrow> request \<Rightarrow> check_runner \<Rightarrow>
     http_client \<Rightarrow> bool \<times> check_runner \<times> http_client" where
  "ScheduleNextCheck L F ds checks tested ru c =
     (case Run L F ds (checks ! ru_security_check ru) tested ru c of
        (True, ru1, c1) \<Rightarrow> (True, ru1, c1)
      | (False, ru1, c1) \<Rightarrow>
          (case check_next checks (ru_security_check ru1) of
             None \<Rightarrow> (False, ru1, c1)
           | Some n \<Rightarrow>
               if n \<le> ru_security_check ru then (False, ru1, c1)
               else ScheduleNextCheck L F ds checks tested (snd (SetNextCheck checks ru1)) c1))"
  by pat_completeness auto
termination
proof (relation "measure (\<lambda>(L, F, ds, checks, tested, ru, c). length checks - ru_security_check ru)")
  fix L F ds checks tested and ru :: check_runner and c y ru1c1 and ru1 :: check_runner and c1 n
  assume next_check: "check_next checks (ru_security_check ru1) = Some n"
    and "\<not> n \<le> ru_security_check ru"
  then have "ru_security_check ru < n" "n < length checks"
    by (auto simp: check_next_def split: if_splits)
  then show "((L, F, ds, checks, tested, snd (SetNextCheck checks ru1), c1), (L, F, ds, checks, tested, ru, c))
      \<in> measure (\<lambda>(L, F, ds, checks, tested, ru, c). length checks - ru_security_check ru)"
    using next_check by (simp add: SetNextCheck_def diff_less_mono2)
qed simp

declare ScheduleNextCheck.simps [simp del]

definition ScheduleFirst ::
    "externals \<Rightarrow> flags \<Rightarrow> data_store \<Rightarrow> request \<Rightarrow> selective_auditor \<Rightarrow> http_client \<Rightarrow>
     bool \<times> selective_auditor \<times> http_client" where
  "ScheduleFirst L F ds req sa c =
     (if sa_checks sa = [] then (False, sa, c)
      else
        let name = sa_next_name sa;
            (ok, ru, c') = ScheduleNextCheck L F ds (sa_checks sa) req
              (SecurityCheckRunner name 0 (rq_id req)) c;
            sa1 = sa\<lparr>sa_next_name := name + 1\<rparr>
        in if ok then (True, sa1\<lparr>sa_runners := sa_runners sa1 @ [ru]\<rparr>, c') else (False, sa1, c'))"

definition put_runner :: "check_runner \<Rightarrow> selective_auditor \<Rightarrow> selective_auditor" where
  "put_runner ru sa =
     sa\<lparr>sa_runners := map (\<lambda>r. if ru_name r = ru_name ru then ru else r) (sa_runners sa)\<rparr>"

definition erase_runner :: "nat \<Rightarrow> selective_auditor \<Rightarrow> selective_auditor" where
  "erase_runner name sa = sa\<lparr>sa_runners := filter (\<lambda>r. ru_name r \<noteq> name) (sa_runners sa)\<rparr>"

fun scrape_all ::
    "(request \<Rightarrow> data_store \<Rightarrow> data_store result) \<Rightarrow> request list \<Rightarrow> data_store \<Rightarrow> data_store result" where
  "scrape_all scrape [] ds = Inr ds"
| "scrape_all scrape (req # reqs) ds = and_then (scrape req ds) (scrape_all scrape reqs)"

text \<open>\<open>FinishedCheckCb\<close>: scrape the answers, then the next check or the end of the runner.\<close>

definition FinishedCheckCb ::
    "externals \<Rightarrow> flags \<Rightarrow> (request \<Rightarrow> data_store \<Rightarrow> data_store result) \<Rightarrow> check_runner \<Rightarrow>
     selective_auditor \<Rightarrow> http_client \<Rightarrow> data_store \<Rightarrow>
     (selective_auditor \<times> http_client \<times> data_store) result" where
  "FinishedCheckCb L F scrape ru sa c ds =
     and_then (if ru_requests_completed ru \<noteq> 0 then scrape_all scrape (ru_requests ru) ds else Inr ds)
       (\<lambda>ds1. case GetRequestById (ru_tested_request ru) ds1 of
          None \<Rightarrow> Inl UseAfterFree
        | Some tested \<Rightarrow>
            (case SetNextCheck (sa_checks sa) ru of
               (False, ru1) \<Rightarrow> Inr (erase_runner (ru_name ru) sa, c, ds1)
             | (True, ru1) \<Rightarrow>
                 (case ScheduleNextCheck L F ds1 (sa_checks sa) tested ru1 c of
                    (True, ru2, c') \<Rightarrow> Inr (put_runner ru2 sa, c', ds1)
                  | (False, ru2, c') \<Rightarrow> Inr (erase_runner (ru_name ru) sa, c', ds1))))"

section \<open>The passive auditor\<close>

type_synonym passive_auditor = "(response_matcher \<times> security_test) list"

definition passive_AddSecurityTest ::
    "externals \<Rightarrow> security_test \<Rightarrow> passive_auditor \<Rightarrow> bool \<times> passive_auditor" where
  "passive_AddSecurityTest L check pa =
     (case Init L (GenericResponseMatcher (value_or \<lparr>mr_condition = []\<rparr> (st_matching_rule check))) of
        (False, rm) \<Rightarrow> (False, pa)
      | (True, rm) \<Rightarrow> (True, pa @ [(rm, check)]))"

definition Check ::
    "externals \<Rightarrow> flags \<Rightarrow> passive_auditor \<Rightarrow> request \<Rightarrow> data_store \<Rightarrow> bool \<times> data_store" where
  "Check L F pa req ds =
     (if rq_response req = None then (False, ds)
      else
        (True, fold (\<lambda>(rm, test) ds.
           if MatchSingle L (meta_of ds) rm req
           then snd (AddIssue L F (rq_id req) (value_or INVALID (st_issue_type test))
                  (advisory_severity test) req ds)
           else ds) pa ds))"

section \<open>Lemmas: running a check\<close>

lemma Schedule_handler_simps:
  "Schedule_handler ref rh req c =
     (hc_enabled c, req\<lparr>rq_handler := Some rh\<rparr>,
      if hc_enabled c then c\<lparr>hc_schedule_queue := hc_schedule_queue c @ [ref]\<rparr> else c)"
  by (simp add: Schedule_handler_def Schedule_def)

abbreviation handled_by :: "nat \<Rightarrow> request list \<Rightarrow> request list" where
  "handled_by name reqs \<equiv> map (\<lambda>r. r\<lparr>rq_handler := Some (RunnerHandler name)\<rparr>) reqs"

lemma schedule_requests_enabled:
  "hc_enabled c \<Longrightarrow> schedule_requests serial name k reqs c =
     (True, handled_by name reqs,
      c\<lparr>hc_schedule_queue := hc_schedule_queue c @ map (TestRequest name) [k..<k + length reqs]\<rparr>)"
proof (induction reqs arbitrary: k c)
  case (Cons r reqs)
  have "[k..<k + length (r # reqs)] = k # [Suc k..<Suc k + length reqs]" by (simp add: upt_rec)
  then show ?case using Cons by (simp add: Schedule_handler_simps)
qed simp

lemma schedule_requests_disabled:
  "\<not> hc_enabled c \<Longrightarrow> schedule_requests True name k reqs c = (True, handled_by name reqs, c)"
  "\<not> hc_enabled c \<Longrightarrow> reqs \<noteq> [] \<Longrightarrow> fst (schedule_requests False name k reqs c) = False"
  by (induction reqs arbitrary: k) (auto simp: Schedule_handler_simps)

lemma schedule_requests_parents:
  "schedule_requests serial name k reqs c = (ok, reqs', c') \<Longrightarrow>
     map rq_parent_id reqs' = map rq_parent_id reqs"
  by (induction reqs arbitrary: k c ok reqs' c') (auto simp: Schedule_handler_simps split: prod.splits if_splits)

lemma Run_frame:
  assumes "Run L F ds check tested ru c = (ok, ru', c')"
  shows "ru_security_check ru' = ru_security_check ru" "ru_name ru' = ru_name ru"
    "ru_tested_request ru' = ru_tested_request ru"
    "ru_requests_completed ru' = ru_requests_completed ru" "ru_finished ru' = ru_finished ru"
  using assms by (auto simp: Run_def Let_def split: prod.splits if_splits)

lemma Run_parents:
  assumes "Run L F ds check tested ru c = (ok, ru', c')" "ru_requests ru = []" "r \<in> set (ru_requests ru')"
  shows "rq_parent_id r = rq_id tested"
proof -
  let ?reqs = "snd (CreateRequests L F check tested [])"
  have "map rq_parent_id (ru_requests ru') = map rq_parent_id ?reqs"
    using assms(1,2) by (auto simp: Run_def Let_def dest: schedule_requests_parents
        split: prod.splits if_splits)
  then have "set (map rq_parent_id (ru_requests ru')) = set (map rq_parent_id ?reqs)" by (rule arg_cong)
  then obtain r' where "r' \<in> set ?reqs" "rq_parent_id r = rq_parent_id r'"
    using assms(3) by auto
  then show ?thesis using any_check.create_from_empty [of r' L F check tested] by simp
qed

section \<open>Lemmas: completing a check\<close>

fun callbacks ::
    "externals \<Rightarrow> flags \<Rightarrow> security_check \<Rightarrow> nat list \<Rightarrow> check_runner \<Rightarrow> data_store \<Rightarrow>
     (check_runner \<times> data_store) result" where
  "callbacks L F check [] ru ds = Inr (ru, ds)"
| "callbacks L F check (k # ks) ru ds =
     and_then (runner_RequestCallback L F check k ru ds) (\<lambda>(ru', ds'). callbacks L F check ks ru' ds')"

lemma Evaluate_total: "requests \<noteq> [] \<Longrightarrow> \<exists>b ds'. Evaluate L check requests ds = Inr (b, ds')"
  by (auto simp: Evaluate_def ResponseTimeCheck_Evaluate_def average_usec_def Let_def
      split: security_check.split option.split)

lemma callback_progress:
  assumes "0 \<le> ru_requests_completed ru" "ru_requests_completed ru < int (length (ru_requests ru))"
    "\<not> ru_finished ru" "length (ru_requests ru) < 2 ^ 31"
  shows "\<exists>ru' ds'. runner_RequestCallback L F check k ru ds = Inr (ru', ds') \<and>
     ru_requests ru' = ru_requests ru \<and> ru_requests_completed ru' = ru_requests_completed ru + 1 \<and>
     (ru_finished ru' \<longleftrightarrow> ru_requests_completed ru' = int (length (ru_requests ru)))"
proof -
  have "size_of_int (ru_requests_completed ru + 1) = nat (ru_requests_completed ru + 1)"
    using assms by (intro size_of_int_small) auto
  then have fin: "size_of_int (ru_requests_completed ru + 1) = length (ru_requests ru) \<longleftrightarrow>
      ru_requests_completed ru + 1 = int (length (ru_requests ru))" using assms(1) by auto
  have "ru_requests ru \<noteq> []" using assms(1,2) by auto
  then obtain b ds1 where "Evaluate L check (ru_requests ru) ds = Inr (b, ds1)"
    using Evaluate_total by blast
  moreover have "size_of_int (int (length (ru_requests ru))) = length (ru_requests ru)"
    using assms(4) size_of_int_small [of "int (length (ru_requests ru))"] by simp
  ultimately show ?thesis using assms(3) by (auto simp: runner_RequestCallback_def Let_def fin)
qed

lemma callbacks_progress:
  "0 \<le> ru_requests_completed ru \<Longrightarrow>
     ru_requests_completed ru + int (length ks) \<le> int (length (ru_requests ru)) \<Longrightarrow>
     (ru_finished ru \<longleftrightarrow> ru_requests_completed ru = int (length (ru_requests ru))) \<Longrightarrow>
     length (ru_requests ru) < 2 ^ 31 \<Longrightarrow>
     \<exists>ru' ds'. callbacks L F check ks ru ds = Inr (ru', ds') \<and>
       ru_requests_completed ru' = ru_requests_completed ru + int (length ks) \<and>
       (ru_finished ru' \<longleftrightarrow> ru_requests_completed ru' = int (length (ru_requests ru)))"
proof (induction ks arbitrary: ru ds)
  case (Cons k ks)
  have "ru_requests_completed ru < int (length (ru_requests ru))" using Cons.prems(2) by simp
  then obtain ru1 ds1 where 1: "runner_RequestCallback L F check k ru ds = Inr (ru1, ds1)"
    "ru_requests ru1 = ru_requests ru" "ru_requests_completed ru1 = ru_requests_completed ru + 1"
    "ru_finished ru1 \<longleftrightarrow> ru_requests_completed ru1 = int (length (ru_requests ru))"
    using callback_progress [of ru L F check k ds] Cons.prems by auto
  then show ?case using Cons.IH [of ru1 ds1] Cons.prems by auto
qed auto

lemma ScheduleNextCheck_True:
  "ScheduleNextCheck L F ds checks tested ru c = (True, ru', c') \<Longrightarrow> ru_security_check ru < length checks \<Longrightarrow>
     \<exists>ru0 c0. Run L F ds (checks ! ru_security_check ru') tested ru0 c0 = (True, ru', c') \<and>
       ru_security_check ru \<le> ru_security_check ru' \<and> ru_security_check ru' < length checks \<and>
       ru_name ru' = ru_name ru \<and> (ru_requests ru = [] \<longrightarrow> ru_requests ru0 = [])"
proof (induction L F ds checks tested ru c rule: ScheduleNextCheck.induct)
  case (1 L F ds checks tested ru c)
  obtain ok ru1 c1 where run: "Run L F ds (checks ! ru_security_check ru) tested ru c = (ok, ru1, c1)"
    by (metis prod_cases3)
  note fr = Run_frame [OF run]
  show ?case
  proof (cases ok)
    case True
    then have "ru' = ru1" "c' = c1" using "1.prems"(1) run by (auto simp: ScheduleNextCheck.simps [of L F ds checks])
    then show ?thesis using run True fr "1.prems"(2) by auto
  next
    case False
    then have nx: "check_next checks (ru_security_check ru1) = Some (Suc (ru_security_check ru))"
      "Suc (ru_security_check ru) < length checks"
      and rest: "ScheduleNextCheck L F ds checks tested (snd (SetNextCheck checks ru1)) c1 = (True, ru', c')"
      using "1.prems"(1) run fr
      by (auto simp: ScheduleNextCheck.simps [of L F ds checks tested ru] check_next_def split: if_splits)
    have s: "ru_security_check (snd (SetNextCheck checks ru1)) = Suc (ru_security_check ru)"
      "ru_requests (snd (SetNextCheck checks ru1)) = []" "ru_name (snd (SetNextCheck checks ru1)) = ru_name ru"
      using nx fr by (simp_all add: SetNextCheck_def)
    show ?thesis
      using "1.IH" [OF run [symmetric] _ refl nx(1) _ rest] False s nx(2) by auto
  qed
qed

lemma ScheduleNextCheck_tested:
  "ScheduleNextCheck L F ds checks tested ru c = (ok, ru', c') \<Longrightarrow> ru_tested_request ru' = ru_tested_request ru"
proof (induction L F ds checks tested ru c rule: ScheduleNextCheck.induct)
  case (1 L F ds checks tested ru c)
  obtain b ru1 c1 where run: "Run L F ds (checks ! ru_security_check ru) tested ru c = (b, ru1, c1)"
    by (metis prod_cases3)
  have s: "ru_tested_request (snd (SetNextCheck checks ru1)) = ru_tested_request ru"
    using Run_frame [OF run] by (simp add: SetNextCheck_def split: option.split)
  show ?case
    using "1.prems" run Run_frame [OF run] s "1.IH" [OF run [symmetric] _ refl]
    by (auto simp: ScheduleNextCheck.simps [of L F ds checks tested ru] split: bool.splits option.splits if_splits)
qed

section \<open>Lemmas: the first check that runs\<close>

lemma schedule_requests_fails:
  "schedule_requests serial name k reqs c = (False, reqs', c') \<Longrightarrow> c' = c"
proof (induction reqs arbitrary: k c reqs')
  case (Cons r reqs)
  have "\<not> hc_enabled c" using Cons.prems schedule_requests_enabled [of c serial name k "r # reqs"] by auto
  then show ?case using Cons by (auto simp: Schedule_handler_simps split: prod.splits if_splits)
qed simp

lemma Run_fails: "Run L F ds check tested ru c = (False, ru', c') \<Longrightarrow> c' = c"
  by (auto simp: Run_def Let_def dest: schedule_requests_fails split: prod.splits if_splits)

text \<open>A run of the check at position \<open>i\<close> by a new runner.\<close>

definition fresh_run ::
    "externals \<Rightarrow> flags \<Rightarrow> data_store \<Rightarrow> security_check list \<Rightarrow> request \<Rightarrow> nat \<Rightarrow> http_client \<Rightarrow> nat \<Rightarrow>
     bool \<times> check_runner \<times> http_client" where
  "fresh_run L F ds checks tested name c i =
     Run L F ds (checks ! i) tested (SecurityCheckRunner name i (rq_id tested)) c"

lemma fresh_run_True:
  assumes "fresh_run L F ds checks tested name c i = (True, ru, c')"
  shows "ru_requests ru = handled_by name (snd (CreateRequests L F (checks ! i) tested []))"
proof -
  obtain reqs where "CreateRequests L F (checks ! i) tested [] = (True, reqs)"
      "schedule_requests (CanEvaluateInSerial (checks ! i)) name 0 reqs c = (True, ru_requests ru, c')"
    using assms by (auto simp: fresh_run_def Run_def SecurityCheckRunner_def Let_def split: prod.splits if_splits)
  then show ?thesis
    using schedule_requests_enabled [of c "CanEvaluateInSerial (checks ! i)" name 0 reqs]
      schedule_requests_disabled [where c = c and name = name and k = 0 and reqs = reqs]
    by (cases "hc_enabled c"; cases "CanEvaluateInSerial (checks ! i)"; cases "reqs = []") auto
qed

text \<open>A failed run is followed by one of the next check, and that is as of a new runner.\<close>

lemma ScheduleNextCheck_first:
  assumes "i < length checks"
    "ScheduleNextCheck L F ds checks tested (SecurityCheckRunner name i (rq_id tested)) c = (ok, ru, c')"
  shows "if ok
     then \<exists>k. i \<le> k \<and> k < length checks \<and> (\<forall>j. i \<le> j \<longrightarrow> j < k \<longrightarrow> \<not> fst (fresh_run L F ds checks tested name c j)) \<and>
       fresh_run L F ds checks tested name c k = (True, ru, c')
     else (\<forall>j. i \<le> j \<longrightarrow> j < length checks \<longrightarrow> \<not> fst (fresh_run L F ds checks tested name c j)) \<and> c' = c"
  using assms
proof (induction "length checks - i" arbitrary: i)
  case (Suc n)
  let ?ru = "SecurityCheckRunner name i (rq_id tested)" and ?run = "fresh_run L F ds checks tested name c"
  have pos: "ru_security_check ?ru = i" by (simp add: SecurityCheckRunner_def)
  obtain b ru1 c1 where run: "Run L F ds (checks ! i) tested ?ru c = (b, ru1, c1)" by (metis prod_cases3)
  then have here: "?run i = (b, ru1, c1)" by (simp add: fresh_run_def)
  show ?case
  proof (cases b)
    case True
    then have "ok" "ru = ru1" "c' = c1" using Suc.prems(2) run pos by (auto simp: ScheduleNextCheck.simps [of L F ds checks])
    then show ?thesis using here True Suc.prems(1) by (auto intro!: exI [of _ i])
  next
    case False
    note fr = Run_frame [OF run, unfolded pos]
    have c1: "c1 = c" using run False Run_fails by auto
    show ?thesis
    proof (cases "Suc i < length checks")
      case last: False
      then have "\<not> ok" "c' = c1" using Suc.prems(2) run False pos fr(1)
        by (auto simp: ScheduleNextCheck.simps [of L F ds checks] check_next_def)
      moreover have "\<not> fst (?run j)" if "i \<le> j" "j < length checks" for j
        using that last here False by (metis fst_conv le_neq_implies_less less_trans_Suc)
      ultimately show ?thesis using c1 by simp
    next
      case more: True
      have "snd (SetNextCheck checks ru1) = SecurityCheckRunner name (Suc i) (rq_id tested)"
        using fr more by (cases ru1) (simp add: SetNextCheck_def check_next_def SecurityCheckRunner_def)
      then have rest: "ScheduleNextCheck L F ds checks tested (SecurityCheckRunner name (Suc i) (rq_id tested)) c = (ok, ru, c')"
        using Suc.prems(2) run False pos fr(1) more c1
        by (simp add: ScheduleNextCheck.simps [of L F ds checks tested ?ru] check_next_def)
      have n: "n = length checks - Suc i" using Suc.hyps(2) by simp
      note IH = Suc.hyps(1) [OF n more rest]
      have below: "\<not> fst (?run j)" if "i \<le> j" "\<forall>j'. Suc i \<le> j' \<longrightarrow> j' < m \<longrightarrow> \<not> fst (?run j')" "j < m" for j m
        using that here False by (cases "j = i") auto
      show ?thesis
      proof (cases ok)
        case True
        then obtain k where "Suc i \<le> k" "k < length checks" "?run k = (True, ru, c')"
            "\<forall>j. Suc i \<le> j \<longrightarrow> j < k \<longrightarrow> \<not> fst (?run j)"
          using IH by auto
        then show ?thesis using True below by (auto intro!: exI [of _ k])
      next
        case False
        then show ?thesis using IH below by auto
      qed
    qed
  qed
qed simp

section \<open>Properties\<close>

text \<open>
  C25: what \<open>Run\<close> does with the requests of a check, when the check made some and does not match the
  tested page itself. An enabled client gets a pointer to each of them, in order, and the runner is the
  handler of all. Over a disabled client a check that is not evaluated in serial does not start; but
  one that is counts as started although nothing was queued, so no callback will ever finish it.
\<close>

theorem Run_schedules:
  assumes "CreateRequests L F check tested (ru_requests ru) = (True, reqs)" "reqs \<noteq> []"
    "\<not> (CanEvaluateInSerial check \<and> EvaluateSingle L ds check tested)"
    "handled = map (\<lambda>r. r\<lparr>rq_handler := Some (RunnerHandler (ru_name ru))\<rparr>) reqs"
  shows "Run L F ds check tested ru c =
     (if hc_enabled c then
        (True, ru\<lparr>ru_requests := handled\<rparr>, c\<lparr>hc_schedule_queue := hc_schedule_queue c @
           map (TestRequest (ru_name ru)) [0..<length reqs]\<rparr>)
      else if CanEvaluateInSerial check then (True, ru\<lparr>ru_requests := handled\<rparr>, c)
      else (False, ru\<lparr>ru_requests := hd handled # tl reqs\<rparr>, c))"
proof (cases "hc_enabled c")
  case True
  then show ?thesis using assms schedule_requests_enabled [OF True, of "CanEvaluateInSerial check" "ru_name ru" 0 reqs]
    by (auto simp: Run_def Let_def)
next
  case False
  then show ?thesis using assms schedule_requests_disabled(1) [OF False, of "ru_name ru" 0 reqs]
    by (cases reqs) (auto simp: Run_def Schedule_handler_simps Let_def)
qed

definition demo_runner :: check_runner where
  "demo_runner = SecurityCheckRunner 7 0 1"

text \<open>A check that is evaluated answer by answer, over an enabled and over a disabled client.\<close>

definition serial_check :: security_check where
  "serial_check = GenericSecurityCheck \<lparr>st_name = None, st_issue_type = None, st_generator_rule = Some debug_rule,
     st_allow_serial_evaluation = Some True, st_matching_rule = None, st_advisory = None\<rparr> None"

theorem Run_schedules_witness:
  "\<exists>ru1 c1 ru2. Run simple_lib default_flags sample_store serial_check sample_request demo_runner
       (client_Enable (CurlHttpClient 1)) = (True, ru1, c1) \<and> hc_schedule_queue c1 = [TestRequest 7 0] \<and>
     Run simple_lib default_flags sample_store serial_check sample_request demo_runner (CurlHttpClient 1) =
       (True, ru2, CurlHttpClient 1) \<and> length (ru_requests ru2) = 1"
proof -
  let ?made = "CreateRequests simple_lib default_flags serial_check sample_request (ru_requests demo_runner)"
  have "fst ?made \<and> length (snd ?made) = 1" by code_simp
  then obtain reqs where reqs: "?made = (True, reqs)" "length reqs = 1" by (cases ?made) auto
  have one: "reqs \<noteq> []" "\<not> (CanEvaluateInSerial serial_check \<and> EvaluateSingle simple_lib sample_store serial_check sample_request)"
    "CanEvaluateInSerial serial_check"
    using reqs(2) by (auto simp: serial_check_def EvaluateSingle_def CanEvaluateInSerial_def)
  note run = Run_schedules [OF reqs(1) one(1,2) refl]
  show ?thesis
    using run [of "client_Enable (CurlHttpClient 1)"] run [of "CurlHttpClient 1"] one(3) reqs(2)
    by (simp add: client_Enable_def CurlHttpClient_def demo_runner_def SecurityCheckRunner_def)
qed

text \<open>
  C14: a runner that starts with no answer is finished exactly when it got as many callbacks as
  it has requests, whatever their order and result; no callback faults. A request that is never
  answered therefore keeps its runner alive.
\<close>

theorem runner_finishes:
  assumes "ru_requests_completed ru = 0" "\<not> ru_finished ru" "ru_requests ru \<noteq> []"
    "length ks \<le> length (ru_requests ru)" "length (ru_requests ru) < 2 ^ 31"
  shows "\<exists>ru' ds'. callbacks L F check ks ru ds = Inr (ru', ds') \<and>
     (ru_finished ru' \<longleftrightarrow> length ks = length (ru_requests ru))"
  using callbacks_progress [of ru ks L F check ds] assms by auto

theorem runner_finishes_witness:
  "\<exists>ru' ds'. callbacks simple_lib default_flags (ResponseTimeCheck 2 100) [1, 0]
     (demo_runner\<lparr>ru_requests := [timed_request 1, timed_request 2]\<rparr>) sample_store = Inr (ru', ds') \<and>
     ru_finished ru'"
  using runner_finishes [of "demo_runner\<lparr>ru_requests := [timed_request 1, timed_request 2]\<rparr>" "[1, 0]"
      simple_lib default_flags "ResponseTimeCheck 2 100" sample_store]
  by (auto simp: demo_runner_def SecurityCheckRunner_def)

text \<open>
  C26: the auditor starts the first check that runs for a request. The check it starts is the one a new
  runner starts too, with all checks before it failing to run: nothing of those is left in the
  runner, whose requests are just the ones the check made of no others, with the audited
  request as their parent, so that issues are filed under it, and with no callback counted yet.
  When it starts no check then none of them runs, and client and runners are as before.
\<close>

theorem ScheduleFirst_first_check:
  assumes "ScheduleFirst L F ds req sa c = (ok, sa', c')" "checks = sa_checks sa" "name = sa_next_name sa"
  shows "if ok
     then \<exists>i ru. i < length checks \<and> (\<forall>j < i. \<not> fst (fresh_run L F ds checks req name c j)) \<and>
       fresh_run L F ds checks req name c i = (True, ru, c') \<and>
       sa' = sa\<lparr>sa_next_name := name + 1, sa_runners := sa_runners sa @ [ru]\<rparr> \<and>
       ru_name ru = name \<and> ru_security_check ru = i \<and> ru_tested_request ru = rq_id req \<and>
       ru_requests_completed ru = 0 \<and> \<not> ru_finished ru \<and>
       ru_requests ru = handled_by name (snd (CreateRequests L F (checks ! i) req [])) \<and>
       (\<forall>r \<in> set (ru_requests ru). rq_parent_id r = rq_id req)
     else (\<forall>j < length checks. \<not> fst (fresh_run L F ds checks req name c j)) \<and> sa_runners sa' = sa_runners sa \<and> c' = c"
proof (cases "checks = []")
  case False
  then obtain ru where ru: "ScheduleNextCheck L F ds checks req (SecurityCheckRunner name 0 (rq_id req)) c = (ok, ru, c')"
    and sa': "sa' = (if ok then sa\<lparr>sa_next_name := name + 1, sa_runners := sa_runners sa @ [ru]\<rparr> else sa\<lparr>sa_next_name := name + 1\<rparr>)"
    using assms by (auto simp: ScheduleFirst_def Let_def split: if_splits prod.splits)
  note first = ScheduleNextCheck_first [OF _ ru]
  show ?thesis
  proof (cases ok)
    case True
    then obtain i where i: "i < length checks" "\<forall>j < i. \<not> fst (fresh_run L F ds checks req name c j)"
        and run: "fresh_run L F ds checks req name c i = (True, ru, c')"
      using first False by auto
    have new: "ru_requests (SecurityCheckRunner name i (rq_id req)) = []" by (simp add: SecurityCheckRunner_def)
    have parents: "\<forall>r \<in> set (ru_requests ru). rq_parent_id r = rq_id req"
      using Run_parents [OF run [unfolded fresh_run_def] new] by blast
    have clean: "ru_name ru = name" "ru_security_check ru = i" "ru_tested_request ru = rq_id req"
      "ru_requests_completed ru = 0" "\<not> ru_finished ru"
      using Run_frame [OF run [unfolded fresh_run_def]] by (simp_all add: SecurityCheckRunner_def)
    have added: "sa' = sa\<lparr>sa_next_name := name + 1, sa_runners := sa_runners sa @ [ru]\<rparr>" using sa' True by simp
    show ?thesis unfolding if_P [OF True]
      by (rule exI [of _ i], rule exI [of _ ru], intro conjI) (fact i run added clean parents fresh_run_True [OF run])+
  qed (use first False sa' in auto)
qed (use assms in \<open>auto simp: ScheduleFirst_def\<close>)

text \<open>Two checks, the first of which finds no body parameter to test.\<close>

definition body_check :: security_check where
  "body_check = GenericSecurityCheck \<lparr>st_name = None, st_issue_type = None,
     st_generator_rule = Some (debug_rule\<lparr>gr_target := [\<lparr>pt_type = Some BODY_PARAMS, pt_target_name = [], pt_last_field_only = None\<rparr>]\<rparr>),
     st_allow_serial_evaluation = None, st_matching_rule = None, st_advisory = None\<rparr> None"

theorem ScheduleFirst_first_check_witness:
  "\<exists>ru. sa_runners (fst (snd (ScheduleFirst simple_lib default_flags sample_store (sample_request\<lparr>rq_id := 1\<rparr>)
      (AddSecurityCheck (ResponseTimeCheck 2 100) (AddSecurityCheck body_check SelectiveAuditor))
      (client_Enable (CurlHttpClient 1))))) = [ru] \<and>
     ru_tested_request ru = 1 \<and> ru_security_check ru = 1 \<and>
     list_all (\<lambda>r. rq_parent_id r = 1) (ru_requests ru) \<and> length (ru_requests ru) = 2"
proof -
  let ?s = "ScheduleFirst simple_lib default_flags sample_store (sample_request\<lparr>rq_id := 1\<rparr>)
      (AddSecurityCheck (ResponseTimeCheck 2 100) (AddSecurityCheck body_check SelectiveAuditor))
      (client_Enable (CurlHttpClient 1))"
  have ok: "fst ?s" "map (\<lambda>ru. (ru_security_check ru, length (ru_requests ru))) (sa_runners (fst (snd ?s))) = [(1, 2)]"
    by code_simp+
  obtain b sa' c' where result: "?s = (b, sa', c')" by (rule prod_cases3)
  have s: "?s = (True, sa', c')" using ok(1) unfolding result by simp
  let ?sa = "AddSecurityCheck (ResponseTimeCheck 2 100) (AddSecurityCheck body_check SelectiveAuditor)"
  note started = ScheduleFirst_first_check [OF s refl refl, unfolded if_True]
  obtain ru where
      ru: "sa' = ?sa\<lparr>sa_next_name := sa_next_name ?sa + 1, sa_runners := sa_runners ?sa @ [ru]\<rparr>"
        "ru_tested_request ru = rq_id (sample_request\<lparr>rq_id := 1\<rparr>)"
        "\<forall>r \<in> set (ru_requests ru). rq_parent_id r = rq_id (sample_request\<lparr>rq_id := 1\<rparr>)"
    by (insert started, elim exE conjE) (rule that)
  have one: "sa_runners sa' = [ru]" unfolding ru(1) by (simp only: AddSecurityCheck_def SelectiveAuditor_def) simp
  have "(ru_security_check ru, length (ru_requests ru)) = (1, 2)" using ok(2) unfolding s snd_conv fst_conv one by simp
  then show ?thesis using one ru(2,3) unfolding s snd_conv fst_conv by (intro exI [of _ ru]) (simp add: list_all_iff)
qed

end
