(* ===== verification/Crawler.thy ===== *)
theory Crawler
  imports Check_Runner Html_Scraper
begin

text \<open>
  \<open>src/crawler.{h,cc}\<close>: schedules stored requests, handles their responses (loop detection,
  passive checks, the audit queue, scraping) and scrapes the answers to test requests. The
  crawler only reads \<open>selective_auditor_\<close> as a flag; the passive auditor is the list of its
  checks. A request is looked up in the data store by id where the code holds its pointer: the
  scraping steps change only the fingerprint and the issues of the request being scraped,
  which they do not read again.
\<close>

record crawler =
  cr_selective_auditor :: bool
  cr_passive_auditor :: "passive_auditor option"

definition GetBinaryMimeTypes :: "mime_type list" where
  "GetBinaryMimeTypes =
     [BIN_CAB, BIN_ZIP, BIN_GZIP, IMG_GIF, IMG_ANI, IMG_BMP, IMG_PNG, IMG_TIFF, EXT_JAR, EXT_PDF, EXT_CLASS]"

definition GetNoTestingResponseCodes :: "response_code list" where
  "GetNoTestingResponseCodes =
     [NOT_FOUND, FORBIDDEN, BAD_REQUEST, METHOD_NOT_ALLOWED, PROXY_AUTHENTICATION_REQUIRED]"

text \<open>The handler is set whether or not the client takes the request.\<close>

definition Crawl :: "int \<Rightarrow> data_store \<Rightarrow> http_client \<Rightarrow> (bool \<times> data_store \<times> http_client) result" where
  "Crawl i ds c =
     (case GetRequestById i ds of
        None \<Rightarrow> Inl NullPointer
      | Some req \<Rightarrow>
          let (ok, c') = Schedule (StoredRequest i) c
          in Inr (ok, put_request i (req\<lparr>rq_handler := Some CrawlerHandler\<rparr>) ds, c'))"

definition MaybeAddURL ::
    "externals \<Rightarrow> flags \<Rightarrow> request \<Rightarrow> string \<Rightarrow> data_store \<Rightarrow> (bool \<times> data_store) result" where
  "MaybeAddURL L F ref url ds =
     and_then (Request_ref L F url (Some ref)) (\<lambda>req.
       let (i, ds') = AddRequest L F req ds in Inr (i \<noteq> kInvalidId, ds'))"

section \<open>Scraping\<close>

definition sniffed_mime :: "response \<Rightarrow> mime_type" where
  "sniffed_mime resp =
     (let mime = MimeType resp in
      if mime \<in> set [ASC_GENERIC, ASC_JAVASCRIPT, ASC_JSON, APP_JSON, APP_JAVASCRIPT, APP_XJAVASCRIPT]
      then value_or mime (SniffMimeType (resp_body (rs_http_response resp))) else mime)"

definition add_anchors ::
    "externals \<Rightarrow> flags \<Rightarrow> request \<Rightarrow> string list \<Rightarrow> data_store \<Rightarrow> data_store result" where
  "add_anchors L F req anchors ds =
     for_each (\<lambda>anchor ds. and_then (MaybeAddURL L F req anchor ds) (\<lambda>(ok, ds'). Inr ds')) anchors ds"

definition add_form_requests :: "externals \<Rightarrow> flags \<Rightarrow> request list \<Rightarrow> data_store \<Rightarrow> data_store" where
  "add_form_requests L F reqs ds = fold (\<lambda>r ds. snd (AddRequest L F r ds)) reqs ds"

definition issue_of_page :: "request \<Rightarrow> issue_details \<Rightarrow> issue_details" where
  "issue_of_page req issue =
     (let i1 = issue\<lparr>is_request := Some (rq_proto req)\<rparr> in
      case rq_response req of Some r \<Rightarrow> i1\<lparr>is_response := Some (rs_http_response r)\<rparr> | None \<Rightarrow> i1)"

definition add_page_issues ::
    "externals \<Rightarrow> flags \<Rightarrow> request \<Rightarrow> issue_details list \<Rightarrow> data_store \<Rightarrow> data_store" where
  "add_page_issues L F req issues ds =
     (let req_id = (if rq_id req = kInvalidId then rq_parent_id req else rq_id req)
      in fold (\<lambda>issue ds. snd (AddIssueDetails L F req_id (issue_of_page req issue) ds)) issues ds)"

text \<open>
  The HTML part; \<open>False\<close> when the page does not parse. A successful parse always has a
  fingerprint.
\<close>

definition scrape_html ::
    "externals \<Rightarrow> flags \<Rightarrow> request \<Rightarrow> string \<Rightarrow> bool \<Rightarrow> bool \<Rightarrow> data_store \<Rightarrow> (bool \<times> data_store) result" where
  "scrape_html L F req body store_fingerprint also_extract_links ds =
     and_then (scraper_Parse L F req body HtmlScraper) (\<lambda>(parsed, hs).
       if \<not> parsed then Inr (False, ds)
       else
         and_then
           (if store_fingerprint
            then AddResponseFingerprintToRequest (rq_id req) (value_or HtmlFingerprint (hs_fingerprint hs)) ds
            else Inr (True, ds))
           (\<lambda>(stored, ds1).
             and_then (if also_extract_links then add_anchors L F req (hs_anchors hs) ds1 else Inr ds1)
               (\<lambda>ds2. Inr (True, add_page_issues L F req (hs_issues hs)
                  (add_form_requests L F (hs_requests hs) ds2)))))"

definition ScrapeRequest ::
    "externals \<Rightarrow> flags \<Rightarrow> request \<Rightarrow> bool \<Rightarrow> bool \<Rightarrow> data_store \<Rightarrow> (bool \<times> data_store) result" where
  "ScrapeRequest L F req extract_links store_fingerprint ds =
     (let also_extract_links = (fl_extract_links F \<and> extract_links) in
      case rq_response req of
        None \<Rightarrow> Inr (False, ds)
      | Some resp \<Rightarrow>
          let mime = sniffed_mime resp in
          and_then
            (if mime = ASC_HTML \<or> mime = XML_XHTML
             then scrape_html L F req (resp_body (rs_http_response resp)) store_fingerprint also_extract_links ds
             else Inr (True, ds))
            (\<lambda>(scraped, ds1).
               if \<not> scraped then Inr (False, ds1)
               else if \<not> also_extract_links then Inr (True, ds1)
               else
                 case GetHeader resp kLocation of
                   None \<Rightarrow> Inr (True, ds1)
                 | Some location \<Rightarrow>
                     and_then (MaybeAddURL L F req location ds1) (\<lambda>(ok, ds2). Inr (True, ds2))))"

definition Scrape :: "externals \<Rightarrow> flags \<Rightarrow> request \<Rightarrow> data_store \<Rightarrow> (bool \<times> data_store) result" where
  "Scrape L F req ds = ScrapeRequest L F req False False ds"

definition ScrapeWithLinks :: "externals \<Rightarrow> flags \<Rightarrow> request \<Rightarrow> data_store \<Rightarrow> (bool \<times> data_store) result" where
  "ScrapeWithLinks L F req ds = ScrapeRequest L F req True True ds"

section \<open>The response callback\<close>

definition same_response :: "request \<Rightarrow> response \<Rightarrow> bool" where
  "same_response r resp \<longleftrightarrow> (case rq_response r of Some pr \<Rightarrow> response_Equals pr resp | None \<Rightarrow> False)"

definition crawler_loop :: "request \<Rightarrow> response \<Rightarrow> data_store \<Rightarrow> bool" where
  "crawler_loop req resp ds \<longleftrightarrow>
     rq_parent_id req \<noteq> 0 \<and>
     (case GetRequestById (rq_parent_id req) ds of
        None \<Rightarrow> False
      | Some parent \<Rightarrow>
          same_response parent resp \<and> rq_parent_id parent \<noteq> 0 \<and>
          (case GetRequestById (rq_parent_id parent) ds of
             None \<Rightarrow> False | Some grandparent \<Rightarrow> same_response grandparent resp))"

definition audits :: "crawler \<Rightarrow> response \<Rightarrow> data_store \<Rightarrow> bool" where
  "audits cr resp ds \<longleftrightarrow>
     \<not> (resp_code (rs_http_response resp) \<in> set GetNoTestingResponseCodes \<or>
        IsFileNotFoundHtmlFingerprint (rs_html_fingerprint resp) ds) \<and> cr_selective_auditor cr"

definition maybe_truncate :: "flags \<Rightarrow> int \<Rightarrow> response \<Rightarrow> data_store \<Rightarrow> data_store result" where
  "maybe_truncate F i resp ds =
     (if fl_discard_binary_responses F \<and> MimeType resp \<in> set GetBinaryMimeTypes then
        (case GetRequestById i ds of
           None \<Rightarrow> Inl UseAfterFree
         | Some req \<Rightarrow> and_then (truncate_response_body req) (\<lambda>r. Inr (put_request i r ds)))
      else Inr ds)"

definition crawler_RequestCallback ::
    "externals \<Rightarrow> flags \<Rightarrow> crawler \<Rightarrow> int \<Rightarrow> data_store \<Rightarrow> (int \<times> data_store) result" where
  "crawler_RequestCallback L F cr i ds =
     (case GetRequestById i ds of
        None \<Rightarrow> Inl UseAfterFree
      | Some req \<Rightarrow>
          (case rq_response req of
             None \<Rightarrow> Inr (1, ds)
           | Some resp \<Rightarrow>
               if crawler_loop req resp ds then Inr (1, ds)
               else
                 let ds1 = (case cr_passive_auditor cr of None \<Rightarrow> ds | Some pa \<Rightarrow> snd (Check L F pa req ds));
                     ds2 = (if audits cr resp ds1 then AddRequestToAuditQueue i ds1 else ds1)
                 in and_then (ScrapeWithLinks L F req ds2) (\<lambda>(scraped, ds3).
                      and_then (maybe_truncate F i resp ds3) (\<lambda>ds4. Inr (0, ds4)))))"

section \<open>What the crawler does to the data store\<close>

lemma Parse_no_fingerprint:
  "Parse L text r = Inr (ok, r') \<Longrightarrow> rs_html_fingerprint r' = rs_html_fingerprint r"
  by (auto simp: Parse_def ParseHeaders_def set_body_def Let_def and_then_eq_Inr split: if_splits option.splits list.splits)


text \<open>
  The components change the store by the store's own operations. Beside that, they never give a
  stored request a parent, which the loop detection would need, they store no request without a
  host, and a stored request stays stored and keeps its handler, unless the crawler becomes it.
  A stored request the crawler has not got yet waits in the probe or in the crawl queue.
\<close>

definition parentless :: "data_store \<Rightarrow> bool" where
  "parentless ds \<longleftrightarrow> (\<forall>i r. GetRequestById i ds = Some r \<longrightarrow> rq_parent_id r = kInvalidId)"

definition hosted :: "data_store \<Rightarrow> bool" where
  "hosted ds \<longleftrightarrow> (\<forall>i r. GetRequestById i ds = Some r \<longrightarrow> hr_host (rq_proto r) \<noteq> None)"

definition handler_kept :: "request \<Rightarrow> request \<Rightarrow> bool" where
  "handler_kept r r' \<longleftrightarrow> rq_handler r' = rq_handler r \<or> rq_handler r' = Some CrawlerHandler"

definition store_extends :: "data_store \<Rightarrow> data_store \<Rightarrow> bool" where
  "store_extends ds ds' \<longleftrightarrow>
     (\<forall>i r. GetRequestById i ds = Some r \<longrightarrow> (\<exists>r'. GetRequestById i ds' = Some r' \<and> handler_kept r r'))"

lemma handler_kept_same [simp, intro]: "rq_handler r' = rq_handler r \<Longrightarrow> handler_kept r r'"
  by (simp add: handler_kept_def)

lemma store_extends_refl [simp, intro]: "store_extends ds ds"
  by (simp add: store_extends_def)

lemma store_extends_trans: "store_extends ds1 ds2 \<Longrightarrow> store_extends ds2 ds3 \<Longrightarrow> store_extends ds1 ds3"
  unfolding store_extends_def handler_kept_def by metis

lemma store_extends_same: "store_of ds' = store_of ds \<Longrightarrow> store_extends ds ds'"
  by (simp add: store_extends_def GetRequestById_def)

definition tracked :: "data_store \<Rightarrow> bool" where
  "tracked ds \<longleftrightarrow> (\<forall>i r. GetRequestById i ds = Some r \<longrightarrow>
     i \<in> set (ds_probe_queue ds) \<or> i \<in> set (ds_crawl_queue ds) \<or> rq_handler r = Some CrawlerHandler)"

lemma tracked_extend:
  assumes "tracked ds" "ds_probe_queue ds' = ds_probe_queue ds" "ds_crawl_queue ds' = ds_crawl_queue ds"
    "\<And>j r'. GetRequestById j ds' = Some r' \<Longrightarrow> \<exists>r. GetRequestById j ds = Some r \<and> handler_kept r r'"
  shows "tracked ds'"
  using assms unfolding tracked_def handler_kept_def by metis

definition store_kept :: "externals \<Rightarrow> flags \<Rightarrow> data_store \<Rightarrow> data_store \<Rightarrow> bool" where
  "store_kept L F ds ds' \<longleftrightarrow> (ds_step L F)\<^sup>*\<^sup>* ds ds' \<and> (parentless ds \<longrightarrow> parentless ds') \<and>
     (hosted ds \<longrightarrow> hosted ds') \<and> (message_law L \<longrightarrow> ds_inv ds \<longrightarrow> store_extends ds ds') \<and>
     (tracked ds \<longrightarrow> tracked ds')"

lemma ds_steps_inv: "(ds_step L F)\<^sup>*\<^sup>* ds ds' \<Longrightarrow> message_law L \<Longrightarrow> ds_inv ds \<Longrightarrow> ds_inv ds'"
  by (induction rule: rtranclp_induct) (auto intro: ds_step_inv)

lemma store_kept_refl [simp, intro]: "store_kept L F ds ds"
  by (simp add: store_kept_def)

lemma store_kept_trans: "store_kept L F ds1 ds2 \<Longrightarrow> store_kept L F ds2 ds3 \<Longrightarrow> store_kept L F ds1 ds3"
  unfolding store_kept_def using ds_steps_inv store_extends_trans by (meson rtranclp_trans)

lemma step_kept:
  "ds_step L F ds ds' \<Longrightarrow> store_of ds' = store_of ds \<Longrightarrow> set (ds_probe_queue ds) \<subseteq> set (ds_probe_queue ds') \<Longrightarrow>
     set (ds_crawl_queue ds) \<subseteq> set (ds_crawl_queue ds') \<Longrightarrow> store_kept L F ds ds'"
  by (auto simp: store_kept_def store_extends_same parentless_def hosted_def tracked_def GetRequestById_def)

text \<open>The crawler's steps also leave the audit queue alone, but for the one push of its callback.\<close>

definition crawled :: "externals \<Rightarrow> flags \<Rightarrow> data_store \<Rightarrow> data_store \<Rightarrow> bool" where
  "crawled L F ds ds' \<longleftrightarrow> store_kept L F ds ds' \<and>
     (\<forall>i. GetRequestById i ds \<noteq> None \<longrightarrow> GetRequestById i ds' \<noteq> None) \<and> ds_audit_queue ds' = ds_audit_queue ds"

lemma crawled_kept: "crawled L F ds ds' \<Longrightarrow> store_kept L F ds ds'"
  by (simp add: crawled_def)

lemma crawled_refl [simp, intro]: "crawled L F ds ds"
  by (simp add: crawled_def)

lemma crawled_trans [trans]: "crawled L F ds1 ds2 \<Longrightarrow> crawled L F ds2 ds3 \<Longrightarrow> crawled L F ds1 ds3"
  by (auto simp: crawled_def intro: store_kept_trans)

lemma crawled_fold:
  "(\<And>x ds. x \<in> set xs \<Longrightarrow> crawled L F ds (f x ds)) \<Longrightarrow> crawled L F ds (fold f xs ds)"
  by (induction xs arbitrary: ds) (auto intro: crawled_trans)

lemma crawled_for_each:
  assumes "\<And>x ds ds'. f x ds = Inr ds' \<Longrightarrow> crawled L F ds ds'"
  shows "for_each f xs ds = Inr ds' \<Longrightarrow> crawled L F ds ds'"
  by (rule for_each_inv [of xs "crawled L F ds" f ds]) (auto intro: crawled_trans assms)

lemma crawled_put:
  assumes "GetRequestById i ds = Some r" "same_identity r r'" "rq_parent_id r' = rq_parent_id r"
    "hr_host (rq_proto r') = hr_host (rq_proto r)" "handler_kept r r'"
  shows "crawled L F ds (put_request i r' ds)"
proof -
  have "tracked (put_request i r' ds)" if "tracked ds"
    using assms(1,5) by (intro tracked_extend [OF that]) (auto simp: put_request_def GetRequestById_def split: if_splits)
  then show ?thesis using assms ds_step.update [OF assms(1,2), of L F]
    by (auto simp: crawled_def store_kept_def store_extends_def parentless_def hosted_def GetRequestById_def)
qed

lemma crawled_AddRequest:
  assumes "rq_issues req = []" "rq_parent_id req = kInvalidId" "url_is_valid req \<longrightarrow> hr_host (rq_proto req) \<noteq> None"
  shows "crawled L F ds (snd (AddRequest L F req ds))"
proof -
  have "(ds_step L F)\<^sup>*\<^sup>* ds (snd (AddRequest L F req ds))" using ds_step.request [OF assms(1)] by blast
  moreover have "store_extends ds (snd (AddRequest L F req ds))" if "ds_inv ds"
    using new_id_fresh [of ds] that
    by (auto simp: store_extends_def ds_inv_def GetRequestById_def AddRequest_scope AddRequestToPivot_alt
        AddRequestToIdMap_alt Let_def split_beta)
  ultimately show ?thesis using assms(2,3)
    by (auto simp: crawled_def store_kept_def parentless_def hosted_def tracked_def GetRequestById_def AddRequest_scope
        in_scope_def AddRequestToPivot_alt AddRequestToIdMap_alt Let_def split_beta split: if_splits)
qed

lemma crawled_AddRequest_fresh: "fresh_request req \<Longrightarrow> crawled L F ds (snd (AddRequest L F req ds))"
  by (rule crawled_AddRequest) (simp_all add: fresh_request_def)

lemma AddIssueDetails_store:
  "AddIssueDetails L F i iss ds = (ok, ds') \<Longrightarrow> ds_audit_queue ds' = ds_audit_queue ds \<and>
     ds_probe_queue ds' = ds_probe_queue ds \<and> ds_crawl_queue ds' = ds_crawl_queue ds \<and>
     (store_of ds' = store_of ds \<or>
      (\<exists>r. store_of ds i = Some r \<and> store_of ds' = (store_of ds)(i \<mapsto> request_AddIssue iss r)))"
proof (cases ok)
  case True
  moreover assume "AddIssueDetails L F i iss ds = (ok, ds')"
  ultimately show ?thesis using AddIssueDetails_True [of L F i iss ds ds'] by auto
next
  case False
  moreover assume "AddIssueDetails L F i iss ds = (ok, ds')"
  ultimately show ?thesis using AddIssueDetails_False [of L F i iss ds ds'] by auto
qed

lemma crawled_AddIssueDetails: "crawled L F ds (snd (AddIssueDetails L F i iss ds))"
proof -
  have "(ds_step L F)\<^sup>*\<^sup>* ds (snd (AddIssueDetails L F i iss ds))" using ds_step.issue by blast
  moreover obtain ok ds' where issue: "AddIssueDetails L F i iss ds = (ok, ds')" by force
  moreover have "tracked ds'" if "tracked ds"
    using AddIssueDetails_store [OF issue]
    by (intro tracked_extend [OF that]) (auto simp: GetRequestById_def request_AddIssue_def split: if_splits)
  ultimately show ?thesis using AddIssueDetails_store [OF issue]
    by (auto simp: crawled_def store_kept_def store_extends_def parentless_def hosted_def GetRequestById_def
        request_AddIssue_def split: if_splits)
qed

lemma crawled_fingerprint:
  assumes "AddResponseFingerprintToRequest i fp ds = Inr (ok, ds')"
  shows "crawled L F ds ds'"
proof (cases "GetRequestById i ds")
  case (Some r)
  then obtain r' where r': "set_response_html_fingerprint fp r = Inr r'" "ds' = put_request i r' ds"
    using assms by (auto simp: AddResponseFingerprintToRequest_def and_then_eq_Inr)
  then have "rq_parent_id r' = rq_parent_id r" "hr_host (rq_proto r') = hr_host (rq_proto r)" "handler_kept r r'"
    by (auto simp: set_response_html_fingerprint_def split: option.splits)
  then show ?thesis
    using crawled_put [OF Some set_response_html_fingerprint_identity [OF r'(1)]] r'(2) by simp
qed (use assms in \<open>simp add: AddResponseFingerprintToRequest_def\<close>)

lemma crawled_MaybeAddURL: "MaybeAddURL L F ref url ds = Inr (ok, ds') \<Longrightarrow> crawled L F ds ds'"
  using crawled_AddRequest_fresh [OF fresh_Request_ref]
  by (fastforce simp: MaybeAddURL_def and_then_eq_Inr Let_def split_beta)

lemma crawled_add_anchors: "add_anchors L F req anchors ds = Inr ds' \<Longrightarrow> crawled L F ds ds'"
  unfolding add_anchors_def
  by (rule crawled_for_each) (auto simp: and_then_eq_Inr dest: crawled_MaybeAddURL)

lemma crawled_page_issues: "crawled L F ds (add_page_issues L F req issues ds)"
  by (simp add: add_page_issues_def Let_def crawled_fold crawled_AddIssueDetails)

lemma crawled_form_requests:
  "list_all fresh_request reqs \<Longrightarrow> crawled L F ds (add_form_requests L F reqs ds)"
  by (auto simp: add_form_requests_def list_all_iff intro!: crawled_fold crawled_AddRequest_fresh)

lemma crawled_scrape_html:
  assumes "scrape_html L F req body sf links ds = Inr (ok, ds')"
  shows "crawled L F ds ds'"
proof -
  obtain parsed hs where hs: "scraper_Parse L F req body HtmlScraper = Inr (parsed, hs)"
    using assms by (auto simp: scrape_html_def and_then_eq_Inr)
  show ?thesis
  proof (cases parsed)
    case True
    then obtain stored ds1 ds2 where
        ds1: "(if sf then AddResponseFingerprintToRequest (rq_id req) (value_or HtmlFingerprint (hs_fingerprint hs)) ds
          else Inr (True, ds)) = Inr (stored, ds1)"
        and ds2: "(if links then add_anchors L F req (hs_anchors hs) ds1 else Inr ds1) = Inr ds2"
        and ds': "ds' = add_page_issues L F req (hs_issues hs) (add_form_requests L F (hs_requests hs) ds2)"
      using assms hs by (auto simp: scrape_html_def and_then_eq_Inr)
    have "crawled L F ds ds1" using ds1 crawled_fingerprint by (auto split: if_splits)
    also have "crawled L F ds1 ds2" using ds2 crawled_add_anchors by (auto split: if_splits)
    also have "crawled L F ds2 (add_form_requests L F (hs_requests hs) ds2)"
      using scraper_Parse_ok [of L F req body hs] hs True by (intro crawled_form_requests) simp
    also have "crawled L F \<dots> ds'" unfolding ds' by (rule crawled_page_issues)
    finally show ?thesis .
  qed (use assms hs in \<open>simp add: scrape_html_def\<close>)
qed

lemma crawled_ScrapeRequest:
  assumes "ScrapeRequest L F req links sf ds = Inr (ok, ds')"
  shows "crawled L F ds ds'"
proof (cases "rq_response req")
  case (Some resp)
  let ?html = "sniffed_mime resp = ASC_HTML \<or> sniffed_mime resp = XML_XHTML"
  obtain scraped ds1 where
      ds1: "(if ?html then scrape_html L F req (resp_body (rs_http_response resp)) sf (fl_extract_links F \<and> links) ds
        else Inr (True, ds)) = Inr (scraped, ds1)"
      and "ds' = ds1 \<or> (\<exists>location b. MaybeAddURL L F req location ds1 = Inr (b, ds'))"
    using assms Some by (auto simp: ScrapeRequest_def Let_def and_then_eq_Inr split: if_splits option.splits)
  moreover have "crawled L F ds ds1" using ds1 crawled_scrape_html by (auto split: if_splits)
  ultimately show ?thesis using crawled_MaybeAddURL crawled_trans by blast
qed (use assms in \<open>auto simp: ScrapeRequest_def\<close>)

lemma crawled_Check: "crawled L F ds (snd (Check L F pa req ds))"
  by (auto simp: Check_def AddIssue_def intro!: crawled_fold crawled_AddIssueDetails)

lemma crawled_truncate:
  assumes "maybe_truncate F i resp ds = Inr ds'"
  shows "crawled L F ds ds'"
proof -
  have "crawled L F ds (put_request i r' ds)"
    if "GetRequestById i ds = Some r" "truncate_response_body r = Inr r'" for r r'
    using that(2) by (intro crawled_put [OF that(1)])
      (auto simp: truncate_response_body_def same_identity_def request_key_def host_def split: option.splits)
  then show ?thesis using assms
    by (auto simp: maybe_truncate_def and_then_eq_Inr split: if_splits option.splits)
qed

text \<open>The callback on a response that is not dropped, cut at its steps.\<close>

lemma crawler_RequestCallback_cut:
  assumes "crawler_RequestCallback L F cr i ds = Inr (n, ds')" "GetRequestById i ds = Some req"
    "rq_response req = Some resp" "\<not> crawler_loop req resp ds"
  obtains ds1 ds2 where "crawled L F ds ds1" "n = 0"
    "crawled L F (if audits cr resp ds1 then AddRequestToAuditQueue i ds1 else ds1) ds2" "ds' = ds2"
proof -
  define ds1 where "ds1 = (case cr_passive_auditor cr of None \<Rightarrow> ds | Some pa \<Rightarrow> snd (Check L F pa req ds))"
  define ds2 where "ds2 = (if audits cr resp ds1 then AddRequestToAuditQueue i ds1 else ds1)"
  have ds1: "crawled L F ds ds1" by (auto simp: ds1_def crawled_Check split: option.split)
  obtain scraped ds3 where ds3: "ScrapeWithLinks L F req ds2 = Inr (scraped, ds3)"
      "maybe_truncate F i resp ds3 = Inr ds'" "n = 0"
    using assms
    by (auto simp: crawler_RequestCallback_def Let_def and_then_eq_Inr ds1_def [symmetric] ds2_def [symmetric])
  have "crawled L F ds2 ds'"
    using crawled_ScrapeRequest [OF ds3(1) [unfolded ScrapeWithLinks_def]] crawled_truncate [OF ds3(2)]
    by (rule crawled_trans)
  then show ?thesis using that [OF ds1 ds3(3)] by (simp add: ds2_def)
qed

lemma audit_push_kept: "GetRequestById i ds \<noteq> None \<Longrightarrow> store_kept L F ds (AddRequestToAuditQueue i ds)"
  by (rule step_kept [OF ds_step.audit]) (simp_all add: AddRequestToAuditQueue_def)

lemma push_simps [simp]:
  "parentless (AddRequestToAuditQueue i ds) = parentless ds" "hosted (AddRequestToAuditQueue i ds) = hosted ds"
  by (simp_all add: parentless_def hosted_def GetRequestById_def AddRequestToAuditQueue_def)

lemma crawler_callback_store:
  assumes "crawler_RequestCallback L F cr i ds = Inr (n, ds')"
  shows "store_kept L F ds ds'"
proof (cases "\<exists>req resp. GetRequestById i ds = Some req \<and> rq_response req = Some resp \<and> \<not> crawler_loop req resp ds")
  case True
  then obtain req resp where req: "GetRequestById i ds = Some req" "rq_response req = Some resp"
      "\<not> crawler_loop req resp ds" by blast
  obtain ds1 ds2 where ds1: "crawled L F ds ds1"
      and ds2: "crawled L F (if audits cr resp ds1 then AddRequestToAuditQueue i ds1 else ds1) ds2" "ds' = ds2"
    using crawler_RequestCallback_cut [OF assms req] by metis
  have "GetRequestById i ds1 \<noteq> None" using ds1 req(1) by (simp add: crawled_def)
  then have "store_kept L F ds1 (if audits cr resp ds1 then AddRequestToAuditQueue i ds1 else ds1)"
    by (auto intro: audit_push_kept)
  with ds1 ds2 show ?thesis by (auto dest!: crawled_kept intro: store_kept_trans)
next
  case False
  then have "ds' = ds" using assms
    by (auto simp: crawler_RequestCallback_def split: option.splits if_splits)
  then show ?thesis by simp
qed

lemma ds_steps_reachable: "(ds_step L F)\<^sup>*\<^sup>* ds ds' \<Longrightarrow> ds_reachable L F ds \<Longrightarrow> ds_reachable L F ds'"
  by (induction rule: rtranclp_induct) (auto intro: ds_reachable.step)

lemma not_crawler_loop:
  assumes "parentless ds" "GetRequestById i ds = Some req" "GetRequestById kInvalidId ds = None"
  shows "\<not> crawler_loop req resp ds"
proof -
  have "rq_parent_id req = kInvalidId" using assms(1,2) by (simp add: parentless_def)
  then show ?thesis using assms(3) by (simp add: crawler_loop_def)
qed

lemma reachable_no_invalid:
  "ds_reachable L F ds \<Longrightarrow> message_law L \<Longrightarrow> GetRequestById kInvalidId ds = None"
  using ds_inv_stored [of ds kInvalidId] ds_reachable_inv [of L F ds]
  by (cases "GetRequestById kInvalidId ds") (auto simp: kInvalidId_def)

lemma DoneCb_identity:
  "DoneCb L r = Inr (r', h) \<Longrightarrow> same_identity r r' \<and> rq_parent_id r' = rq_parent_id r"
  by (auto simp: DoneCb_def and_then_eq_Inr same_identity_def request_key_def host_def
      split: if_splits option.splits)

section \<open>A sample crawl\<close>

definition crawl_fetched :: request where
  "crawl_fetched = sample_request\<lparr>rq_id := 1, rq_handler := Some CrawlerHandler,
     rq_raw_response := ''HTTP/1.1 200 OK'' @ [CR, LF] @ ''Content-type: text/html'' @ [CR, LF, CR, LF] @ ''<a>''\<rparr>"

definition crawl_done :: request where
  "crawl_done = (case DoneCb page_lib crawl_fetched of Inr (r, h) \<Rightarrow> r | Inl e \<Rightarrow> Request_empty)"

definition crawl_store :: data_store where
  "crawl_store = put_request 1 crawl_done sample_store"

definition sample_crawler :: crawler where
  "sample_crawler = \<lparr>cr_selective_auditor = True, cr_passive_auditor = Some []\<rparr>"

lemma crawl_DoneCb: "DoneCb page_lib crawl_fetched = Inr (crawl_done, Some CrawlerHandler)"
proof -
  have "map_sum id snd (DoneCb page_lib crawl_fetched) = Inr (Some CrawlerHandler)" by code_simp
  then show ?thesis by (cases "DoneCb page_lib crawl_fetched") (auto simp: crawl_done_def)
qed

lemma crawl_stored: "GetRequestById 1 crawl_store = Some crawl_done"
  by (simp add: crawl_store_def GetRequestById_def)

lemma crawl_reachable: "ds_reachable page_lib default_flags crawl_store"
proof -
  have "AddRequest page_lib = AddRequest simple_lib" by (intro ext) (simp add: AddRequest_def page_lib_def)
  moreover have "rq_issues sample_request = []" by code_simp
  ultimately have "ds_reachable page_lib default_flags sample_store" unfolding sample_store_def
    by (metis ds_reachable.init ds_reachable.step ds_step.host ds_step.request)
  moreover have "same_identity (sample_request\<lparr>rq_id := 1\<rparr>) crawl_done"
    using DoneCb_identity [OF crawl_DoneCb]
    by (simp add: crawl_fetched_def same_identity_def request_key_def host_def split: option.splits)
  ultimately show ?thesis unfolding crawl_store_def
    using ds_reachable.step ds_step.update [OF sample_stored] by blast
qed

lemma message_law_page [simp]: "message_law page_lib"
  by (simp add: message_law_def page_lib_def simple_lib_def)

lemma crawl_parentless: "parentless crawl_store"
proof -
  have "list_all (\<lambda>(i, r). rq_parent_id r = kInvalidId) (ds_requests_by_id crawl_store)" by code_simp
  then show ?thesis by (auto simp: parentless_def GetRequestById_def list_all_iff dest!: map_of_SomeD)
qed

lemma crawl_result:
  obtains ds' where "crawler_RequestCallback page_lib default_flags sample_crawler 1 crawl_store = Inr (0, ds')"
proof -
  let ?r = "crawler_RequestCallback page_lib default_flags sample_crawler 1 crawl_store"
  have "map_sum id fst ?r = Inr 0" by code_simp
  then show ?thesis using that by (cases ?r) auto
qed

section \<open>Properties\<close>

text \<open>
  handling a response changes the data store only by the store's own operations, so every
  state that was reachable leads to a reachable one and the store's invariant holds: requests
  owned by one pivot, queues of stored requests, issues and counters that agree.
\<close>

theorem crawler_keeps_store:
  assumes "message_law L" "ds_reachable L F ds" "crawler_RequestCallback L F cr i ds = Inr (n, ds')"
  shows "ds_reachable L F ds' \<and> ds_inv ds'"
  using assms crawler_callback_store [OF assms(3)] ds_steps_reachable ds_reachable_inv
  unfolding store_kept_def by blast

theorem crawler_keeps_store_witness:
  "\<exists>ds'. crawler_RequestCallback page_lib default_flags sample_crawler 1 crawl_store = Inr (0, ds') \<and> ds_inv ds'"
proof -
  obtain ds' where r: "crawler_RequestCallback page_lib default_flags sample_crawler 1 crawl_store = Inr (0, ds')"
    by (rule crawl_result)
  then show ?thesis using crawler_keeps_store [OF _ crawl_reachable r] by auto
qed

text \<open>
  C35: no request the crawler stores has a parent (only test requests do), so the check of the
  parent and grandparent responses never drops a response: as long as no stored request has a
  parent, a callback on a request with a response runs to the end (result 0), and again no
  stored request has a parent.
\<close>

theorem loop_check_never_drops:
  assumes "message_law L" "ds_reachable L F ds"
    "\<forall>j r. GetRequestById j ds = Some r \<longrightarrow> rq_parent_id r = kInvalidId"
    "GetRequestById i ds = Some req" "rq_response req = Some resp"
    "crawler_RequestCallback L F cr i ds = Inr (n, ds')"
  shows "n = 0 \<and> (\<forall>j r. GetRequestById j ds' = Some r \<longrightarrow> rq_parent_id r = kInvalidId)"
proof -
  have p: "parentless ds" using assms(3) by (simp add: parentless_def)
  have "\<not> crawler_loop req resp ds"
    using not_crawler_loop [OF p assms(4) reachable_no_invalid [OF assms(2,1)]] .
  then have "n = 0" using crawler_RequestCallback_cut [OF assms(6,4,5)] by metis
  moreover have "parentless ds'" using crawler_callback_store [OF assms(6)] p by (simp add: store_kept_def)
  ultimately show ?thesis by (simp add: parentless_def)
qed

theorem loop_check_never_drops_witness:
  "\<exists>ds'. crawler_RequestCallback page_lib default_flags sample_crawler 1 crawl_store = Inr (0, ds') \<and>
     (\<forall>j r. GetRequestById j ds' = Some r \<longrightarrow> rq_parent_id r = kInvalidId)"
proof -
  obtain ds' where r: "crawler_RequestCallback page_lib default_flags sample_crawler 1 crawl_store = Inr (0, ds')"
    by (rule crawl_result)
  have "rq_response crawl_done \<noteq> None" by code_simp
  then obtain resp where "rq_response crawl_done = Some resp" by blast
  from loop_check_never_drops [OF _ crawl_reachable _ crawl_stored this r] crawl_parentless r
  show ?thesis by (auto simp: parentless_def)
qed

text \<open>
  C36: a response comes from \<open>DoneCb\<close> without a fingerprint, and the audit decision is made
  before the page is scraped. So whatever 404 fingerprints are known, a response that is not
  dropped is queued for auditing exactly when there is an auditor and its code is not one of
  the five that are not tested.
\<close>

theorem audit_decision_ignores_fingerprints:
  assumes "DoneCb L r0 = Inr (req, Some CrawlerHandler)" "GetRequestById i ds = Some req"
    "rq_response req = Some resp" "\<not> crawler_loop req resp ds"
    "crawler_RequestCallback L F cr i ds = Inr (n, ds')"
  shows "ds_audit_queue ds' = ds_audit_queue ds @
     (if cr_selective_auditor cr \<and> resp_code (rs_http_response resp) \<notin>
        {NOT_FOUND, FORBIDDEN, BAD_REQUEST, METHOD_NOT_ALLOWED, PROXY_AUTHENTICATION_REQUIRED}
      then [i] else [])"
proof -
  have "rs_html_fingerprint resp = None"
    using assms(1,3) by (auto simp: DoneCb_def and_then_eq_Inr Parse_no_fingerprint Response_def
        split: if_splits option.splits)
  then have "audits cr resp ds1 \<longleftrightarrow> cr_selective_auditor cr \<and> resp_code (rs_http_response resp) \<notin>
        {NOT_FOUND, FORBIDDEN, BAD_REQUEST, METHOD_NOT_ALLOWED, PROXY_AUTHENTICATION_REQUIRED}" for ds1
    by (auto simp: audits_def IsFileNotFoundHtmlFingerprint_def GetNoTestingResponseCodes_def)
  moreover obtain ds1 ds2 where "crawled L F ds ds1"
      "crawled L F (if audits cr resp ds1 then AddRequestToAuditQueue i ds1 else ds1) ds2" "ds' = ds2"
    using crawler_RequestCallback_cut [OF assms(5,2,3,4)] by metis
  ultimately show ?thesis by (simp add: crawled_def AddRequestToAuditQueue_def split: if_splits)
qed

theorem audit_decision_ignores_fingerprints_witness:
  "\<exists>ds'. crawler_RequestCallback page_lib default_flags sample_crawler 1 crawl_store = Inr (0, ds') \<and>
     ds_audit_queue ds' = ds_audit_queue crawl_store @ [1]"
proof -
  obtain ds' where r: "crawler_RequestCallback page_lib default_flags sample_crawler 1 crawl_store = Inr (0, ds')"
    by (rule crawl_result)
  have "map_option (\<lambda>r. resp_code (rs_http_response r)) (rq_response crawl_done) = Some OK" by code_simp
  then obtain resp where resp: "rq_response crawl_done = Some resp" "resp_code (rs_http_response resp) = OK" by auto
  have "\<not> crawler_loop crawl_done resp crawl_store"
    using not_crawler_loop [OF crawl_parentless crawl_stored reachable_no_invalid [OF crawl_reachable]] by simp
  from audit_decision_ignores_fingerprints [OF crawl_DoneCb crawl_stored resp(1) this r] resp(2) r
  show ?thesis by (simp add: sample_crawler_def)
qed

end
