(* ===== verification/Hidden_Objects_Finder.thy ===== *)
theory Hidden_Objects_Finder
  imports Not_Found_Detector Crawler
begin

text \<open>
  \<open>src/hidden_objects_finder.{h,cc}\<close>: guesses URLs from a word list and extensions, and reports
  those that answer with something else than a missing page. The content of a file is an
  argument, \<^const>\<open>None\<close> where it cannot be opened. As in the detector a request is held with the
  number of its making: storing a request under a URL that is in use destroys the request that
  was there, and the client's pointer to it then leads nowhere.
\<close>

record hidden_objects_finder =
  hf_wordlist :: "(string \<times> bool) list"
  hf_extensions :: "string list"
  hf_requests :: "(string \<times> nat \<times> request) list"
  hf_probed_urls :: "string list"
  hf_pending_urls :: "string list"
  hf_test_urls_queue :: "string list"
  hf_num_completed_requests :: int
  hf_num_objects_found :: int
  hf_next :: nat

definition HiddenObjectsFinder :: hidden_objects_finder where
  "HiddenObjectsFinder =
     \<lparr>hf_wordlist = [], hf_extensions = [], hf_requests = [], hf_probed_urls = [], hf_pending_urls = [],
      hf_test_urls_queue = [], hf_num_completed_requests = 0, hf_num_objects_found = 0, hf_next = 0\<rparr>"

section \<open>Word lists\<close>

definition LoadListFromFile :: "externals \<Rightarrow> string option \<Rightarrow> string list \<Rightarrow> nat \<times> string list" where
  "LoadListFromFile L content output =
     (case content of
        None \<Rightarrow> (0, output)
      | Some text \<Rightarrow>
          let out = fold hset_insert (skip_empty (StrSplit L (\<lambda>c. c = LF) text)) output
          in (length out, out))"

definition AddWordlistLine ::
    "externals \<Rightarrow> string \<Rightarrow> hidden_objects_finder \<Rightarrow> bool \<times> hidden_objects_finder" where
  "AddWordlistLine L wordlist_line hf =
     (let split_entry = StrSplit L (\<lambda>c. c = CHR '' '' \<or> c = TAB) wordlist_line in
      if length split_entry \<noteq> 2 then (False, hf)
      else if length (split_entry ! 1) \<noteq> 1 \<or> \<not> isdigit (split_entry ! 1 ! 0) then (False, hf)
      else (True, hf\<lparr>hf_wordlist :=
        hmap_put (split_entry ! 0) (split_entry ! 1 ! 0 \<noteq> CHR ''0'') (hf_wordlist hf)\<rparr>))"

definition LoadWordlistFromFile ::
    "externals \<Rightarrow> string option \<Rightarrow> hidden_objects_finder \<Rightarrow> nat \<times> hidden_objects_finder" where
  "LoadWordlistFromFile L content hf =
     (case LoadListFromFile L content [] of
        (n, entries) \<Rightarrow>
          if n = 0 then (0, hf)
          else let hf' = fold (\<lambda>e hf. snd (AddWordlistLine L e hf)) entries hf
               in (length (hf_wordlist hf'), hf'))"

definition AddExtension :: "string \<Rightarrow> hidden_objects_finder \<Rightarrow> bool \<times> hidden_objects_finder" where
  "AddExtension extension hf =
     (if extension \<notin> set (hf_extensions hf)
      then (True, hf\<lparr>hf_extensions := hf_extensions hf @ [extension]\<rparr>) else (False, hf))"

definition LoadExtensionsFromFile ::
    "externals \<Rightarrow> string option \<Rightarrow> hidden_objects_finder \<Rightarrow> nat \<times> hidden_objects_finder" where
  "LoadExtensionsFromFile L content hf =
     (let (n, exts) = LoadListFromFile L content (hf_extensions hf)
      in (n, hf\<lparr>hf_extensions := exts\<rparr>))"

section \<open>Test URLs\<close>

definition hof_AddUrl :: "string \<Rightarrow> hidden_objects_finder \<Rightarrow> hidden_objects_finder" where
  "hof_AddUrl url hf = hf\<lparr>hf_pending_urls := hf_pending_urls hf @ [url]\<rparr>"

text \<open>The URLs one word gives; a word whose plain URL was probed is skipped as a whole.\<close>

definition word_urls :: "string \<Rightarrow> string list \<Rightarrow> string list \<Rightarrow> string \<times> bool \<Rightarrow> string list" where
  "word_urls base_url probed exts word =
     (let test_url = base_url @ fst word in
      if test_url \<in> set probed then []
      else test_url # (if snd word
        then filter (\<lambda>u. u \<notin> set probed) (map (\<lambda>ext. base_url @ fst word @ ext) exts) else []))"

definition GenerateTestUrls ::
    "string \<Rightarrow> hidden_objects_finder \<Rightarrow> (int \<times> hidden_objects_finder) result" where
  "GenerateTestUrls url hf =
     and_then (StripUrlFileSuffix url) (\<lambda>base_url.
       if url \<in> set (hf_probed_urls hf) then Inr (0, hf)
       else
         let probed = hset_insert url (hf_probed_urls hf);
             q = hf_test_urls_queue hf @
               concat (map (word_urls base_url probed (hf_extensions hf)) (hf_wordlist hf))
         in Inr (int (length q), hf\<lparr>hf_probed_urls := probed, hf_test_urls_queue := q\<rparr>))"

text \<open>One round of the scheduling loop, and the loop over the rounds left of \<open>amount\<close>.\<close>

definition schedule_test ::
    "externals \<Rightarrow> flags \<Rightarrow> string \<Rightarrow> hidden_objects_finder \<Rightarrow> http_client \<Rightarrow>
     (hidden_objects_finder \<times> http_client) result" where
  "schedule_test L F test_url hf c =
     and_then (Request_url L F test_url) (\<lambda>r.
       let req = r\<lparr>rq_handler := Some HiddenObjectsFinderHandler\<rparr>; n = hf_next hf;
           hf1 = hf\<lparr>hf_next := n + 1\<rparr>;
           (ok, c') = Schedule (HiddenRequest n) c
       in Inr (if ok then hf1\<lparr>hf_requests := hmap_put test_url (n, req) (hf_requests hf1)\<rparr> else hf1, c'))"

fun schedule_tests ::
    "externals \<Rightarrow> flags \<Rightarrow> nat \<Rightarrow> hidden_objects_finder \<Rightarrow> http_client \<Rightarrow>
     (hidden_objects_finder \<times> http_client) result" where
  "schedule_tests L F 0 hf c = Inr (hf, c)"
| "schedule_tests L F (Suc amount) hf c =
     (case hf_test_urls_queue hf of
        [] \<Rightarrow> Inr (hf, c)
      | test_url # q \<Rightarrow>
          and_then (schedule_test L F test_url (hf\<lparr>hf_test_urls_queue := q\<rparr>) c)
            (\<lambda>(hf', c'). schedule_tests L F amount hf' c'))"

definition ScheduleRequests ::
    "externals \<Rightarrow> flags \<Rightarrow> int \<Rightarrow> hidden_objects_finder \<Rightarrow> http_client \<Rightarrow>
     (int \<times> hidden_objects_finder \<times> http_client) result" where
  "ScheduleRequests L F amount hf c =
     (if hf_test_urls_queue hf = [] \<and> hf_pending_urls hf = [] then Inr (0, hf, c)
      else
        and_then
          (if hf_test_urls_queue hf = []
           then GenerateTestUrls (hd (hf_pending_urls hf)) (hf\<lparr>hf_pending_urls := drop 1 (hf_pending_urls hf)\<rparr>)
           else Inr (0, hf))
          (\<lambda>(generated, hf1).
             and_then (schedule_tests L F (nat amount) hf1 c)
               (\<lambda>(hf2, c'). Inr (int (length (hf_test_urls_queue hf2)), hf2, c'))))"

section \<open>Answers\<close>

definition hof_erase :: "string \<Rightarrow> hidden_objects_finder \<Rightarrow> hidden_objects_finder" where
  "hof_erase url hf = hf\<lparr>hf_requests := hmap_erase url (hf_requests hf)\<rparr>"

text \<open>
  Reporting an object: the request is looked up by the URL it has now, moved to the data store
  and erased by that URL. Where the lookup finds nothing, a null pointer is passed on; where
  the store refuses the request it is destroyed, and \<open>req->url()\<close> reads freed memory if it was
  the request the callback is for (\<open>n\<close>).
\<close>

definition report_object ::
    "externals \<Rightarrow> flags \<Rightarrow> nat \<Rightarrow> request \<Rightarrow> hidden_objects_finder \<Rightarrow> data_store \<Rightarrow>
     (int \<times> hidden_objects_finder \<times> data_store) result" where
  "report_object L F n req hf ds =
     (case map_of (hf_requests hf) (rq_url req) of
        None \<Rightarrow> Inl NullPointer
      | Some (m, r) \<Rightarrow>
          (case AddRequest L F r ds of
             (request_id, ds1) \<Rightarrow>
               if request_id = kInvalidId \<and> m = n then Inl UseAfterFree
               else
                 let hf1 = hof_erase (rq_url req) hf in
                 if request_id = kInvalidId then Inr (1, hf1, ds1)
                 else
                   and_then (AddIssueById L F request_id OBJECT_FOUND MODERATE ds1) (\<lambda>(ok, ds2).
                     Inr (1, hf1\<lparr>hf_num_objects_found := hf_num_objects_found hf1 + 1\<rparr>, ds2))))"

definition hof_RequestCallback ::
    "externals \<Rightarrow> flags \<Rightarrow> nat \<Rightarrow> request \<Rightarrow> hidden_objects_finder \<Rightarrow> data_store \<Rightarrow>
     (int \<times> hidden_objects_finder \<times> data_store) result" where
  "hof_RequestCallback L F n req hf ds =
     (case rq_response req of
        None \<Rightarrow> Inr (0, hof_erase (rq_url req) hf, ds)
      | Some resp \<Rightarrow>
          if resp_code (rs_http_response resp) = NOT_FOUND \<or> resp_code (rs_http_response resp) = FORBIDDEN
          then Inr (1, hof_erase (rq_url req) hf, ds)
          else
            let hf1 = hf\<lparr>hf_num_completed_requests := hf_num_completed_requests hf + 1\<rparr> in
            and_then (body_fingerprint L (resp_body (rs_http_response resp))) (\<lambda>fp.
              if fp = None \<or> IsFileNotFoundHtmlFingerprint fp ds
              then Inr (0, hof_erase (rq_url req) hf1, ds)
              else report_object L F n req hf1 ds))"

section \<open>Lemmas\<close>

lemma schedule_test_round:
  assumes "split_law L"
  shows "\<exists>req. schedule_test L F u hf c = Inr
     (if hc_enabled c
      then (hf\<lparr>hf_next := hf_next hf + 1, hf_requests := hmap_put u (hf_next hf, req) (hf_requests hf)\<rparr>,
            c\<lparr>hc_schedule_queue := hc_schedule_queue c @ [HiddenRequest (hf_next hf)]\<rparr>)
      else (hf\<lparr>hf_next := hf_next hf + 1\<rparr>, c)) \<and> rq_handler req = Some HiddenObjectsFinderHandler"
proof -
  obtain r where "Request_url L F u = Inr r" using Request_url_total [OF assms] by blast
  then show ?thesis
    by (intro exI [of _ "r\<lparr>rq_handler := Some HiddenObjectsFinderHandler\<rparr>"])
      (simp add: schedule_test_def Schedule_def Let_def)
qed

lemma schedule_tests_run:
  assumes "split_law L"
  shows "\<exists>hf'. schedule_tests L F k hf c = Inr (hf',
       if hc_enabled c
       then c\<lparr>hc_schedule_queue := hc_schedule_queue c @
         map HiddenRequest [hf_next hf..<hf_next hf + min k (length (hf_test_urls_queue hf))]\<rparr> else c) \<and>
     hf_test_urls_queue hf' = drop k (hf_test_urls_queue hf) \<and>
     (\<forall>u. map_of (hf_requests hf') u \<noteq> None \<longleftrightarrow> map_of (hf_requests hf) u \<noteq> None \<or>
        hc_enabled c \<and> u \<in> set (take k (hf_test_urls_queue hf)))"
proof (induction k arbitrary: hf c)
  case (Suc k)
  show ?case
  proof (cases "hf_test_urls_queue hf")
    case (Cons u q)
    define hf1 where "hf1 = hf\<lparr>hf_test_urls_queue := q\<rparr>"
    obtain req where r: "schedule_test L F u hf1 c = Inr
     (if hc_enabled c
      then (hf1\<lparr>hf_next := hf_next hf1 + 1, hf_requests := hmap_put u (hf_next hf1, req) (hf_requests hf1)\<rparr>,
            c\<lparr>hc_schedule_queue := hc_schedule_queue c @ [HiddenRequest (hf_next hf1)]\<rparr>)
      else (hf1\<lparr>hf_next := hf_next hf1 + 1\<rparr>, c))"
      using schedule_test_round [OF assms, of F u hf1 c] by blast
    have upt: "[hf_next hf..<hf_next hf + min (Suc k) (length (u # q))] =
        hf_next hf # [Suc (hf_next hf)..<Suc (hf_next hf) + min k (length q)]" by (simp add: upt_rec)
    show ?thesis
    proof (cases "hc_enabled c")
      case True
      then show ?thesis
        using Suc.IH [of "hf1\<lparr>hf_next := hf_next hf1 + 1, hf_requests := hmap_put u (hf_next hf1, req) (hf_requests hf1)\<rparr>"
            "c\<lparr>hc_schedule_queue := hc_schedule_queue c @ [HiddenRequest (hf_next hf1)]\<rparr>"] r Cons upt
        by (auto simp: hf1_def)
    next
      case False
      then show ?thesis
        using Suc.IH [of "hf1\<lparr>hf_next := hf_next hf1 + 1\<rparr>" c] r Cons by (auto simp: hf1_def)
    qed
  qed simp
qed simp

text \<open>What the data store answers to a request it takes, and to one it refuses.\<close>

lemma AddRequest_taken:
  "AddRequest L F req ds = (i, ds') \<Longrightarrow> in_scope L req ds \<and> pivot_takes F req ds \<Longrightarrow>
     i = ds_request_id ds + 1 \<and> GetRequestById i ds' = Some (req\<lparr>rq_id := i\<rparr>)"
  by (auto simp: pivot_takes_def AddRequest_scope AddRequestToPivot_alt AddRequestToIdMap_alt Let_def
      GetRequestById_def split_beta split: if_splits)

lemma AddRequest_not_taken:
  "AddRequest L F req ds = (i, ds') \<Longrightarrow> \<not> (in_scope L req ds \<and> pivot_takes F req ds) \<Longrightarrow> i = kInvalidId"
  by (auto simp: pivot_takes_def AddRequest_scope AddRequestToPivot_alt AddRequestToIdMap_alt Let_def
      split_beta split: if_splits)

section \<open>Properties\<close>

text \<open>
  \<open>ScheduleRequests\<close> takes up to \<open>amount\<close> test URLs from the front of the queue and returns how
  many are left. An enabled client gets a request for each of them, in order; on a disabled
  client the URLs are taken off the queue and lost.
\<close>

theorem ScheduleRequests_fifo:
  assumes "split_law L" "hf_test_urls_queue hf \<noteq> []"
  shows "\<exists>hf'. ScheduleRequests L F amount hf c =
       Inr (int (length (hf_test_urls_queue hf) - nat amount), hf',
         if hc_enabled c
         then c\<lparr>hc_schedule_queue := hc_schedule_queue c @
           map HiddenRequest [hf_next hf..<hf_next hf + min (nat amount) (length (hf_test_urls_queue hf))]\<rparr> else c) \<and>
     hf_test_urls_queue hf' = drop (nat amount) (hf_test_urls_queue hf) \<and>
     (\<forall>u. map_of (hf_requests hf') u \<noteq> None \<longleftrightarrow> map_of (hf_requests hf) u \<noteq> None \<or>
        hc_enabled c \<and> u \<in> set (take (nat amount) (hf_test_urls_queue hf)))"
  using schedule_tests_run [OF assms(1), of F "nat amount" hf c] assms(2)
  by (auto simp: ScheduleRequests_def)

theorem ScheduleRequests_fifo_witness:
  "\<exists>hf'. ScheduleRequests simple_lib default_flags 1
       (HiddenObjectsFinder\<lparr>hf_test_urls_queue := [''http://a.b:80/x'', ''http://a.b:80/y'']\<rparr>) (client_Enable (CurlHttpClient 1)) =
       Inr (1, hf', (client_Enable (CurlHttpClient 1))\<lparr>hc_schedule_queue := [HiddenRequest 0]\<rparr>) \<and>
     hf_test_urls_queue hf' = [''http://a.b:80/y'']"
  using ScheduleRequests_fifo [OF split_law_simple,
      of "HiddenObjectsFinder\<lparr>hf_test_urls_queue := [''http://a.b:80/x'', ''http://a.b:80/y'']\<rparr>"
        default_flags 1 "client_Enable (CurlHttpClient 1)"]
  by (auto simp: HiddenObjectsFinder_def client_Enable_def CurlHttpClient_def)

text \<open>
  C23: what becomes of an answer that is no missing page. If the finder does not hold the request
  under the URL it prints (the test URL was not canonical), a null pointer is stored; if the
  data store refuses the request, for instance because the page is known, the finder reads the
  request after it was destroyed. Otherwise the request is stored, counted and dropped from the
  finder.
\<close>

theorem found_object_outcome:
  assumes "rq_response req = Some resp" "resp_code (rs_http_response resp) \<noteq> NOT_FOUND"
    "resp_code (rs_http_response resp) \<noteq> FORBIDDEN"
    "body_fingerprint L (resp_body (rs_http_response resp)) = Inr (Some fp)"
    "\<not> IsFileNotFoundHtmlFingerprint (Some fp) ds"
    "map_of (hf_requests hf) (rq_url req) = None \<or> map_of (hf_requests hf) (rq_url req) = Some (n, req)"
  shows "if map_of (hf_requests hf) (rq_url req) = None
     then hof_RequestCallback L F n req hf ds = Inl NullPointer
     else if \<not> (in_scope L req ds \<and> pivot_takes F req ds)
     then hof_RequestCallback L F n req hf ds = Inl UseAfterFree
     else ds_request_id ds + 1 \<noteq> kInvalidId \<longrightarrow>
       (\<exists>hf' ds'. hof_RequestCallback L F n req hf ds = Inr (1, hf', ds') \<and>
          hf_num_objects_found hf' = hf_num_objects_found hf + 1 \<and>
          map_of (hf_requests hf') (rq_url req) = None \<and>
          GetRequestById (ds_request_id ds + 1) ds' \<noteq> None)"
proof -
  obtain i ds1 where add: "AddRequest L F req ds = (i, ds1)" by force
  have call: "hof_RequestCallback L F n req hf ds =
      report_object L F n req (hf\<lparr>hf_num_completed_requests := hf_num_completed_requests hf + 1\<rparr>) ds"
    using assms(1-5) by (simp add: hof_RequestCallback_def Let_def)
  have stored: "i = ds_request_id ds + 1" "GetRequestById i ds1 = Some (req\<lparr>rq_id := i\<rparr>)"
    if "in_scope L req ds" "pivot_takes F req ds"
    using AddRequest_taken [OF add] that by auto
  have refused: "i = kInvalidId" if "\<not> (in_scope L req ds \<and> pivot_takes F req ds)"
    using AddRequest_not_taken [OF add that] .
  have kept: "GetRequestById i (snd (AddIssueDetails L F i iss ds1)) \<noteq> None"
    if "GetRequestById i ds1 = Some r" for iss r
    using crawled_AddIssueDetails [of L F ds1 i iss] that by (simp add: crawled_def)
  show ?thesis
    using assms(6) call add stored refused kept
    by (auto simp: report_object_def AddIssueById_def hof_erase_def Let_def split_beta)
qed

theorem found_object_outcome_witness:
  "\<exists>hf' ds'. hof_RequestCallback page_lib default_flags 7 crawl_done
       (HiddenObjectsFinder\<lparr>hf_requests := [(rq_url crawl_done, 7, crawl_done)]\<rparr>) (AddHost ''a.b'' DataStore) = Inr (1, hf', ds') \<and>
     hf_num_objects_found hf' = 1 \<and> map_of (hf_requests hf') (rq_url crawl_done) = None \<and> GetRequestById 1 ds' \<noteq> None"
proof -
  let ?hf = "HiddenObjectsFinder\<lparr>hf_requests := [(rq_url crawl_done, 7, crawl_done)]\<rparr>"
  let ?ds = "AddHost ''a.b'' DataStore"
  have "rq_response crawl_done \<noteq> None" by code_simp
  then obtain resp where resp: "rq_response crawl_done = Some resp" by auto
  have code: "resp_code (rs_http_response (the (rq_response crawl_done))) \<notin> {NOT_FOUND, FORBIDDEN}" by code_simp
  have "map_sum id (\<lambda>fp. fp \<noteq> None) (body_fingerprint page_lib (resp_body (rs_http_response (the (rq_response crawl_done))))) = Inr True"
    by code_simp
  then obtain fp where fp: "body_fingerprint page_lib (resp_body (rs_http_response resp)) = Inr (Some fp)"
    using resp by (cases "body_fingerprint page_lib (resp_body (rs_http_response resp))") auto
  have unknown: "\<not> IsFileNotFoundHtmlFingerprint (Some fp) ?ds"
    by (simp add: IsFileNotFoundHtmlFingerprint_def AddHost_def DataStore_def)
  have taken: "in_scope page_lib crawl_done ?ds \<and> pivot_takes default_flags crawl_done ?ds" by code_simp
  have ids: "ds_request_id ?ds + 1 = 1" "(1::int) \<noteq> kInvalidId" "hf_num_objects_found ?hf = 0"
    by (simp_all add: AddHost_def DataStore_def kInvalidId_def HiddenObjectsFinder_def)
  from found_object_outcome [OF resp _ _ fp unknown, of ?hf 7 default_flags] code resp taken ids
  show ?thesis by auto
qed

text \<open>
  C22: the detector and the finder agree on missing pages. Once the detector has taken a probe's
  answer, an answer to the finder with the same body is not reported, whatever its status: no
  request and no issue is stored, and the finder's count of found objects stays.
\<close>

theorem missing_page_not_reported:
  assumes "nfd_RequestCallback L probe nd ds = Inr (1, nd', ds')"
    "rq_response probe = Some r" "rq_response req = Some resp"
    "resp_body (rs_http_response resp) = resp_body (rs_http_response r)"
  shows "\<exists>k hf'. hof_RequestCallback L F n req hf ds' = Inr (k, hf', ds') \<and>
     hf_num_objects_found hf' = hf_num_objects_found hf \<and> map_of (hf_requests hf') (rq_url req) = None"
proof -
  obtain fp where "body_fingerprint L (resp_body (rs_http_response r)) = Inr (Some fp)"
    "ds' = AddFileNotFoundHtmlFingerprint fp ds"
    using assms(1,2) by (auto simp: nfd_RequestCallback_def Let_def and_then_def split: sum.splits option.splits)
  then show ?thesis using assms(3,4) IsFileNotFound_added [of fp ds]
    by (simp add: hof_RequestCallback_def hof_erase_def Let_def)
qed

theorem missing_page_not_reported_witness:
  "\<exists>nd' ds' k hf'. nfd_RequestCallback page_lib crawl_done NotFoundDetector DataStore = Inr (1, nd', ds') \<and>
     hof_RequestCallback page_lib default_flags 0 crawl_done HiddenObjectsFinder ds' = Inr (k, hf', ds') \<and>
     hf_num_objects_found hf' = 0"
proof -
  have "rq_response crawl_done \<noteq> None" by code_simp
  then obtain resp where resp: "rq_response crawl_done = Some resp" by auto
  have "map_sum id fst (nfd_RequestCallback page_lib crawl_done NotFoundDetector DataStore) = Inr 1" by code_simp
  then obtain nd' ds' where probe: "nfd_RequestCallback page_lib crawl_done NotFoundDetector DataStore = Inr (1, nd', ds')"
    by (cases "nfd_RequestCallback page_lib crawl_done NotFoundDetector DataStore") auto
  from missing_page_not_reported [OF probe resp resp refl, of default_flags 0 HiddenObjectsFinder] probe
  show ?thesis by (auto simp: HiddenObjectsFinder_def)
qed

end
