(* ===== verification/Reports.thy ===== *)
theory Reports
  imports Data_Store
begin

text \<open>
  \<open>src/report/\<close> and \<open>src/util/file_writer.{h,cc}\<close>: the text and the JSON report. A file writer
  is the text written to its file and whether the file is open; whether a file can be opened is
  an argument. The conversion of messages to JSON is protobuf's and a parameter (status and output), and so is
  the order in which a hash set of issues is iterated. The last part is the path a report takes:
  \<open>Plusfish::InitReporting\<close>, the calls \<open>DataStore::Report\<close> makes and the destructors.
\<close>

section \<open>The file writer\<close>

record file_writer =
  fw_is_open :: bool
  fw_written :: string

definition FileWriter :: file_writer where
  "FileWriter = \<lparr>fw_is_open = False, fw_written = []\<rparr>"

definition fw_Open :: "(string \<Rightarrow> bool) \<Rightarrow> string \<Rightarrow> file_writer \<Rightarrow> bool \<times> file_writer" where
  "fw_Open opens filename w = (let w' = w\<lparr>fw_is_open := opens filename\<rparr> in (fw_is_open w', w'))"

text \<open>A stream whose file is not open takes nothing.\<close>

definition WriteString :: "string \<Rightarrow> file_writer \<Rightarrow> file_writer" where
  "WriteString s w = (if fw_is_open w then w\<lparr>fw_written := fw_written w @ s\<rparr> else w)"

definition fw_Close :: "file_writer \<Rightarrow> file_writer" where
  "fw_Close w = w\<lparr>fw_is_open := False\<rparr>"

section \<open>Names of enum values\<close>

text \<open>The generated \<open>_Name\<close> functions and \<open>ReportType_Parse\<close>.\<close>

fun RequestMethod_Name :: "request_method \<Rightarrow> string" where
  "RequestMethod_Name EMPTY = ''EMPTY''"
| "RequestMethod_Name GET = ''GET''"
| "RequestMethod_Name HEAD = ''HEAD''"
| "RequestMethod_Name OPTIONS = ''OPTIONS''"
| "RequestMethod_Name POST = ''POST''"
| "RequestMethod_Name PUT = ''PUT''"
| "RequestMethod_Name TRACE = ''TRACE''"

fun ResponseCode_Name :: "response_code \<Rightarrow> string" where
  "ResponseCode_Name UNKNOWN_CODE = ''UNKNOWN_CODE''"
| "ResponseCode_Name CONTINUE = ''CONTINUE''"
| "ResponseCode_Name SWITCHING = ''SWITCHING''"
| "ResponseCode_Name OK = ''OK''"
| "ResponseCode_Name CREATED = ''CREATED''"
| "ResponseCode_Name ACCEPTED = ''ACCEPTED''"
| "ResponseCode_Name NON_AUTHORITATIVE = ''NON_AUTHORITATIVE''"
| "ResponseCode_Name NO_CONTENT = ''NO_CONTENT''"
| "ResponseCode_Name RESET_CONTENT = ''RESET_CONTENT''"
| "ResponseCode_Name PARTIAL_CONTENT = ''PARTIAL_CONTENT''"
| "ResponseCode_Name MULTIPLE_CHOISES = ''MULTIPLE_CHOISES''"
| "ResponseCode_Name MOVED_PERM = ''MOVED_PERM''"
| "ResponseCode_Name MOVED_TEMP = ''MOVED_TEMP''"
| "ResponseCode_Name SEE_OTHER = ''SEE_OTHER''"
| "ResponseCode_Name NOT_MODIFIED = ''NOT_MODIFIED''"
| "ResponseCode_Name USE_PROXY = ''USE_PROXY''"
| "ResponseCode_Name TEMP_REDIRECT = ''TEMP_REDIRECT''"
| "ResponseCode_Name BAD_REQUEST = ''BAD_REQUEST''"
| "ResponseCode_Name UNAUTHORIZED = ''UNAUTHORIZED''"
| "ResponseCode_Name PAYMENT_REQUIRED = ''PAYMENT_REQUIRED''"
| "ResponseCode_Name FORBIDDEN = ''FORBIDDEN''"
| "ResponseCode_Name NOT_FOUND = ''NOT_FOUND''"
| "ResponseCode_Name METHOD_NOT_ALLOWED = ''METHOD_NOT_ALLOWED''"
| "ResponseCode_Name NOT_ACCEPTABLE = ''NOT_ACCEPTABLE''"
| "ResponseCode_Name PROXY_AUTHENTICATION_REQUIRED = ''PROXY_AUTHENTICATION_REQUIRED''"
| "ResponseCode_Name REQUEST_TIMEOUT = ''REQUEST_TIMEOUT''"
| "ResponseCode_Name CONFLICT = ''CONFLICT''"
| "ResponseCode_Name GONE = ''GONE''"
| "ResponseCode_Name LENGTH_REQUIRED = ''LENGTH_REQUIRED''"
| "ResponseCode_Name PRECOND_FAILED = ''PRECOND_FAILED''"
| "ResponseCode_Name ENTITY_TOO_BIG = ''ENTITY_TOO_BIG''"
| "ResponseCode_Name URI_TOO_BIG = ''URI_TOO_BIG''"
| "ResponseCode_Name UNKNOWN_MEDIA = ''UNKNOWN_MEDIA''"
| "ResponseCode_Name BAD_RANGE = ''BAD_RANGE''"
| "ResponseCode_Name BAD_EXPECTATION = ''BAD_EXPECTATION''"
| "ResponseCode_Name INTERNAL_SERVER_ERROR = ''INTERNAL_SERVER_ERROR''"
| "ResponseCode_Name NOT_IMPLEMENTED = ''NOT_IMPLEMENTED''"
| "ResponseCode_Name BAD_GATEWAY = ''BAD_GATEWAY''"
| "ResponseCode_Name SERVICE_UNAVAILABLE = ''SERVICE_UNAVAILABLE''"
| "ResponseCode_Name GATEWAY_TIMEOUT = ''GATEWAY_TIMEOUT''"
| "ResponseCode_Name BAD_VERSION = ''BAD_VERSION''"

fun IssueType_Name :: "issue_type \<Rightarrow> string" where
  "IssueType_Name INVALID = ''INVALID''"
| "IssueType_Name XSS_REFLECTED = ''XSS_REFLECTED''"
| "IssueType_Name XSS_REFLECTED_TAG = ''XSS_REFLECTED_TAG''"
| "IssueType_Name XSS_REFLECTED_ATTRIBUTE = ''XSS_REFLECTED_ATTRIBUTE''"
| "IssueType_Name XSS_REFLECTED_JAVASCRIPT = ''XSS_REFLECTED_JAVASCRIPT''"
| "IssueType_Name XSS_STORED = ''XSS_STORED''"
| "IssueType_Name FILE_INCLUSION_LOCAL = ''FILE_INCLUSION_LOCAL''"
| "IssueType_Name FILE_INCLUSION_REMOTE = ''FILE_INCLUSION_REMOTE''"
| "IssueType_Name MIXED_CONTENT = ''MIXED_CONTENT''"
| "IssueType_Name CRLF_INJECTION = ''CRLF_INJECTION''"
| "IssueType_Name SHELL_INJECTION = ''SHELL_INJECTION''"
| "IssueType_Name PLAINTEXT_LOGIN_FORM = ''PLAINTEXT_LOGIN_FORM''"
| "IssueType_Name PLAINTEXT_LOGIN_FORM_TARGET = ''PLAINTEXT_LOGIN_FORM_TARGET''"
| "IssueType_Name GENERIC_MIME = ''GENERIC_MIME''"
| "IssueType_Name TEMPLATE_INJECTION = ''TEMPLATE_INJECTION''"
| "IssueType_Name SQL_INJECTION = ''SQL_INJECTION''"
| "IssueType_Name BLIND_SQL_INJECTION = ''BLIND_SQL_INJECTION''"
| "IssueType_Name BLIND_SHELL_INJECTION = ''BLIND_SHELL_INJECTION''"
| "IssueType_Name XSRF_PASSIVE = ''XSRF_PASSIVE''"
| "IssueType_Name OBJECT_FOUND = ''OBJECT_FOUND''"
| "IssueType_Name INFORMATION_LEAK = ''INFORMATION_LEAK''"
| "IssueType_Name STACKTRACE_LEAK = ''STACKTRACE_LEAK''"
| "IssueType_Name SOURCE_CODE_MIME = ''SOURCE_CODE_MIME''"
| "IssueType_Name APPLICATION_ERROR = ''APPLICATION_ERROR''"
| "IssueType_Name SLOW_SERVER = ''SLOW_SERVER''"

definition ReportType_Parse :: "string \<Rightarrow> report_type option" where
  "ReportType_Parse name =
     map_of [(''UNSPECIFIED'', REPORT_UNSPECIFIED), (''TEXT'', TEXT), (''JSON'', JSON)] name"

section \<open>The text report\<close>

definition request_details :: "request \<Rightarrow> string" where
  "request_details req =
     RequestMethod_Name (req_method (rq_proto req)) @
     (case rq_response req of
        Some resp \<Rightarrow> '', '' @ ResponseCode_Name (resp_code (rs_http_response resp))
      | None \<Rightarrow> '', not_fetched '')"

definition request_line :: "request \<Rightarrow> string" where
  "request_line req =
     rq_url req @ '' ['' @ request_details req @ ''] '' @
     (if rq_issues req = [] then []
      else ''Issue: '' @ concat (map (\<lambda>(t, is). IssueType_Name t @ '' '') (rq_issues req)))"

text \<open>The requests a pivot owns, by the ids of its samples.\<close>

definition pivot_requests :: "request_store \<Rightarrow> pivot \<Rightarrow> request list" where
  "pivot_requests st p = List.map_filter st (pv_samples p)"

definition text_ReportPivot :: "request_store \<Rightarrow> pivot \<Rightarrow> int \<Rightarrow> file_writer \<Rightarrow> file_writer" where
  "text_ReportPivot st p depth w =
     fold (\<lambda>req. WriteString (request_line req @ [LF])) (pivot_requests st p) w"

section \<open>The JSON report\<close>

record report_item =
  ri_request :: http_request
  ri_response :: "http_response option"
  ri_issue :: "issue_details list"

record json_lib =
  config_to_json :: "security_check_config \<Rightarrow> bool \<times> string"
  item_to_json :: "report_item \<Rightarrow> bool \<times> string"
  hash_order :: "issue_details list \<Rightarrow> issue_details list"

definition kConfigPrefix :: string where
  "kConfigPrefix = [CHR ''{'', CHR 0x22] @ ''config'' @ [CHR 0x22] @ '': ''"

definition kPivotsPrefix :: string where
  "kPivotsPrefix = [CHR 0x22] @ ''pivots'' @ [CHR 0x22] @ '': [''"

definition kPivotsSuffix :: string where "kPivotsSuffix = '']}''"
definition kJSONDelimeter :: string where "kJSONDelimeter = '',''"

record json_reporter =
  jr_file_writer :: file_writer
  jr_report_item_cnt :: int
  jr_pivot_prefix_written :: bool

definition JSONReporter_new :: "file_writer \<Rightarrow> json_reporter" where
  "JSONReporter_new w =
     \<lparr>jr_file_writer = w, jr_report_item_cnt = 0, jr_pivot_prefix_written = False\<rparr>"

definition json_write :: "string \<Rightarrow> json_reporter \<Rightarrow> json_reporter" where
  "json_write s jr = jr\<lparr>jr_file_writer := WriteString s (jr_file_writer jr)\<rparr>"

definition JSONReporter_delete :: "json_reporter \<Rightarrow> json_reporter" where
  "JSONReporter_delete jr =
     (let jr' = json_write kPivotsSuffix jr in jr'\<lparr>jr_file_writer := fw_Close (jr_file_writer jr')\<rparr>)"

definition json_ReportSecurityConfig ::
    "json_lib \<Rightarrow> security_check_config \<Rightarrow> json_reporter \<Rightarrow> json_reporter" where
  "json_ReportSecurityConfig J config jr =
     (if jr_pivot_prefix_written jr then jr
      else json_write (kConfigPrefix @ snd (config_to_json J config) @ kJSONDelimeter) jr)"

text \<open>The response is reported without its body, the issues type by type.\<close>

definition request_item :: "json_lib \<Rightarrow> request \<Rightarrow> report_item" where
  "request_item J req =
     \<lparr>ri_request = rq_proto req,
      ri_response = map_option (\<lambda>resp. (rs_http_response resp)\<lparr>hp_response_body := None\<rparr>) (rq_response req),
      ri_issue = concat (map (\<lambda>(t, is). hash_order J is) (rq_issues req))\<rparr>"

text \<open>The loop over the requests: an item that cannot be converted ends the report of the pivot.\<close>

fun write_items :: "json_lib \<Rightarrow> request list \<Rightarrow> json_reporter \<Rightarrow> json_reporter" where
  "write_items J [] jr = jr"
| "write_items J (req # reqs) jr =
     (case item_to_json J (request_item J req) of
        (ok, output_string) \<Rightarrow>
          if \<not> ok then jr
          else
            let jr1 = (if jr_report_item_cnt jr > 0 then json_write kJSONDelimeter jr else jr);
                jr2 = json_write output_string jr1
            in write_items J reqs (jr2\<lparr>jr_report_item_cnt := jr_report_item_cnt jr2 + 1\<rparr>))"

definition json_ReportPivot ::
    "json_lib \<Rightarrow> request_store \<Rightarrow> pivot \<Rightarrow> int \<Rightarrow> json_reporter \<Rightarrow> json_reporter" where
  "json_ReportPivot J st p depth jr =
     write_items J (pivot_requests st p)
       (if \<not> jr_pivot_prefix_written jr
        then (json_write kPivotsPrefix jr)\<lparr>jr_pivot_prefix_written := True\<rparr> else jr)"

section \<open>Reporters\<close>

datatype reporter = TextReporter file_writer | JSONReporter json_reporter

fun ReportPivot :: "json_lib \<Rightarrow> request_store \<Rightarrow> pivot \<Rightarrow> int \<Rightarrow> reporter \<Rightarrow> reporter" where
  "ReportPivot J st p depth (TextReporter w) = TextReporter (text_ReportPivot st p depth w)"
| "ReportPivot J st p depth (JSONReporter jr) = JSONReporter (json_ReportPivot J st p depth jr)"

fun ReportSecurityConfig :: "json_lib \<Rightarrow> security_check_config \<Rightarrow> reporter \<Rightarrow> reporter" where
  "ReportSecurityConfig J config (TextReporter w) = TextReporter w"
| "ReportSecurityConfig J config (JSONReporter jr) = JSONReporter (json_ReportSecurityConfig J config jr)"

fun delete_reporter :: "reporter \<Rightarrow> reporter" where
  "delete_reporter (TextReporter w) = TextReporter (fw_Close w)"
| "delete_reporter (JSONReporter jr) = JSONReporter (JSONReporter_delete jr)"

fun report_file :: "reporter \<Rightarrow> file_writer" where
  "report_file (TextReporter w) = w"
| "report_file (JSONReporter jr) = jr_file_writer jr"

definition GetReporter :: "flags \<Rightarrow> (string \<Rightarrow> bool) \<Rightarrow> report_type \<Rightarrow> reporter option" where
  "GetReporter F opens reporter_type =
     (case reporter_type of
        TEXT \<Rightarrow>
          (case fw_Open opens (fl_text_report_file F) FileWriter of
             (ok, outfile) \<Rightarrow> if ok then Some (TextReporter outfile) else None)
      | JSON \<Rightarrow>
          (case fw_Open opens (fl_json_report_file F) FileWriter of
             (ok, outfile) \<Rightarrow> if ok then Some (JSONReporter (JSONReporter_new outfile)) else None)
      | REPORT_UNSPECIFIED \<Rightarrow> None)"

definition GetReporterByName :: "flags \<Rightarrow> (string \<Rightarrow> bool) \<Rightarrow> string \<Rightarrow> reporter option" where
  "GetReporterByName F opens name =
     (case ReportType_Parse name of None \<Rightarrow> None | Some t \<Rightarrow> GetReporter F opens t)"

text \<open>
  The loop of \<open>InitReporting\<close> over the pieces \<open>getline\<close> reads up to each comma; the reporters
  made before a bad name stay.
\<close>

fun add_reporters ::
    "flags \<Rightarrow> (string \<Rightarrow> bool) \<Rightarrow> string list \<Rightarrow> reporter list \<Rightarrow> bool \<times> reporter list" where
  "add_reporters F opens [] rs = (True, rs)"
| "add_reporters F opens (name # names) rs =
     (case GetReporterByName F opens name of
        Some r \<Rightarrow> add_reporters F opens names (rs @ [r])
      | None \<Rightarrow> (False, rs))"

definition InitReporting ::
    "flags \<Rightarrow> (string \<Rightarrow> bool) \<Rightarrow> string \<Rightarrow> reporter list \<Rightarrow> bool \<times> reporter list" where
  "InitReporting F opens report_types rs =
     add_reporters F opens (split_by (\<lambda>c. c = CHR '','') report_types) rs"

text \<open>\<open>DataStore::Report\<close>: every reporter is given the tree of a host before the next host.\<close>

definition report_tree :: "json_lib \<Rightarrow> data_store \<Rightarrow> pivot \<Rightarrow> reporter \<Rightarrow> reporter" where
  "report_tree J ds p r =
     fold (\<lambda>(q, depth). ReportPivot J (store_of ds) q depth) ((p, 1) # pivot_Report 1 p) r"

definition report_sites :: "json_lib \<Rightarrow> data_store \<Rightarrow> reporter list \<Rightarrow> reporter list" where
  "report_sites J ds rs = fold (\<lambda>(h, p). map (report_tree J ds p)) (ds_site_pivots ds) rs"

definition plusfish_Report ::
    "json_lib \<Rightarrow> security_check_config \<Rightarrow> data_store \<Rightarrow> reporter list \<Rightarrow> bool \<times> reporter list" where
  "plusfish_Report J config ds rs =
     (if rs = [] then (False, rs)
      else (True, report_sites J ds (map (ReportSecurityConfig J config) rs)))"

section \<open>Lemmas\<close>

text \<open>Every request of the trees is given to a reporter once, in the order of the trees.\<close>

definition report_calls :: "json_lib \<Rightarrow> data_store \<Rightarrow> (pivot \<times> int) list \<Rightarrow> reporter \<Rightarrow> reporter" where
  "report_calls J ds calls r = fold (\<lambda>(q, depth). ReportPivot J (store_of ds) q depth) calls r"

definition call_requests :: "request_store \<Rightarrow> (pivot \<times> int) list \<Rightarrow> request list" where
  "call_requests st calls = concat (map (\<lambda>(p, d). pivot_requests st p) calls)"

lemma map_filter_append [simp]: "List.map_filter f (xs @ ys) = List.map_filter f xs @ List.map_filter f ys"
  by (simp add: List.map_filter_def)

lemma map_filter_concat: "List.map_filter f (concat xss) = concat (map (List.map_filter f) xss)"
  by (induction xss) (simp_all add: List.map_filter_def)

lemma pivot_Report_requests:
  "pivot_requests st p @ call_requests st (pivot_Report d p) = List.map_filter st (pivot_ids p)"
proof (induction d p rule: pivot_Report.induct)
  case (1 d tlim clim n cs samples)
  have "call_requests st ((c, d + 1) # pivot_Report (d + 1) c) = List.map_filter st (pivot_ids c)"
    if "(k, c) \<in> set cs" for k c
    using 1 [OF that refl] by (simp add: call_requests_def)
  then have "concat (map (\<lambda>(k, c). call_requests st ((c, d + 1) # pivot_Report (d + 1) c)) cs) =
      concat (map (\<lambda>(k, c). List.map_filter st (pivot_ids c)) cs)"
    by (intro arg_cong [where f = concat] map_cong) auto
  moreover have "call_requests st (concat (map f cs)) = concat (map (\<lambda>x. call_requests st (f x)) cs)" for f
    by (induction cs) (simp_all add: call_requests_def)
  ultimately show ?case
    by (simp add: pivot_requests_def map_filter_concat comp_def split_def)
qed

lemma datastore_Report_requests:
  "call_requests (store_of ds) (datastore_Report ds) = List.map_filter (store_of ds) (site_ids ds)"
proof -
  have "call_requests st (concat (map (\<lambda>(k, p). (p, 1) # pivot_Report 1 p) sites)) =
      List.map_filter st (concat (map (\<lambda>(k, p). pivot_ids p) sites))" for st sites
  proof (induction sites)
    case (Cons s sites)
    obtain k p where s: "s = (k, p)" by (cases s)
    show ?case using Cons pivot_Report_requests [of st p 1] s by (simp add: call_requests_def)
  qed (simp add: call_requests_def)
  then show ?thesis by (simp add: datastore_Report_def site_ids_def)
qed

lemma report_sites_calls: "report_sites J ds rs = map (report_calls J ds (datastore_Report ds)) rs"
proof -
  have "fold (\<lambda>(h, p). map (report_tree J ds p)) sites rs =
      map (report_calls J ds (concat (map (\<lambda>(k, p). (p, 1) # pivot_Report 1 p) sites))) rs" for sites
    by (induction sites arbitrary: rs) (auto simp: report_calls_def report_tree_def intro!: map_idI [symmetric])
  then show ?thesis by (simp add: report_sites_def datastore_Report_def)
qed

text \<open>What a report adds to an open file.\<close>

lemma WriteString_open [simp]:
  "fw_is_open w \<Longrightarrow> WriteString s w = w\<lparr>fw_written := fw_written w @ s\<rparr>"
  by (simp add: WriteString_def)

lemma text_ReportPivot_writes:
  "fw_is_open w \<Longrightarrow> text_ReportPivot st p d w =
     w\<lparr>fw_written := fw_written w @ concat (map (\<lambda>r. request_line r @ [LF]) (pivot_requests st p))\<rparr>"
proof -
  have "fw_is_open w \<Longrightarrow> fold (\<lambda>r. WriteString (request_line r @ [LF])) reqs w =
     w\<lparr>fw_written := fw_written w @ concat (map (\<lambda>r. request_line r @ [LF]) reqs)\<rparr>" for reqs
    by (induction reqs arbitrary: w) simp_all
  then show "fw_is_open w \<Longrightarrow> ?thesis" by (simp add: text_ReportPivot_def)
qed

lemma text_report_calls:
  "fw_is_open w \<Longrightarrow> report_calls J ds calls (TextReporter w) =
     TextReporter (w\<lparr>fw_written := fw_written w @
       concat (map (\<lambda>r. request_line r @ [LF]) (call_requests (store_of ds) calls))\<rparr>)"
  by (induction calls arbitrary: w)
    (auto simp: report_calls_def call_requests_def text_ReportPivot_writes)

text \<open>JSON items, with a delimiter in front when something was written before.\<close>

definition delimited :: "bool \<Rightarrow> string list \<Rightarrow> string" where
  "delimited b items = (if b \<and> items \<noteq> [] then kJSONDelimeter else []) @ join_with kJSONDelimeter items"

lemma join_with_append:
  "join_with d (xs @ ys) = (if xs = [] then join_with d ys else if ys = [] then join_with d xs
     else join_with d xs @ d @ join_with d ys)"
proof (induction xs rule: induct_list012)
  case (3 x y xs)
  then show ?case by auto
qed (auto simp: neq_Nil_conv)

lemma delimited_append: "delimited b (xs @ ys) = delimited b xs @ delimited (b \<or> xs \<noteq> []) ys"
  by (auto simp: delimited_def join_with_append)

lemma delimited_Cons: "delimited b (x # xs) = (if b then kJSONDelimeter else []) @ x @ delimited True xs"
  using delimited_append [of b "[x]" xs] by (simp add: delimited_def)

definition item_text :: "json_lib \<Rightarrow> request \<Rightarrow> string" where
  "item_text J req = snd (item_to_json J (request_item J req))"

definition converts :: "json_lib \<Rightarrow> request list \<Rightarrow> bool" where
  "converts J reqs \<longleftrightarrow> (\<forall>req \<in> set reqs. fst (item_to_json J (request_item J req)))"

lemma write_items_all:
  "converts J reqs \<Longrightarrow> fw_is_open (jr_file_writer jr) \<Longrightarrow> 0 \<le> jr_report_item_cnt jr \<Longrightarrow>
     write_items J reqs jr = jr\<lparr>jr_file_writer := (jr_file_writer jr)\<lparr>fw_written :=
         fw_written (jr_file_writer jr) @ delimited (jr_report_item_cnt jr > 0) (map (item_text J) reqs)\<rparr>,
       jr_report_item_cnt := jr_report_item_cnt jr + int (length reqs)\<rparr>"
proof (induction reqs arbitrary: jr)
  case Nil
  then show ?case by (simp add: delimited_def)
next
  case (Cons req reqs)
  then show ?case
    by (simp add: converts_def split_beta item_text_def json_write_def Let_def delimited_Cons)
qed

lemma json_report_calls:
  assumes "converts J (call_requests (store_of ds) calls)"
  shows "fw_is_open (jr_file_writer jr) \<Longrightarrow> 0 \<le> jr_report_item_cnt jr \<Longrightarrow>
     report_calls J ds calls (JSONReporter jr) = JSONReporter
       (jr\<lparr>jr_file_writer := (jr_file_writer jr)\<lparr>fw_written := fw_written (jr_file_writer jr) @
           (if calls = [] \<or> jr_pivot_prefix_written jr then [] else kPivotsPrefix) @
           delimited (jr_report_item_cnt jr > 0) (map (item_text J) (call_requests (store_of ds) calls))\<rparr>,
         jr_report_item_cnt := jr_report_item_cnt jr + int (length (call_requests (store_of ds) calls)),
         jr_pivot_prefix_written := jr_pivot_prefix_written jr \<or> calls \<noteq> []\<rparr>)"
  using assms
proof (induction calls arbitrary: jr)
  case Nil
  then show ?case by (simp add: report_calls_def call_requests_def delimited_def)
next
  case (Cons c calls)
  obtain p d where c: "c = (p, d)" by (cases c)
  let ?reqs = "pivot_requests (store_of ds) p"
  define jr1 where "jr1 = json_ReportPivot J (store_of ds) p d jr"
  have conv: "converts J ?reqs" "converts J (call_requests (store_of ds) calls)"
    using Cons.prems(3) c by (auto simp: converts_def call_requests_def)
  have jr1: "jr1 = jr\<lparr>jr_file_writer := (jr_file_writer jr)\<lparr>fw_written := fw_written (jr_file_writer jr) @
       (if jr_pivot_prefix_written jr then [] else kPivotsPrefix) @
       delimited (jr_report_item_cnt jr > 0) (map (item_text J) ?reqs)\<rparr>,
     jr_report_item_cnt := jr_report_item_cnt jr + int (length ?reqs), jr_pivot_prefix_written := True\<rparr>"
    using Cons.prems(1,2) conv(1) by (simp add: jr1_def json_ReportPivot_def write_items_all json_write_def)
  have "report_calls J ds (c # calls) (JSONReporter jr) = report_calls J ds calls (JSONReporter jr1)"
    by (simp add: c report_calls_def jr1_def)
  also have "\<dots> = JSONReporter
       (jr1\<lparr>jr_file_writer := (jr_file_writer jr1)\<lparr>fw_written := fw_written (jr_file_writer jr1) @
           delimited (jr_report_item_cnt jr1 > 0) (map (item_text J) (call_requests (store_of ds) calls))\<rparr>,
         jr_report_item_cnt := jr_report_item_cnt jr1 + int (length (call_requests (store_of ds) calls))\<rparr>)"
    using Cons.IH [of jr1] Cons.prems(1,2) conv(2) jr1 by simp
  also have "call_requests (store_of ds) (c # calls) = ?reqs @ call_requests (store_of ds) calls"
    by (simp add: call_requests_def c)
  moreover have "0 < jr_report_item_cnt jr1 \<longleftrightarrow> 0 < jr_report_item_cnt jr \<or> ?reqs \<noteq> []"
    using Cons.prems(2) by (auto simp: jr1 add_nonneg_pos add_pos_nonneg)
  ultimately show ?case by (simp only:) (simp add: jr1 delimited_append add.assoc)
qed

text \<open>In a reachable store the reported requests are the stored ones, each once.\<close>

lemma reported_requests:
  assumes "message_law L" "ds_reachable L F ds"
  shows "map rq_id (List.map_filter (store_of ds) (site_ids ds)) = site_ids ds"
    "mset (site_ids ds) = mset (map fst (ds_requests_by_id ds))"
proof -
  have inv: "ids_inv ds" "pivots_inv ds" using ds_reachable_inv assms by (auto simp: ds_inv_def)
  show ids: "mset (site_ids ds) = mset (map fst (ds_requests_by_id ds))"
    using inv(2) by (simp add: pivots_inv_def)
  have "\<exists>r. store_of ds i = Some r \<and> rq_id r = i" if "i \<in> set (site_ids ds)" for i
  proof -
    have "i \<in> set (map fst (ds_requests_by_id ds))" using that ids by (metis set_mset_mset)
    then obtain r where "store_of ds i = Some r" by (metis map_of_eq_None_iff not_None_eq set_map)
    then show ?thesis using inv(1) by (auto simp: ids_inv_def dest: map_of_SomeD)
  qed
  then have "map rq_id (List.map_filter (store_of ds) is) = is" if "set is \<subseteq> set (site_ids ds)" for "is"
    using that by (induction "is") (fastforce simp: List.map_filter_simps)+
  then show "map rq_id (List.map_filter (store_of ds) (site_ids ds)) = site_ids ds" by simp
qed

lemma reported_stored:
  assumes "message_law L" "ds_reachable L F ds" "r \<in> set (List.map_filter (store_of ds) (site_ids ds))"
  shows "GetRequestById (rq_id r) ds = Some r"
proof -
  obtain i where i: "store_of ds i = Some r" using assms(3) by (auto simp: List.map_filter_def)
  then have "rq_id r = i"
    using ds_reachable_inv [OF assms(2,1)] map_of_SomeD [OF i] by (auto simp: ds_inv_def ids_inv_def)
  then show ?thesis using i by (simp add: GetRequestById_def)
qed

section \<open>Properties\<close>

text \<open>
  C21: the JSON report. With the file open and every item convertible, the finished file is the
  configuration and then an array with one item for each stored request, every stored request
  exactly once, separated by commas. A scan without any pivot leaves a file that is no JSON:
  the array is closed but never opened.
\<close>

theorem json_report_complete:
  assumes "message_law L" "ds_reachable L F ds" "opens (fl_json_report_file F)"
    "InitReporting F opens ''JSON'' [] = (ok, rs)" "plusfish_Report J config ds rs = (done, rs')"
    "converts J (map snd (ds_requests_by_id ds))"
  shows "ok \<and> done \<and> (\<exists>reqs.
     map (\<lambda>r. fw_written (report_file (delete_reporter r))) rs' =
       [kConfigPrefix @ snd (config_to_json J config) @ kJSONDelimeter @
        (if ds_site_pivots ds = [] then [] else kPivotsPrefix @ join_with kJSONDelimeter (map (item_text J) reqs)) @
        kPivotsSuffix] \<and>
     mset (map rq_id reqs) = mset (map fst (ds_requests_by_id ds)) \<and>
     (\<forall>r \<in> set reqs. GetRequestById (rq_id r) ds = Some r))"
proof -
  let ?reqs = "List.map_filter (store_of ds) (site_ids ds)"
  note reqs = reported_requests [OF assms(1,2)]
  define w where "w = \<lparr>fw_is_open = True, fw_written = []\<rparr>"
  have init: "ok" "rs = [JSONReporter (JSONReporter_new w)]"
    using assms(3,4) by (auto simp: InitReporting_def GetReporterByName_def ReportType_Parse_def GetReporter_def
        fw_Open_def FileWriter_def w_def Let_def)
  define jr where "jr = json_ReportSecurityConfig J config (JSONReporter_new w)"
  have jr: "fw_is_open (jr_file_writer jr)" "jr_report_item_cnt jr = 0" "\<not> jr_pivot_prefix_written jr"
    "fw_written (jr_file_writer jr) = kConfigPrefix @ snd (config_to_json J config) @ kJSONDelimeter"
    by (simp_all add: jr_def json_ReportSecurityConfig_def JSONReporter_new_def json_write_def w_def)
  have stored: "\<forall>r \<in> set ?reqs. GetRequestById (rq_id r) ds = Some r"
    using reported_stored [OF assms(1,2)] by blast
  then have conv: "converts J (call_requests (store_of ds) (datastore_Report ds))"
    using assms(6) by (fastforce simp: converts_def datastore_Report_requests GetRequestById_def dest: map_of_SomeD)
  have calls: "datastore_Report ds = [] \<longleftrightarrow> ds_site_pivots ds = []"
    by (cases "ds_site_pivots ds") (auto simp: datastore_Report_def)
  have empty: "?reqs = []" if "ds_site_pivots ds = []" using that by (simp add: site_ids_def List.map_filter_def)
  have "done" "rs' = [report_calls J ds (datastore_Report ds) (JSONReporter jr)]"
    using assms(5) init by (simp_all add: plusfish_Report_def report_sites_calls jr_def)
  then show ?thesis
    using init(1) reqs stored json_report_calls [OF conv, of jr] jr calls empty
    by (intro conjI exI [of _ ?reqs])
      (auto simp: JSONReporter_delete_def json_write_def fw_Close_def Let_def delimited_def datastore_Report_requests)
qed

text \<open>A JSON library for concrete runs.\<close>

definition plain_json :: json_lib where
  "plain_json = \<lparr>config_to_json = (\<lambda>c. (True, ''{}'')),
     item_to_json = (\<lambda>i. (True, req_host (ri_request i))), hash_order = (\<lambda>is. is)\<rparr>"

theorem json_report_complete_witness:
  "\<exists>rs rs' reqs. InitReporting default_flags (\<lambda>f. True) ''JSON'' [] = (True, rs) \<and>
     plusfish_Report plain_json [] sample_store rs = (True, rs') \<and>
     map (\<lambda>r. fw_written (report_file (delete_reporter r))) rs' =
       [kConfigPrefix @ ''{}'' @ kJSONDelimeter @ kPivotsPrefix @
        join_with kJSONDelimeter (map (item_text plain_json) reqs) @ kPivotsSuffix] \<and> mset (map rq_id reqs) = mset [1]"
proof -
  obtain ok rs where init: "InitReporting default_flags (\<lambda>f. True) ''JSON'' [] = (ok, rs)" by force
  obtain "done" rs' where rep: "plusfish_Report plain_json [] sample_store rs = (done, rs')" by force
  have ids: "map fst (ds_requests_by_id sample_store) = [1]" by code_simp
  have sites: "ds_site_pivots sample_store \<noteq> []" by code_simp
  have conv: "converts plain_json (map snd (ds_requests_by_id sample_store))"
    by (simp add: converts_def plain_json_def)
  have cfg: "snd (config_to_json plain_json []) = ''{}''" by (simp add: plain_json_def)
  have out: "ok \<and> done \<and> (\<exists>reqs. map (\<lambda>r. fw_written (report_file (delete_reporter r))) rs' =
       [kConfigPrefix @ ''{}'' @ kJSONDelimeter @ kPivotsPrefix @
        join_with kJSONDelimeter (map (item_text plain_json) reqs) @ kPivotsSuffix] \<and>
     mset (map rq_id reqs) = mset [1] \<and> (\<forall>r \<in> set reqs. GetRequestById (rq_id r) sample_store = Some r))"
    using json_report_complete [OF message_law_simple sample_reachable TrueI init rep conv] sites
    by (simp only: ids cfg if_False append_assoc)
  then have "ok = True" "done = True" by simp_all
  with out init rep show ?thesis by (elim conjE exE) (intro exI conjI; simp only:)
qed

text \<open>
  the text report. With the file open the finished file has one line for each stored
  request, every stored request exactly once, whatever the configuration.
\<close>

theorem text_report_complete:
  assumes "message_law L" "ds_reachable L F ds" "opens (fl_text_report_file F)"
    "InitReporting F opens ''TEXT'' [] = (ok, rs)" "plusfish_Report J config ds rs = (done, rs')"
  shows "ok \<and> done \<and> (\<exists>reqs.
     map (\<lambda>r. fw_written (report_file (delete_reporter r))) rs' = [concat (map (\<lambda>r. request_line r @ [LF]) reqs)] \<and>
     mset (map rq_id reqs) = mset (map fst (ds_requests_by_id ds)) \<and>
     (\<forall>r \<in> set reqs. GetRequestById (rq_id r) ds = Some r))"
proof -
  let ?reqs = "List.map_filter (store_of ds) (site_ids ds)"
  define w where "w = \<lparr>fw_is_open = True, fw_written = []\<rparr>"
  have init: "ok" "rs = [TextReporter w]"
    using assms(3,4) by (auto simp: InitReporting_def GetReporterByName_def ReportType_Parse_def GetReporter_def
        fw_Open_def FileWriter_def w_def Let_def)
  have "done" "rs' = [report_calls J ds (datastore_Report ds) (TextReporter w)]"
    using assms(5) init by (simp_all add: plusfish_Report_def report_sites_calls)
  then show ?thesis
    using init(1) reported_requests [OF assms(1,2)] reported_stored [OF assms(1,2)]
    by (intro conjI exI [of _ ?reqs]) (simp_all add: text_report_calls w_def fw_Close_def datastore_Report_requests)
qed

theorem text_report_complete_witness:
  "\<exists>rs rs' reqs. InitReporting default_flags (\<lambda>f. True) ''TEXT'' [] = (True, rs) \<and>
     plusfish_Report plain_json [] sample_store rs = (True, rs') \<and>
     map (\<lambda>r. fw_written (report_file (delete_reporter r))) rs' = [concat (map (\<lambda>r. request_line r @ [LF]) reqs)] \<and>
     mset (map rq_id reqs) = mset [1]"
proof -
  obtain ok rs where init: "InitReporting default_flags (\<lambda>f. True) ''TEXT'' [] = (ok, rs)" by force
  obtain "done" rs' where rep: "plusfish_Report plain_json [] sample_store rs = (done, rs')" by force
  have ids: "map fst (ds_requests_by_id sample_store) = [1]" by code_simp
  note out = text_report_complete [OF message_law_simple sample_reachable TrueI init rep, unfolded ids]
  then have "ok = True" "done = True" by simp_all
  with out init rep show ?thesis by (elim conjE exE) (intro exI conjI; simp only:)
qed

end
