(* ===== verification/Scanner.thy ===== *)
theory Scanner
  imports Hidden_Objects_Finder Reports
begin

text \<open>
  \<open>src/plusfish.{h,cc}\<close> and \<open>CurlHttpClient::Poll\<close>: the scan. The record \<open>plusfish\<close> holds the
  components the \<open>Plusfish\<close> object points to, so this is the state of the whole program. A
  request pointer of the client is followed into the component that owns the request
  (\<open>deref\<close>, \<open>put_ref\<close>), and the response callback of a finished transfer goes to the component
  the request's handler names. What libcurl and the clock do in one iteration of the main loop
  is the record \<open>loop_env\<close>; signals are taken at the end of an iteration.
\<close>

record plusfish =
  pf_datastore :: data_store
  pf_http_client :: http_client
  pf_crawler :: crawler
  pf_selective_auditor :: "selective_auditor option"
  pf_not_found_detector :: not_found_detector
  pf_objects_finder :: "hidden_objects_finder option"
  pf_max_auditor_runners :: int
  pf_enabled :: bool
  pf_shutdown_time :: int
  pf_reporters :: "reporter list"

definition kint64max :: int where "kint64max = 2 ^ 63 - 1"
definition kMaxHiddenObjectsUrlsToSchedule :: int where "kMaxHiddenObjectsUrlsToSchedule = 100"

definition Plusfish ::
    "crawler \<Rightarrow> selective_auditor option \<Rightarrow> not_found_detector \<Rightarrow> hidden_objects_finder option \<Rightarrow> int \<Rightarrow>
     http_client \<Rightarrow> data_store \<Rightarrow> plusfish" where
  "Plusfish crawler auditor nfd finder max_auditor_runners c ds =
     \<lparr>pf_datastore = ds, pf_http_client = c, pf_crawler = crawler, pf_selective_auditor = auditor,
      pf_not_found_detector = nfd, pf_objects_finder = finder,
      pf_max_auditor_runners = max_auditor_runners, pf_enabled = True,
      pf_shutdown_time = kint64max, pf_reporters = []\<rparr>"

section \<open>Shutdown\<close>

definition SetShutdownTime :: "int \<Rightarrow> plusfish \<Rightarrow> plusfish" where
  "SetShutdownTime t w = w\<lparr>pf_shutdown_time := t\<rparr>"

definition plusfish_Disable :: "plusfish \<Rightarrow> plusfish" where
  "plusfish_Disable w = w\<lparr>pf_enabled := False\<rparr>"

definition disable_client :: "plusfish \<Rightarrow> plusfish" where
  "disable_client w =
     (if hc_enabled (pf_http_client w)
      then w\<lparr>pf_http_client := client_Disable (pf_http_client w)\<rparr> else w)"

definition ShutdownGraceful :: "flags \<Rightarrow> int \<Rightarrow> plusfish \<Rightarrow> plusfish" where
  "ShutdownGraceful F now w =
     SetShutdownTime (now + fl_max_graceful_shutdown_duration F) (disable_client w)"

definition Shutdown :: "plusfish \<Rightarrow> plusfish" where
  "Shutdown w = plusfish_Disable (disable_client w)"

definition KeepRunningOrShutdown :: "flags \<Rightarrow> int \<Rightarrow> plusfish \<Rightarrow> bool \<times> plusfish" where
  "KeepRunningOrShutdown F now w =
     (if \<not> pf_enabled w then (False, w)
      else if pf_shutdown_time w > now then (True, w)
      else if hc_enabled (pf_http_client w) then (True, ShutdownGraceful F now w)
      else (False, Shutdown w))"

definition SIGINT :: int where "SIGINT = 2"
definition SIGTERM :: int where "SIGTERM = 15"

definition SignalHandler :: "flags \<Rightarrow> int \<Rightarrow> int \<Rightarrow> plusfish \<Rightarrow> plusfish" where
  "SignalHandler F now sig w =
     (if sig = SIGINT then
        if hc_enabled (pf_http_client w) then ShutdownGraceful F now w else Shutdown w
      else if sig = SIGTERM then Shutdown w
      else w)"

section \<open>Targets and reports\<close>

text \<open>The result of \<open>AddRequest\<close> is only tested against zero, for a log line.\<close>

definition AddURL :: "externals \<Rightarrow> flags \<Rightarrow> string \<Rightarrow> plusfish \<Rightarrow> (bool \<times> plusfish) result" where
  "AddURL L F url w =
     and_then (Request_url L F url) (\<lambda>req.
       if \<not> url_is_valid req then Inr (False, w)
       else
         let ds1 = AddHost (host req) (pf_datastore w);
             (i, ds2) = AddRequest L F req ds1
         in Inr (True, w\<lparr>pf_datastore := ds2\<rparr>))"

definition scan_InitReporting :: "flags \<Rightarrow> (string \<Rightarrow> bool) \<Rightarrow> string \<Rightarrow> plusfish \<Rightarrow> bool \<times> plusfish" where
  "scan_InitReporting F opens report_types w =
     (let (ok, rs) = InitReporting F opens report_types (pf_reporters w) in (ok, w\<lparr>pf_reporters := rs\<rparr>))"

definition scan_Report :: "json_lib \<Rightarrow> security_check_config \<Rightarrow> plusfish \<Rightarrow> bool \<times> plusfish" where
  "scan_Report J config w =
     (let (ok, rs) = plusfish_Report J config (pf_datastore w) (pf_reporters w)
      in (ok, w\<lparr>pf_reporters := rs\<rparr>))"

section \<open>Request pointers\<close>

definition find_request :: "nat \<Rightarrow> (string \<times> nat \<times> request) list \<Rightarrow> request option" where
  "find_request n rs = map_option (\<lambda>(u, m, r). r) (find (\<lambda>(u, m, r). m = n) rs)"

definition put_request_no ::
    "nat \<Rightarrow> request \<Rightarrow> (string \<times> nat \<times> request) list \<Rightarrow> (string \<times> nat \<times> request) list" where
  "put_request_no n req rs = map (\<lambda>(u, m, r). (u, m, if m = n then req else r)) rs"

definition find_runner :: "nat \<Rightarrow> plusfish \<Rightarrow> check_runner option" where
  "find_runner name w = (case pf_selective_auditor w of
     None \<Rightarrow> None | Some sa \<Rightarrow> find (\<lambda>ru. ru_name ru = name) (sa_runners sa))"

definition finder_requests :: "plusfish \<Rightarrow> (string \<times> nat \<times> request) list" where
  "finder_requests w = (case pf_objects_finder w of None \<Rightarrow> [] | Some hf \<Rightarrow> hf_requests hf)"

fun deref :: "plusfish \<Rightarrow> req_ref \<Rightarrow> request option" where
  "deref w (StoredRequest i) = GetRequestById i (pf_datastore w)"
| "deref w (ProbeRequest n) = find_request n (nd_requests (pf_not_found_detector w))"
| "deref w (HiddenRequest n) = find_request n (finder_requests w)"
| "deref w (TestRequest name k) =
     (case find_runner name w of
        None \<Rightarrow> None
      | Some ru \<Rightarrow> if k < length (ru_requests ru) then Some (ru_requests ru ! k) else None)"

fun put_ref :: "req_ref \<Rightarrow> request \<Rightarrow> plusfish \<Rightarrow> plusfish" where
  "put_ref (StoredRequest i) req w = w\<lparr>pf_datastore := put_request i req (pf_datastore w)\<rparr>"
| "put_ref (ProbeRequest n) req w =
     w\<lparr>pf_not_found_detector := (pf_not_found_detector w)
        \<lparr>nd_requests := put_request_no n req (nd_requests (pf_not_found_detector w))\<rparr>\<rparr>"
| "put_ref (HiddenRequest n) req w =
     w\<lparr>pf_objects_finder := map_option
        (\<lambda>hf. hf\<lparr>hf_requests := put_request_no n req (hf_requests hf)\<rparr>) (pf_objects_finder w)\<rparr>"
| "put_ref (TestRequest name k) req w =
     (case find_runner name w of
        None \<Rightarrow> w
      | Some ru \<Rightarrow> w\<lparr>pf_selective_auditor := map_option
          (put_runner (ru\<lparr>ru_requests := (ru_requests ru)[k := req]\<rparr>)) (pf_selective_auditor w)\<rparr>)"

section \<open>Data and answers\<close>

definition find_handle :: "nat \<Rightarrow> http_client \<Rightarrow> curl_handle_data option" where
  "find_handle eh c = find (\<lambda>h. ch_easy_handle h = eh) (hc_running_handles c)"

text \<open>libcurl calls the write callback with the request pointer set on the handle.\<close>

definition deliver :: "flags \<Rightarrow> delivery \<Rightarrow> plusfish \<Rightarrow> plusfish result" where
  "deliver F d w =
     (case find_handle (dl_easy_handle d) (pf_http_client w) of
        None \<Rightarrow> Inr w
      | Some h \<Rightarrow>
          (case deref w (ch_request h) of
             None \<Rightarrow> Inl UseAfterFree
           | Some req \<Rightarrow>
               and_then (CurlCallback F (dl_buffer d) (dl_size d) (dl_multiplier d) req)
                 (\<lambda>(n, req'). Inr (put_ref (ch_request h) req' w))))"

text \<open>
  \<open>request_handler_->RequestCallback(this)\<close>. The handler of a runner is only set on the
  requests of that runner.
\<close>

definition runner_callback ::
    "externals \<Rightarrow> flags \<Rightarrow> nat \<Rightarrow> nat \<Rightarrow> plusfish \<Rightarrow> plusfish result" where
  "runner_callback L F name k w =
     (case (pf_selective_auditor w, find_runner name w) of
        (Some sa, Some ru) \<Rightarrow>
          and_then (runner_RequestCallback L F (sa_checks sa ! ru_security_check ru) k ru (pf_datastore w))
            (\<lambda>(ru1, ds1).
               if ru_finished ru1 then
                 and_then
                   (FinishedCheckCb L F (\<lambda>req ds. and_then (Scrape L F req ds) (\<lambda>(ok, ds'). Inr ds'))
                     ru1 (put_runner ru1 sa) (pf_http_client w) ds1)
                   (\<lambda>(sa', c', ds'). Inr (w\<lparr>pf_selective_auditor := Some sa', pf_http_client := c',
                      pf_datastore := ds'\<rparr>))
               else Inr (w\<lparr>pf_selective_auditor := Some (put_runner ru1 sa), pf_datastore := ds1\<rparr>))
      | _ \<Rightarrow> Inl UseAfterFree)"

definition finder_callback ::
    "externals \<Rightarrow> flags \<Rightarrow> req_ref \<Rightarrow> request \<Rightarrow> plusfish \<Rightarrow> plusfish result" where
  "finder_callback L F ref req w =
     (case pf_objects_finder w of
        None \<Rightarrow> Inl NullPointer
      | Some hf \<Rightarrow>
          and_then (hof_RequestCallback L F (case ref of HiddenRequest n \<Rightarrow> n | _ \<Rightarrow> hf_next hf) req hf (pf_datastore w))
            (\<lambda>(n, hf', ds'). Inr (w\<lparr>pf_objects_finder := Some hf', pf_datastore := ds'\<rparr>)))"

definition RequestCallback ::
    "externals \<Rightarrow> flags \<Rightarrow> handler \<Rightarrow> req_ref \<Rightarrow> request \<Rightarrow> plusfish \<Rightarrow> plusfish result" where
  "RequestCallback L F h ref req w =
     (case h of
        CrawlerHandler \<Rightarrow>
          and_then (crawler_RequestCallback L F (pf_crawler w) (rq_id req) (pf_datastore w))
            (\<lambda>(n, ds'). Inr (w\<lparr>pf_datastore := ds'\<rparr>))
      | NotFoundDetectorHandler \<Rightarrow>
          and_then (nfd_RequestCallback L req (pf_not_found_detector w) (pf_datastore w))
            (\<lambda>(n, nd', ds'). Inr (w\<lparr>pf_not_found_detector := nd', pf_datastore := ds'\<rparr>))
      | HiddenObjectsFinderHandler \<Rightarrow> finder_callback L F ref req w
      | RunnerHandler name \<Rightarrow>
          (case ref of TestRequest m k \<Rightarrow> runner_callback L F name k w | _ \<Rightarrow> Inl UseAfterFree))"

section \<open>Poll\<close>

record poll_message =
  pm_done :: bool
  pm_easy_handle :: nat
  pm_primary_ip :: "string option"
  pm_times :: "(int \<times> int) option"
  pm_now :: int

record poll_env =
  pe_Select :: int
  pe_MultiPerform :: "int \<times> delivery list"
  pe_messages :: "poll_message list"

definition finish_request ::
    "externals \<Rightarrow> flags \<Rightarrow> poll_message \<Rightarrow> req_ref \<Rightarrow> request \<Rightarrow> plusfish \<Rightarrow> plusfish result" where
  "finish_request L F m ref req w =
     (let req1 = (if fl_http_proxy F = []
                  then (case pm_primary_ip m of Some ip \<Rightarrow> set_ip ip req | None \<Rightarrow> req) else req);
          (ok, req2) = SetRequestTimestamps (pm_times m) (pm_now m) req1
      in and_then (DoneCb L req2) (\<lambda>(req3, handler).
           let w1 = put_ref ref req3 w in
           case handler of None \<Rightarrow> Inr w1 | Some h \<Rightarrow> RequestCallback L F h ref req3 w1))"

definition process_message ::
    "externals \<Rightarrow> flags \<Rightarrow> poll_message \<Rightarrow> plusfish \<Rightarrow> plusfish result" where
  "process_message L F m w =
     (if \<not> pm_done m then Inr w
      else
        (case find_handle (pm_easy_handle m) (pf_http_client w) of
           None \<Rightarrow> Inl UseAfterFree
         | Some h \<Rightarrow>
             (case deref w (ch_request h) of
                None \<Rightarrow> Inl UseAfterFree
              | Some req \<Rightarrow>
                  and_then (finish_request L F m (ch_request h) req w) (\<lambda>w1.
                    Inr (w1\<lparr>pf_http_client :=
                      snd (CleanupCurlHandleData (ch_easy_handle h) (pf_http_client w1))\<rparr>)))))"

definition Poll :: "externals \<Rightarrow> flags \<Rightarrow> poll_env \<Rightarrow> plusfish \<Rightarrow> (int \<times> plusfish) result" where
  "Poll L F e w =
     (if hc_running_handles (pf_http_client w) = [] then Inr (0, w)
      else if pe_Select e = 0 then Inr (0, w)
      else
        and_then
          (if pe_Select e = -1 then Inr w
           else for_each (deliver F) (snd (pe_MultiPerform e))
             (w\<lparr>pf_http_client := (pf_http_client w)\<lparr>hc_curl_handle_cnt := fst (pe_MultiPerform e)\<rparr>\<rparr>))
          (\<lambda>w1. and_then (for_each (process_message L F) (pe_messages e) w1)
             (\<lambda>w2. Inr (hc_curl_handle_cnt (pf_http_client w2), w2))))"

section \<open>The main loop\<close>

record loop_env =
  le_start :: "nat \<Rightarrow> start_env"
  le_poll :: poll_env
  le_random :: int
  le_signals :: "int list"
  le_time :: int

definition start_new_requests :: "flags \<Rightarrow> loop_env \<Rightarrow> plusfish \<Rightarrow> plusfish result" where
  "start_new_requests F e w =
     and_then (StartNewRequests F (deref w) (le_start e) (pf_http_client w))
       (\<lambda>(started, c', deliveries). for_each (deliver F) deliveries (w\<lparr>pf_http_client := c'\<rparr>))"

text \<open>The numbers of the console report; looking up a severity that has no counter is out of range.\<close>

definition issue_counter :: "severity \<Rightarrow> plusfish \<Rightarrow> nat result" where
  "issue_counter s w =
     (case map_of (ds_issue_count_per_severity (pf_datastore w)) s of
        None \<Rightarrow> Inl OutOfRange | Some n \<Rightarrow> Inr (unat n))"

definition uint32 :: "int \<Rightarrow> nat" where
  "uint32 i = nat (i mod 2 ^ 32)"

definition console_report :: "plusfish \<Rightarrow> nat list result" where
  "console_report w =
     and_then (issue_counter CRITICAL w) (\<lambda>critical.
     and_then (issue_counter HIGH w) (\<lambda>high.
     and_then (issue_counter MODERATE w) (\<lambda>moderate.
     and_then (issue_counter LOW w) (\<lambda>low.
       case pf_objects_finder w of
         None \<Rightarrow> Inl NullPointer
       | Some hf \<Rightarrow> Inr
           [uint32 (int (length (hc_running_handles (pf_http_client w)))),
            uint32 (int (length (hc_schedule_queue (pf_http_client w)))),
            uint32 (int (hc_requests_performed (pf_http_client w))),
            uint32 (int (length (ds_audit_queue (pf_datastore w)))),
            (case pf_selective_auditor w of Some sa \<Rightarrow> uint32 (int (length (sa_runners sa))) | None \<Rightarrow> 0),
            critical, high, moderate, low,
            uint32 (hf_num_objects_found hf), uint32 (int (length (hf_pending_urls hf))),
            uint32 (int (length (hf_test_urls_queue hf)))]))))"

definition probe_next :: "externals \<Rightarrow> flags \<Rightarrow> int \<Rightarrow> plusfish \<Rightarrow> plusfish result" where
  "probe_next L F random w =
     (case GetRequestFromProbeQueue (pf_datastore w) of
        (None, ds1) \<Rightarrow> Inr w
      | (Some i, ds1) \<Rightarrow>
          (case GetRequestById i ds1 of
             None \<Rightarrow> Inl UseAfterFree
           | Some req \<Rightarrow>
               and_then (nfd_AddUrl L F random (rq_url req) (pf_not_found_detector w) (pf_http_client w))
                 (\<lambda>(added, nd', c'). Inr (w\<lparr>pf_not_found_detector := nd', pf_http_client := c',
                    pf_objects_finder :=
                      (if added then map_option (hof_AddUrl (rq_url req)) (pf_objects_finder w)
                       else pf_objects_finder w),
                    pf_datastore := AddRequestToCrawlQueue (rq_id req) ds1\<rparr>))))"

definition crawl_next :: "plusfish \<Rightarrow> plusfish result" where
  "crawl_next w =
     (case GetRequestFromCrawlQueue (pf_datastore w) of
        (None, ds1) \<Rightarrow> Inr w
      | (Some i, ds1) \<Rightarrow>
          (case GetRequestById i ds1 of
             None \<Rightarrow> Inl UseAfterFree
           | Some req \<Rightarrow>
               and_then (Crawl (rq_id req) ds1 (pf_http_client w))
                 (\<lambda>(ok, ds2, c'). Inr (w\<lparr>pf_datastore := ds2, pf_http_client := c'\<rparr>))))"

definition schedule_hidden :: "externals \<Rightarrow> flags \<Rightarrow> plusfish \<Rightarrow> plusfish result" where
  "schedule_hidden L F w =
     (case pf_objects_finder w of
        None \<Rightarrow> Inl NullPointer
      | Some hf \<Rightarrow>
          and_then (ScheduleRequests L F kMaxHiddenObjectsUrlsToSchedule hf (pf_http_client w))
            (\<lambda>(left, hf', c'). Inr (w\<lparr>pf_objects_finder := Some hf', pf_http_client := c'\<rparr>)))"

definition audit_next :: "externals \<Rightarrow> flags \<Rightarrow> plusfish \<Rightarrow> plusfish result" where
  "audit_next L F w =
     (case pf_selective_auditor w of
        None \<Rightarrow> Inr w
      | Some sa \<Rightarrow>
          if ds_audit_queue (pf_datastore w) = [] \<or> \<not> int (length (sa_runners sa)) < pf_max_auditor_runners w
          then Inr w
          else
            (case GetRequestFromAuditQueue (pf_datastore w) of
               (None, ds1) \<Rightarrow> Inl NullPointer
             | (Some i, ds1) \<Rightarrow>
                 (case GetRequestById i ds1 of
                    None \<Rightarrow> Inl UseAfterFree
                  | Some req \<Rightarrow>
                      let (ok, sa', c') = ScheduleFirst L F ds1 req sa (pf_http_client w)
                      in Inr (w\<lparr>pf_datastore := ds1, pf_selective_auditor := Some sa', pf_http_client := c'\<rparr>))))"

definition loop_body :: "externals \<Rightarrow> flags \<Rightarrow> loop_env \<Rightarrow> plusfish \<Rightarrow> plusfish result" where
  "loop_body L F e w =
     and_then (start_new_requests F e w) (\<lambda>w1.
     and_then (Poll L F (le_poll e) w1) (\<lambda>(running, w2).
     and_then (if fl_enable_console_reporting F then console_report w2 else Inr []) (\<lambda>printed.
     and_then (probe_next L F (le_random e) w2) (\<lambda>w3.
     and_then (crawl_next w3) (\<lambda>w4.
     and_then (schedule_hidden L F w4) (\<lambda>w5. audit_next L F w5))))))"

text \<open>
  One round: the body and the loop condition. The result says whether the loop goes on.
\<close>

definition loop_round :: "externals \<Rightarrow> flags \<Rightarrow> loop_env \<Rightarrow> plusfish \<Rightarrow> (bool \<times> plusfish) result" where
  "loop_round L F e w =
     and_then (loop_body L F e w) (\<lambda>w1.
       let w2 = fold (SignalHandler F (le_time e)) (le_signals e) w1;
           (keep, w3) = KeepRunningOrShutdown F (le_time e) w2
       in Inr (keep \<and> (hc_running_handles (pf_http_client w3) \<noteq> [] \<or>
                       hc_schedule_queue (pf_http_client w3) \<noteq> []), w3))"

text \<open>\<open>Run\<close> with \<open>fuel\<close> rounds, \<^const>\<open>None\<close> when they are not enough; \<open>env k\<close> is what happens in round \<open>k\<close>.\<close>

fun plusfish_Run ::
    "externals \<Rightarrow> flags \<Rightarrow> (nat \<Rightarrow> loop_env) \<Rightarrow> nat \<Rightarrow> nat \<Rightarrow> plusfish \<Rightarrow> plusfish result option" where
  "plusfish_Run L F env k 0 w = None"
| "plusfish_Run L F env k (Suc fuel) w =
     (case loop_round L F (env k) w of
        Inl e \<Rightarrow> Some (Inl e)
      | Inr (again, w') \<Rightarrow> if again then plusfish_Run L F env (Suc k) fuel w' else Some (Inr w'))"

section \<open>The steps of the loop body\<close>

text \<open>
  The body of the loop is a sequence of steps of the components. A reflexive and transitive
  relation that every step respects is respected by the body.
\<close>

locale body_steps =
  fixes L :: externals and F :: flags and R :: "plusfish \<Rightarrow> plusfish \<Rightarrow> bool"
  assumes reflexive: "R w w"
    and transitive: "R w1 w2 \<Longrightarrow> R w2 w3 \<Longrightarrow> R w1 w3"
    and start: "StartNewRequests F (deref w) env (pf_http_client w) = Inr (ok, c', deliveries) \<Longrightarrow>
      R w (w\<lparr>pf_http_client := c'\<rparr>)"
    and performed: "R w (w\<lparr>pf_http_client := (pf_http_client w)\<lparr>hc_curl_handle_cnt := n\<rparr>\<rparr>)"
    and delivered: "deliver F d w = Inr w' \<Longrightarrow> R w w'"
    and message: "process_message L F m w = Inr w' \<Longrightarrow> R w w'"
    and probe: "probe_next L F random w = Inr w' \<Longrightarrow> R w w'"
    and crawl: "crawl_next w = Inr w' \<Longrightarrow> R w w'"
    and hidden: "schedule_hidden L F w = Inr w' \<Longrightarrow> R w w'"
    and audit: "audit_next L F w = Inr w' \<Longrightarrow> R w w'"
begin

lemma each:
  assumes "\<And>x w w'. f x w = Inr w' \<Longrightarrow> R w w'"
  shows "for_each f xs w = Inr w' \<Longrightarrow> R w w'"
  by (rule for_each_inv [of xs "R w" f w]) (auto intro: transitive reflexive assms)

lemma all_delivered: "for_each (deliver F) ds w = Inr w' \<Longrightarrow> R w w'"
  by (rule each) (rule delivered)

lemma all_messages: "for_each (process_message L F) ms w = Inr w' \<Longrightarrow> R w w'"
  by (rule each) (rule message)

lemma start_new_requests_R:
  assumes "start_new_requests F e w = Inr w'"
  shows "R w w'"
proof -
  obtain ok c' deliveries where "StartNewRequests F (deref w) (le_start e) (pf_http_client w) = Inr (ok, c', deliveries)"
    "for_each (deliver F) deliveries (w\<lparr>pf_http_client := c'\<rparr>) = Inr w'"
    using assms by (auto simp: start_new_requests_def and_then_eq_Inr)
  then show ?thesis using start all_delivered transitive by blast
qed

lemma Poll_R:
  assumes "Poll L F e w = Inr (n, w')"
  shows "R w w'"
proof (cases "w' = w")
  case False
  then obtain w1 where w1: "(if pe_Select e = -1 then Inr w
           else for_each (deliver F) (snd (pe_MultiPerform e))
             (w\<lparr>pf_http_client := (pf_http_client w)\<lparr>hc_curl_handle_cnt := fst (pe_MultiPerform e)\<rparr>\<rparr>)) = Inr w1"
      "for_each (process_message L F) (pe_messages e) w1 = Inr w'"
    using assms by (auto simp: Poll_def and_then_eq_Inr split: if_splits)
  have "R w w1"
    using w1(1) transitive [OF performed all_delivered] reflexive by (auto split: if_splits)
  then show ?thesis using all_messages [OF w1(2)] transitive by blast
qed (simp add: reflexive)

lemma loop_body_R:
  assumes "loop_body L F e w = Inr w'"
  shows "R w w'"
proof -
  obtain w1 n w2 w3 w4 w5 where "start_new_requests F e w = Inr w1" "Poll L F (le_poll e) w1 = Inr (n, w2)"
    "probe_next L F (le_random e) w2 = Inr w3" "crawl_next w3 = Inr w4" "schedule_hidden L F w4 = Inr w5"
    "audit_next L F w5 = Inr w'"
    using assms by (auto simp: loop_body_def and_then_eq_Inr)
  then have "R w w1" "R w1 w2" "R w2 w3" "R w3 w4" "R w4 w5" "R w5 w'"
    using start_new_requests_R Poll_R probe crawl hidden audit by blast+
  then show ?thesis using transitive by blast
qed

end

section \<open>What the body leaves alone\<close>

text \<open>
  The body neither enables or disables the scan or the client nor moves the shutdown time, a
  disabled client's queue stays as it is, and so do the reporters.
\<close>

definition client_frame :: "http_client \<Rightarrow> http_client \<Rightarrow> bool" where
  "client_frame c c' \<longleftrightarrow> hc_enabled c' = hc_enabled c \<and>
     (\<not> hc_enabled c \<longrightarrow> hc_schedule_queue c' = hc_schedule_queue c)"

definition body_frame :: "plusfish \<Rightarrow> plusfish \<Rightarrow> bool" where
  "body_frame w w' \<longleftrightarrow> pf_enabled w' = pf_enabled w \<and> pf_shutdown_time w' = pf_shutdown_time w \<and>
     client_frame (pf_http_client w) (pf_http_client w') \<and>
     (pf_objects_finder w = None \<longrightarrow> pf_objects_finder w' = None) \<and> pf_reporters w' = pf_reporters w"

lemma client_frame_refl [simp, intro]: "client_frame c c"
  by (simp add: client_frame_def)

lemma client_frame_trans: "client_frame c1 c2 \<Longrightarrow> client_frame c2 c3 \<Longrightarrow> client_frame c1 c3"
  by (simp add: client_frame_def)

lemma client_frame_Schedule: "Schedule ref c = (ok, c') \<Longrightarrow> client_frame c c'"
  by (auto simp: Schedule_def client_frame_def split: if_splits)

lemma client_frame_schedule_requests:
  "schedule_requests serial name k reqs c = (ok, reqs', c') \<Longrightarrow> client_frame c c'"
  by (induction reqs arbitrary: k c ok reqs' c')
    (auto simp: Schedule_handler_simps client_frame_def split: prod.splits if_splits)

lemma client_frame_Run:
  "Run L F ds check tested ru c = (ok, ru', c') \<Longrightarrow> client_frame c c'"
  by (auto simp: Run_def Let_def dest: client_frame_schedule_requests split: prod.splits if_splits)

lemma client_frame_ScheduleNextCheck:
  "ScheduleNextCheck L F ds checks tested ru c = (ok, ru', c') \<Longrightarrow> client_frame c c'"
proof (induction L F ds checks tested ru c arbitrary: ok ru' c' rule: ScheduleNextCheck.induct)
  case (1 L F ds checks tested ru c)
  obtain b ru1 c1 where run: "Run L F ds (checks ! ru_security_check ru) tested ru c = (b, ru1, c1)"
    by (cases "Run L F ds (checks ! ru_security_check ru) tested ru c") auto
  then have c1: "client_frame c c1" by (rule client_frame_Run)
  show ?case
    using 1 run c1 client_frame_trans [OF c1]
    by (auto simp: ScheduleNextCheck.simps [of L F ds checks tested ru c] split: bool.splits option.splits if_splits)
qed

lemma client_frame_ScheduleFirst:
  "ScheduleFirst L F ds req sa c = (ok, sa', c') \<Longrightarrow> client_frame c c'"
  by (auto simp: ScheduleFirst_def Let_def dest: client_frame_ScheduleNextCheck split: prod.splits if_splits)

lemma client_frame_FinishedCheckCb:
  assumes "FinishedCheckCb L F scrape ru sa c ds = Inr (sa', c', ds')"
  shows "client_frame c c'"
proof -
  obtain b ru1 where n: "SetNextCheck (sa_checks sa) ru = (b, ru1)" by force
  obtain ds1 tested where body: "(case SetNextCheck (sa_checks sa) ru of
       (False, ru1) \<Rightarrow> Inr (erase_runner (ru_name ru) sa, c, ds1)
     | (True, ru1) \<Rightarrow> (case ScheduleNextCheck L F ds1 (sa_checks sa) tested ru1 c of
          (True, ru2, c') \<Rightarrow> Inr (put_runner ru2 sa, c', ds1)
        | (False, ru2, c') \<Rightarrow> Inr (erase_runner (ru_name ru) sa, c', ds1))) = (Inr (sa', c', ds') :: _ result)"
    using assms by (auto simp: FinishedCheckCb_def and_then_eq_Inr split: option.splits)
  obtain ok ru2 c2 where s: "ScheduleNextCheck L F ds1 (sa_checks sa) tested ru1 c = (ok, ru2, c2)"
    using prod_cases3 by blast
  show ?thesis using body n s client_frame_ScheduleNextCheck [OF s] by (cases b; cases ok) auto
qed

lemma client_frame_start:
  "StartNewRequests F d env c = Inr (ok, c', ds) \<Longrightarrow> client_frame c c'"
  by (auto simp: StartNewRequests_def Let_def client_frame_def dest: start_loop_progress split: if_splits)

lemma client_frame_probe:
  assumes "probe_extension L F base random ext (nd, c) = Inr (nd', c')"
  shows "client_frame c c'"
  using assms client_frame_Schedule [of "ProbeRequest (nd_next nd)" c]
  by (cases "Schedule (ProbeRequest (nd_next nd)) c") (auto simp: probe_extension_def and_then_eq_Inr Let_def)

lemma client_frame_AddUrl:
  assumes "nfd_AddUrl L F random url nd c = Inr (added, nd', c')"
  shows "client_frame c c'"
proof -
  have "client_frame c (snd s')" if "for_each (probe_extension L F base random) exts (nd, c) = Inr s'" for base exts s'
    by (rule for_each_inv [where P = "\<lambda>s. client_frame c (snd s)", OF _ that])
      (auto dest!: client_frame_probe intro: client_frame_trans)
  then show ?thesis using assms by (fastforce simp: nfd_AddUrl_def and_then_eq_Inr split: if_splits)
qed

lemma client_frame_schedule_tests:
  "schedule_tests L F k hf c = Inr (hf', c') \<Longrightarrow> client_frame c c'"
proof (induction k arbitrary: hf c)
  case (Suc k)
  have step: "client_frame c c1" if "schedule_test L F u hf c = Inr (hf1, c1)" for u hf hf1 c1
    using that client_frame_Schedule [of "HiddenRequest (hf_next hf)" c]
    by (cases "Schedule (HiddenRequest (hf_next hf)) c") (auto simp: schedule_test_def and_then_eq_Inr Let_def)
  show ?case using Suc.prems Suc.IH client_frame_trans [OF step]
    by (fastforce simp: and_then_eq_Inr split: list.splits)
qed simp

lemma client_frame_ScheduleRequests:
  "ScheduleRequests L F amount hf c = Inr (n, hf', c') \<Longrightarrow> client_frame c c'"
  by (auto simp: ScheduleRequests_def and_then_eq_Inr dest: client_frame_schedule_tests split: if_splits)

lemma client_frame_Cleanup: "client_frame c (snd (CleanupCurlHandleData eh c))"
  by (simp add: CleanupCurlHandleData_def client_frame_def split_beta)

lemma body_frame_put_ref: "body_frame w (put_ref ref req w)"
  by (cases ref) (auto simp: body_frame_def split: option.split)

lemma body_frame_trans: "body_frame w1 w2 \<Longrightarrow> body_frame w2 w3 \<Longrightarrow> body_frame w1 w3"
  using client_frame_trans by (auto simp: body_frame_def)

lemma body_frame_deliver: "deliver F d w = Inr w' \<Longrightarrow> body_frame w w'"
  by (auto simp: deliver_def and_then_eq_Inr body_frame_put_ref split: option.splits)
    (simp add: body_frame_def)

lemma body_frame_RequestCallback: "RequestCallback L F h ref req w = Inr w' \<Longrightarrow> body_frame w w'"
  by (auto simp: RequestCallback_def finder_callback_def runner_callback_def body_frame_def and_then_eq_Inr
      split: handler.splits req_ref.splits option.splits if_splits dest: client_frame_FinishedCheckCb)

lemma body_frame_finish_request: "finish_request L F m ref req w = Inr w' \<Longrightarrow> body_frame w w'"
  using body_frame_trans [OF body_frame_put_ref body_frame_RequestCallback]
  by (auto simp: finish_request_def Let_def split_beta and_then_eq_Inr body_frame_put_ref split: option.splits)

lemma body_frame_client: "client_frame (pf_http_client w) c' \<Longrightarrow> body_frame w (w\<lparr>pf_http_client := c'\<rparr>)"
  by (simp add: body_frame_def)

interpretation body_frame: body_steps L F body_frame
proof unfold_locales
  show "body_frame w w" for w by (simp add: body_frame_def)
  show "StartNewRequests F (deref w) env (pf_http_client w) = Inr (ok, c', deliveries) \<Longrightarrow>
      body_frame w (w\<lparr>pf_http_client := c'\<rparr>)" for w env ok c' deliveries
    by (rule body_frame_client) (rule client_frame_start)
  show "process_message L F m w = Inr w' \<Longrightarrow> body_frame w w'" for m w w'
    using body_frame_trans [OF body_frame_finish_request body_frame_client [OF client_frame_Cleanup]]
    by (auto simp: process_message_def and_then_eq_Inr split: if_splits option.splits) (simp add: body_frame_def)
  show "crawl_next w = Inr w' \<Longrightarrow> body_frame w w'" for w w'
    by (auto simp: crawl_next_def Crawl_def Let_def and_then_eq_Inr body_frame_def dest: client_frame_Schedule
        split: prod.splits option.splits)
  show "probe_next L F random w = Inr w' \<Longrightarrow> body_frame w w'" for random w w'
    by (auto simp: probe_next_def and_then_eq_Inr body_frame_def dest: client_frame_AddUrl
        split: prod.splits option.splits)
  show "audit_next L F w = Inr w' \<Longrightarrow> body_frame w w'" for w w'
    by (auto simp: audit_next_def Let_def body_frame_def dest: client_frame_ScheduleFirst
        split: prod.splits option.splits if_splits)
qed (auto simp: body_frame_def client_frame_def body_frame_trans body_frame_deliver schedule_hidden_def
    and_then_eq_Inr dest: client_frame_ScheduleRequests body_frame_deliver intro: body_frame_trans split: option.splits)

section \<open>What a scan keeps of the data store\<close>

text \<open>
  The data store is changed by its own operations only, no stored request has a parent, each has
  a host, and the requests the finder holds have neither issues nor a parent.
\<close>

definition unlinked :: "request \<Rightarrow> bool" where
  "unlinked r \<longleftrightarrow> rq_issues r = [] \<and> rq_parent_id r = kInvalidId \<and>
     (url_is_valid r \<longrightarrow> hr_host (rq_proto r) \<noteq> None)"

definition scan_ok :: "externals \<Rightarrow> flags \<Rightarrow> plusfish \<Rightarrow> bool" where
  "scan_ok L F w \<longleftrightarrow> ds_reachable L F (pf_datastore w) \<and> parentless (pf_datastore w) \<and>
     hosted (pf_datastore w) \<and> (\<forall>(u, n, r) \<in> set (finder_requests w). unlinked r)"

text \<open>A step keeps a good scan good and its store a continuation of the one before.\<close>

definition scan_kept :: "externals \<Rightarrow> flags \<Rightarrow> plusfish \<Rightarrow> plusfish \<Rightarrow> bool" where
  "scan_kept L F w w' \<longleftrightarrow> scan_ok L F w' \<and> store_kept L F (pf_datastore w) (pf_datastore w')"

lemma scan_kept_refl: "scan_ok L F w \<Longrightarrow> scan_kept L F w w"
  by (simp add: scan_kept_def)

lemma scan_kept_trans: "scan_kept L F w1 w2 \<Longrightarrow> scan_kept L F w2 w3 \<Longrightarrow> scan_kept L F w1 w3"
  by (auto simp: scan_kept_def intro: store_kept_trans)

lemma scan_kept_ok: "scan_kept L F w w' \<Longrightarrow> scan_ok L F w'"
  by (simp add: scan_kept_def)

lemma scan_ok_store:
  "scan_ok L F w \<Longrightarrow> store_kept L F (pf_datastore w) ds' \<Longrightarrow>
     pf_datastore w' = ds' \<Longrightarrow> finder_requests w' = finder_requests w \<Longrightarrow> scan_kept L F w w'"
  using ds_steps_reachable by (auto simp: scan_kept_def scan_ok_def store_kept_def)

lemma audit_pop_kept: "store_kept L F ds (snd (GetRequestFromAuditQueue ds))"
  by (rule step_kept [OF ds_step.pop_audit]) (simp_all add: GetRequestFromAuditQueue_def split: list.split)

lemma AddRequestMetadata_kept: "store_kept L F ds (snd (AddRequestMetadata i t v ds))"
  by (rule step_kept [OF ds_step.meta]) (simp_all add: AddRequestMetadata_def Let_def)

lemma not_found_kept: "store_kept L F ds (AddFileNotFoundHtmlFingerprint fp ds)"
  by (rule step_kept [OF ds_step.not_found]) (simp_all add: AddFileNotFoundHtmlFingerprint_def)

text \<open>A request leaves the probe queue for the crawl queue, and that for the crawler.\<close>

lemma probe_to_crawl_kept:
  assumes "ds_probe_queue ds = i # q" "GetRequestById i ds \<noteq> None"
  shows "store_kept L F ds (AddRequestToCrawlQueue i (snd (GetRequestFromProbeQueue ds)))"
proof -
  let ?ds1 = "snd (GetRequestFromProbeQueue ds)"
  have ds1: "?ds1 = ds\<lparr>ds_probe_queue := q\<rparr>" using assms(1) by (simp add: GetRequestFromProbeQueue_def)
  then have "GetRequestById i ?ds1 \<noteq> None" using assms(2) by (simp add: GetRequestById_def)
  then have "(ds_step L F)\<^sup>*\<^sup>* ds (AddRequestToCrawlQueue i ?ds1)"
    using ds_step.pop_probe ds_step.crawl by (meson r_into_rtranclp rtranclp.rtrancl_into_rtrancl)
  then show ?thesis unfolding ds1 using assms(1)
    by (auto simp: store_kept_def AddRequestToCrawlQueue_def parentless_def hosted_def tracked_def GetRequestById_def
        intro!: store_extends_same)
qed

lemma crawl_to_crawler_kept:
  assumes "ds_crawl_queue ds = i # q" "GetRequestById i ds = Some req"
  shows "store_kept L F ds (put_request i (req\<lparr>rq_handler := Some CrawlerHandler\<rparr>) (snd (GetRequestFromCrawlQueue ds)))"
proof -
  let ?ds1 = "snd (GetRequestFromCrawlQueue ds)" and ?req = "req\<lparr>rq_handler := Some CrawlerHandler\<rparr>"
  have ds1: "?ds1 = ds\<lparr>ds_crawl_queue := q\<rparr>" using assms(1) by (simp add: GetRequestFromCrawlQueue_def)
  have "same_identity req ?req"
    by (simp add: same_identity_def request_key_def host_def split: option.split)
  moreover have "GetRequestById i ?ds1 = Some req" using assms(2) ds1 by (simp add: GetRequestById_def)
  ultimately have "(ds_step L F)\<^sup>*\<^sup>* ds (put_request i ?req ?ds1)"
    using ds_step.pop_crawl ds_step.update by (meson r_into_rtranclp rtranclp.rtrancl_into_rtrancl)
  then show ?thesis unfolding ds1 using assms
    by (auto simp: store_kept_def store_extends_def handler_kept_def put_request_def parentless_def hosted_def tracked_def
        GetRequestById_def)
qed

text \<open>What libcurl's callbacks change of a request: nothing it is compared by, nor its host name.\<close>

definition same_request :: "request \<Rightarrow> request \<Rightarrow> bool" where
  "same_request r r' \<longleftrightarrow> rq_id r' = rq_id r \<and> rq_issues r' = rq_issues r \<and> request_key r' = request_key r \<and>
     hr_host (rq_proto r') = hr_host (rq_proto r) \<and> rq_parent_id r' = rq_parent_id r \<and>
     rq_google_url r' = rq_google_url r \<and> rq_handler r' = rq_handler r"

lemmas same_request_simps = same_request_def request_key_def Let_def

lemma same_request_identity: "same_request r r' \<Longrightarrow> hr_host (rq_proto r) \<noteq> None \<Longrightarrow> same_identity r r'"
  by (auto simp: same_request_def same_identity_def host_def)

lemma same_request_refl [simp]: "same_request r r"
  by (simp add: same_request_def)

lemma same_request_trans: "same_request r1 r2 \<Longrightarrow> same_request r2 r3 \<Longrightarrow> same_request r1 r3"
  by (simp add: same_request_def)

lemma same_request_CurlCallback: "CurlCallback F buf n m r = Inr (k, r') \<Longrightarrow> same_request r r'"
  by (auto simp: CurlCallback_def ResponseCb_def same_request_simps split: if_splits)

lemma same_request_set_ip: "same_request r (set_ip ip r)"
  by (simp add: set_ip_def same_request_simps)

lemma same_request_timestamps: "same_request r (snd (SetRequestTimestamps tms now r))"
  by (simp add: SetRequestTimestamps_def same_request_simps split: option.split)

lemma same_request_DoneCb: "DoneCb L r = Inr (r', h) \<Longrightarrow> same_request r r'"
  by (auto simp: DoneCb_def and_then_eq_Inr same_request_simps split: if_splits option.splits)

lemma find_request_mem: "find_request n rs = Some r \<Longrightarrow> \<exists>u. (u, n, r) \<in> set rs"
  by (auto simp: find_request_def find_Some_iff) (metis nth_mem)

lemma scan_ok_put_ref:
  assumes "scan_ok L F w" "deref w ref = Some r" "same_request r r'"
  shows "scan_kept L F w (put_ref ref r' w)"
proof (cases ref)
  case (StoredRequest i)
  then have "hr_host (rq_proto r) \<noteq> None" using assms(1,2) by (simp add: scan_ok_def hosted_def)
  then have "crawled L F (pf_datastore w) (put_request i r' (pf_datastore w))"
    using StoredRequest assms(2,3) same_request_identity by (intro crawled_put) (auto simp: same_request_def handler_kept_def)
  then show ?thesis using scan_ok_store [OF assms(1) crawled_kept] StoredRequest by (simp add: finder_requests_def)
next
  case (ProbeRequest n)
  then show ?thesis using scan_ok_store [OF assms(1) store_kept_refl] by (simp add: finder_requests_def)
next
  case (HiddenRequest n)
  obtain u where "(u, n, r) \<in> set (finder_requests w)"
    using assms(2) HiddenRequest find_request_mem by fastforce
  then have "unlinked r" using assms(1) by (auto simp: scan_ok_def)
  then have "unlinked r'" using assms(3)
    by (simp add: unlinked_def same_request_def url_is_valid_def)
  then have "\<forall>(u, m, q) \<in> set (put_request_no n r' rs). unlinked q"
    if "\<forall>(u, m, q) \<in> set rs. unlinked q" for rs
    using that by (fastforce simp: put_request_no_def split: if_splits)
  then show ?thesis using assms(1) HiddenRequest
    by (cases "pf_objects_finder w") (simp_all add: scan_kept_def scan_ok_def finder_requests_def, blast)
next
  case (TestRequest name k)
  then show ?thesis using assms(1) scan_ok_store [OF assms(1) store_kept_refl]
    by (simp add: finder_requests_def split: option.split)
qed

lemma scan_ok_deliver: "scan_ok L F w \<Longrightarrow> deliver F d w = Inr w' \<Longrightarrow> scan_kept L F w w'"
  by (auto simp: deliver_def and_then_eq_Inr intro: scan_ok_put_ref same_request_CurlCallback scan_kept_refl
      split: option.splits)

text \<open>The callbacks.\<close>

lemma scrape_all_kept:
  "scrape_all (\<lambda>req ds. and_then (Scrape L F req ds) (\<lambda>(ok, ds'). Inr ds')) reqs ds = Inr ds' \<Longrightarrow>
     store_kept L F ds ds'"
proof (induction reqs arbitrary: ds)
  case (Cons req reqs)
  then obtain ok ds1 where "Scrape L F req ds = Inr (ok, ds1)"
    "scrape_all (\<lambda>req ds. and_then (Scrape L F req ds) (\<lambda>(ok, ds'). Inr ds')) reqs ds1 = Inr ds'"
    by (auto simp: and_then_eq_Inr)
  then show ?case
    using store_kept_trans [OF crawled_kept [OF crawled_ScrapeRequest] Cons.IH] by (simp add: Scrape_def)
qed simp

lemma runner_callback_kept:
  assumes "runner_RequestCallback L F check k ru ds = Inr (ru', ds')"
  shows "store_kept L F ds ds'"
proof -
  have report: "store_kept L F d (snd (AddIssue L F i t sev req d))" for i t sev req d
    by (simp add: AddIssue_def crawled_kept crawled_AddIssueDetails)
  have eval: "store_kept L F ds d" if "Evaluate L check reqs ds = Inr (b, d)" for reqs b d
    using that by (auto simp: Evaluate_def ResponseTimeCheck_Evaluate_def and_then_eq_Inr AddRequestMetadata_kept
        split: security_check.splits option.splits)
  show ?thesis using assms report store_kept_trans [OF eval report]
    by (auto simp: runner_RequestCallback_def Let_def and_then_eq_Inr intro: eval split: if_splits)
qed

lemma FinishedCheckCb_kept:
  assumes "FinishedCheckCb L F (\<lambda>req ds. and_then (Scrape L F req ds) (\<lambda>(ok, ds'). Inr ds')) ru sa c ds = Inr (sa', c', ds')"
  shows "store_kept L F ds ds'"
proof -
  have "ds1 = ds'" if "(case SetNextCheck (sa_checks sa) ru of
       (False, ru1) \<Rightarrow> Inr (erase_runner (ru_name ru) sa, c, ds1)
     | (True, ru1) \<Rightarrow> (case ScheduleNextCheck L F ds1 (sa_checks sa) tested ru1 c of
          (True, ru2, c') \<Rightarrow> Inr (put_runner ru2 sa, c', ds1)
        | (False, ru2, c') \<Rightarrow> Inr (erase_runner (ru_name ru) sa, c', ds1))) = (Inr (sa', c', ds') :: _ result)"
    for ds1 tested
    using that by (auto split: prod.splits bool.splits)
  then have "(if ru_requests_completed ru \<noteq> 0
      then scrape_all (\<lambda>req ds. and_then (Scrape L F req ds) (\<lambda>(ok, ds'). Inr ds')) (ru_requests ru) ds else Inr ds) = Inr ds'"
    using assms by (fastforce simp: FinishedCheckCb_def and_then_eq_Inr split: option.splits)
  then show ?thesis using scrape_all_kept by (auto split: if_splits)
qed

lemma scan_ok_runner_callback:
  assumes "scan_ok L F w" "runner_callback L F name k w = Inr w'"
  shows "scan_kept L F w w'"
proof -
  obtain sa ru ru1 ds1 where
      run: "runner_RequestCallback L F (sa_checks sa ! ru_security_check ru) k ru (pf_datastore w) = Inr (ru1, ds1)"
      and w': "pf_datastore w' = ds1 \<or> (\<exists>sa' c'. FinishedCheckCb L F
          (\<lambda>req ds. and_then (Scrape L F req ds) (\<lambda>(ok, ds'). Inr ds')) ru1 (put_runner ru1 sa) (pf_http_client w) ds1 =
          Inr (sa', c', pf_datastore w'))"
      and same: "finder_requests w' = finder_requests w"
    using assms(2)
    by (auto simp: runner_callback_def and_then_eq_Inr finder_requests_def split: option.splits if_splits)
  then have "store_kept L F (pf_datastore w) (pf_datastore w')"
    using runner_callback_kept [OF run] FinishedCheckCb_kept store_kept_trans by blast
  then show ?thesis using scan_ok_store [OF assms(1)] same by simp
qed

lemma report_object_kept:
  assumes "report_object L F n req hf ds = Inr (k, hf', ds')" "\<forall>(u, n, r) \<in> set (hf_requests hf). unlinked r"
  shows "store_kept L F ds ds' \<and> hf_requests hf' = hmap_erase (rq_url req) (hf_requests hf)"
proof -
  obtain m r where r: "map_of (hf_requests hf) (rq_url req) = Some (m, r)"
    using assms(1) by (auto simp: report_object_def split: option.splits)
  then have "unlinked r" using assms(2) by (auto dest: map_of_SomeD)
  then have add: "store_kept L F ds (snd (AddRequest L F r ds))"
    by (intro crawled_kept crawled_AddRequest) (simp_all add: unlinked_def)
  have issue: "store_kept L F d d'" if a: "AddIssueById L F i t sev d = Inr (ok, d')" for i t sev d ok d'
  proof -
    obtain iss where "AddIssueDetails L F i iss d = (ok, d')"
      using a by (auto simp: AddIssueById_def split: option.splits)
    then show ?thesis using crawled_kept [OF crawled_AddIssueDetails [of L F d i iss]] by simp
  qed
  show ?thesis using assms(1) r add store_kept_trans [OF add issue]
    by (auto simp: report_object_def hof_erase_def Let_def and_then_eq_Inr split: prod.splits if_splits)
qed

lemma scan_ok_finder_callback:
  assumes "scan_ok L F w" "finder_callback L F ref req w = Inr w'"
  shows "scan_kept L F w w'"
proof -
  obtain hf k hf' n where hf: "pf_objects_finder w = Some hf" "pf_objects_finder w' = Some hf'"
      and call: "hof_RequestCallback L F n req hf (pf_datastore w) = Inr (k, hf', pf_datastore w')"
    using assms(2) by (auto simp: finder_callback_def and_then_eq_Inr split: option.splits)
  have fresh: "\<forall>(u, n, r) \<in> set (hf_requests hf). unlinked r"
    using assms(1) hf by (simp add: scan_ok_def finder_requests_def)
  have "store_kept L F (pf_datastore w) (pf_datastore w') \<and> hf_requests hf' = hmap_erase (rq_url req) (hf_requests hf)"
    using call fresh report_object_kept [of L F n req "hf\<lparr>hf_num_completed_requests := hf_num_completed_requests hf + 1\<rparr>"]
    by (auto simp: hof_RequestCallback_def hof_erase_def Let_def and_then_eq_Inr split: option.splits if_splits)
  moreover have "set (hmap_erase u xs) \<subseteq> set xs" for u and xs :: "(string \<times> nat \<times> request) list"
    by (auto simp: hmap_erase_def)
  ultimately show ?thesis using assms(1) hf fresh ds_steps_reachable
    by (fastforce simp: scan_kept_def scan_ok_def store_kept_def finder_requests_def)
qed

lemma scan_ok_RequestCallback:
  assumes "scan_ok L F w" "RequestCallback L F h ref req w = Inr w'"
  shows "scan_kept L F w w'"
proof (cases h)
  case CrawlerHandler
  then obtain n where "crawler_RequestCallback L F (pf_crawler w) (rq_id req) (pf_datastore w) = Inr (n, pf_datastore w')"
    "finder_requests w' = finder_requests w"
    using assms(2) by (auto simp: RequestCallback_def and_then_eq_Inr finder_requests_def)
  then show ?thesis using scan_ok_store [OF assms(1)] crawler_callback_store by blast
next
  case NotFoundDetectorHandler
  then obtain n nd' where "nfd_RequestCallback L req (pf_not_found_detector w) (pf_datastore w) = Inr (n, nd', pf_datastore w')"
      and same: "finder_requests w' = finder_requests w"
    using assms(2) by (auto simp: RequestCallback_def and_then_eq_Inr finder_requests_def)
  then have "store_kept L F (pf_datastore w) (pf_datastore w')"
    using not_found_kept [of L F "pf_datastore w"]
    by (auto simp: nfd_RequestCallback_def Let_def and_then_eq_Inr split: option.splits) metis
  then show ?thesis using scan_ok_store [OF assms(1)] same by simp
next
  case HiddenObjectsFinderHandler
  then show ?thesis using assms scan_ok_finder_callback by (simp add: RequestCallback_def)
next
  case (RunnerHandler name)
  then show ?thesis using assms scan_ok_runner_callback
    by (auto simp: RequestCallback_def split: req_ref.splits)
qed

text \<open>The end of a transfer, cut at the handler: \<open>DoneCb\<close> gives the handler the request has, if any.\<close>

lemma finish_request_cut:
  assumes "finish_request L F m ref req w = Inr w'"
  obtains req3 h where "same_request req req3" "h = None \<or> h = rq_handler req"
    "(case h of None \<Rightarrow> Inr (put_ref ref req3 w) | Some h \<Rightarrow> RequestCallback L F h ref req3 (put_ref ref req3 w)) = Inr w'"
proof -
  define req1 where "req1 = (if fl_http_proxy F = []
    then (case pm_primary_ip m of Some ip \<Rightarrow> set_ip ip req | None \<Rightarrow> req) else req)"
  define req2 where "req2 = snd (SetRequestTimestamps (pm_times m) (pm_now m) req1)"
  have "same_request req req1" by (simp add: req1_def same_request_set_ip split: option.split)
  moreover have "same_request req1 req2" by (simp add: req2_def same_request_timestamps)
  ultimately have r2: "same_request req req2" by (rule same_request_trans)
  obtain req3 h where req3: "DoneCb L req2 = Inr (req3, h)"
      "(case h of None \<Rightarrow> Inr (put_ref ref req3 w) | Some h \<Rightarrow> RequestCallback L F h ref req3 (put_ref ref req3 w)) = Inr w'"
    using assms unfolding finish_request_def Let_def req2_def req1_def split_beta
    by (auto simp only: and_then_eq_Inr split_beta fst_conv snd_conv)
  moreover have "h = None \<or> h = rq_handler req2"
    using req3(1) by (auto simp: DoneCb_def and_then_eq_Inr split: if_splits option.splits)
  ultimately show ?thesis
    using that same_request_trans [OF r2 same_request_DoneCb [OF req3(1)]] r2 by (auto simp: same_request_def)
qed

lemma scan_ok_finish_request:
  assumes "scan_ok L F w" "deref w ref = Some req" "finish_request L F m ref req w = Inr w'"
  shows "scan_kept L F w w'"
proof -
  obtain req3 h where req3: "same_request req req3"
      "(case h of None \<Rightarrow> Inr (put_ref ref req3 w) | Some h \<Rightarrow> RequestCallback L F h ref req3 (put_ref ref req3 w)) = Inr w'"
    using finish_request_cut [OF assms(3)] by metis
  have put: "scan_kept L F w (put_ref ref req3 w)"
    using scan_ok_put_ref [OF assms(1,2) req3(1)] .
  show ?thesis
  proof (cases h)
    case None
    then show ?thesis using req3(2) put by simp
  next
    case (Some hd)
    then show ?thesis
      using req3(2) scan_ok_RequestCallback [OF scan_kept_ok [OF put]] scan_kept_trans [OF put] by simp
  qed
qed

text \<open>The steps of the loop.\<close>

lemma scan_ok_ids: "scan_ok L F w \<Longrightarrow> message_law L \<Longrightarrow> GetRequestById i (pf_datastore w) = Some r \<Longrightarrow> rq_id r = i"
  using ds_reachable_inv [of L F "pf_datastore w"]
  by (auto simp: scan_ok_def ds_inv_def ids_inv_def GetRequestById_def dest!: map_of_SomeD)

lemma scan_ok_probe_next:
  assumes "scan_ok L F w" "message_law L" "probe_next L F random w = Inr w'"
  shows "scan_kept L F w w'"
proof (cases "ds_probe_queue (pf_datastore w)")
  case (Cons i q)
  define ds1 where "ds1 = snd (GetRequestFromProbeQueue (pf_datastore w))"
  have pop: "GetRequestFromProbeQueue (pf_datastore w) = (Some i, ds1)" "store_of ds1 = store_of (pf_datastore w)"
    using Cons by (simp_all add: ds1_def GetRequestFromProbeQueue_def)
  obtain req where req: "GetRequestById i ds1 = Some req"
      and w': "pf_datastore w' = AddRequestToCrawlQueue (rq_id req) ds1" "finder_requests w' = finder_requests w"
    using assms(3) pop
    by (auto simp: probe_next_def and_then_eq_Inr finder_requests_def hof_AddUrl_def split: option.splits)
  have "rq_id req = i" using scan_ok_ids [OF assms(1,2)] req pop(2) by (simp add: GetRequestById_def)
  then have "store_kept L F (pf_datastore w) (pf_datastore w')"
    using probe_to_crawl_kept [OF Cons] req pop(2) w'(1) by (simp add: ds1_def GetRequestById_def)
  then show ?thesis using scan_ok_store [OF assms(1)] w'(2) by simp
qed (use assms scan_kept_refl in \<open>simp add: probe_next_def GetRequestFromProbeQueue_def\<close>)

lemma scan_ok_crawl_next:
  assumes "scan_ok L F w" "message_law L" "crawl_next w = Inr w'"
  shows "scan_kept L F w w'"
proof (cases "ds_crawl_queue (pf_datastore w)")
  case (Cons i q)
  define ds1 where "ds1 = snd (GetRequestFromCrawlQueue (pf_datastore w))"
  have pop: "GetRequestFromCrawlQueue (pf_datastore w) = (Some i, ds1)" "store_of ds1 = store_of (pf_datastore w)"
    using Cons by (simp_all add: ds1_def GetRequestFromCrawlQueue_def)
  obtain req where req: "GetRequestById i ds1 = Some req" using assms(3) pop by (auto simp: crawl_next_def split: option.splits)
  have id: "rq_id req = i" using scan_ok_ids [OF assms(1,2)] req pop(2) by (simp add: GetRequestById_def)
  have w': "pf_datastore w' = put_request i (req\<lparr>rq_handler := Some CrawlerHandler\<rparr>) ds1" "finder_requests w' = finder_requests w"
    using assms(3) pop req id
    by (auto simp: crawl_next_def Crawl_def Let_def and_then_eq_Inr finder_requests_def split: prod.splits)
  have "store_kept L F (pf_datastore w) (pf_datastore w')"
    using crawl_to_crawler_kept [OF Cons, of req] req pop(2) w'(1) by (simp add: ds1_def GetRequestById_def)
  then show ?thesis using scan_ok_store [OF assms(1)] w'(2) by simp
qed (use assms scan_kept_refl in \<open>simp add: crawl_next_def GetRequestFromCrawlQueue_def\<close>)

lemma scan_ok_audit_next:
  assumes "scan_ok L F w" "audit_next L F w = Inr w'"
  shows "scan_kept L F w w'"
proof -
  have "pf_datastore w' = pf_datastore w \<or> pf_datastore w' = snd (GetRequestFromAuditQueue (pf_datastore w))"
    "finder_requests w' = finder_requests w"
    using assms(2) by (auto simp: audit_next_def Let_def finder_requests_def split: option.splits prod.splits if_splits)
  then show ?thesis using scan_ok_store [OF assms(1)] audit_pop_kept store_kept_refl by metis
qed

lemma Request_url_unlinked: "Request_url L F url = Inr r \<Longrightarrow> unlinked r"
  using fresh_Request_ref [of L F url None r]
  by (simp add: Request_url_def Request_ref_def fresh_request_def unlinked_def)

lemma AddURL_kept:
  assumes "AddURL L F url w = Inr (ok, w')"
  shows "store_kept L F (pf_datastore w) (pf_datastore w') \<and> pf_objects_finder w' = pf_objects_finder w \<and>
     pf_reporters w' = pf_reporters w \<and> pf_enabled w' = pf_enabled w \<and> pf_http_client w' = pf_http_client w \<and>
     pf_not_found_detector w' = pf_not_found_detector w \<and> pf_selective_auditor w' = pf_selective_auditor w"
proof -
  obtain r where r: "Request_url L F url = Inr r" using assms by (auto simp: AddURL_def and_then_eq_Inr)
  have host: "store_kept L F d (AddHost h d)" for h d
    by (rule step_kept [OF ds_step.host]) (simp_all add: AddHost_def)
  have add: "store_kept L F d (snd (AddRequest L F r d))" for d
    using Request_url_unlinked [OF r] by (intro crawled_kept crawled_AddRequest) (simp_all add: unlinked_def)
  show ?thesis using assms r store_kept_trans [OF host add]
    by (auto simp: AddURL_def Let_def split_beta split: if_splits)
qed

lemma scan_ok_AddURL: "scan_ok L F w \<Longrightarrow> AddURL L F url w = Inr (ok, w') \<Longrightarrow> scan_kept L F w w'"
  using AddURL_kept [of L F url w ok w'] by (auto intro: scan_ok_store simp: finder_requests_def)

lemma set_hmap_put: "set (hmap_put k v m) \<subseteq> insert (k, v) (set m)"
  by (auto simp: hmap_put_def split: if_splits)

lemma schedule_tests_unlinked:
  "schedule_tests L F k hf c = Inr (hf', c') \<Longrightarrow> \<forall>(u, n, r) \<in> set (hf_requests hf). unlinked r \<Longrightarrow>
     \<forall>(u, n, r) \<in> set (hf_requests hf'). unlinked r"
proof (induction k arbitrary: hf c)
  case (Suc k)
  have step: "\<forall>(u, n, r) \<in> set (hf_requests hf1). unlinked r"
    if test: "schedule_test L F u hf0 c = Inr (hf1, c1)" and same: "hf_requests hf0 = hf_requests hf" for u hf0 hf1 c1
  proof -
    obtain r where r: "Request_url L F u = Inr r" using test by (auto simp: schedule_test_def and_then_eq_Inr)
    then have "unlinked (r\<lparr>rq_handler := Some HiddenObjectsFinderHandler\<rparr>)"
      using Request_url_unlinked [OF r] by (simp add: unlinked_def url_is_valid_def)
    moreover have "hf_requests hf1 = hf_requests hf \<or> hf_requests hf1 =
        hmap_put u (hf_next hf0, r\<lparr>rq_handler := Some HiddenObjectsFinderHandler\<rparr>) (hf_requests hf)"
      using test same r by (auto simp: schedule_test_def and_then_eq_Inr Let_def split: prod.splits if_splits)
    ultimately show ?thesis using Suc.prems(2) set_hmap_put by fastforce
  qed
  show ?case
  proof (cases "hf_test_urls_queue hf")
    case (Cons u q)
    then obtain hf1 c1 where "schedule_test L F u (hf\<lparr>hf_test_urls_queue := q\<rparr>) c = Inr (hf1, c1)"
      "schedule_tests L F k hf1 c1 = Inr (hf', c')"
      using Suc.prems(1) by (auto simp: and_then_eq_Inr)
    then show ?thesis using Suc.IH step by simp
  qed (use Suc.prems in simp)
qed simp

lemma scan_ok_schedule_hidden:
  assumes "scan_ok L F w" "schedule_hidden L F w = Inr w'"
  shows "scan_kept L F w w'"
proof -
  obtain hf n hf' c' where hf: "pf_objects_finder w = Some hf" "w' = w\<lparr>pf_objects_finder := Some hf', pf_http_client := c'\<rparr>"
      and run: "ScheduleRequests L F kMaxHiddenObjectsUrlsToSchedule hf (pf_http_client w) = Inr (n, hf', c')"
    using assms(2) by (auto simp: schedule_hidden_def and_then_eq_Inr split: option.splits)
  have fresh: "\<forall>(u, n, r) \<in> set (hf_requests hf). unlinked r"
    using assms(1) hf(1) by (simp add: scan_ok_def finder_requests_def)
  have "hf_requests hf1 = hf_requests hf0" if "GenerateTestUrls u hf0 = Inr (g, hf1)" for u hf0 g hf1
    using that by (auto simp: GenerateTestUrls_def Let_def and_then_eq_Inr split: if_splits)
  then have "\<forall>(u, n, r) \<in> set (hf_requests hf'). unlinked r"
    using run fresh schedule_tests_unlinked
    by (fastforce simp: ScheduleRequests_def and_then_eq_Inr split: if_splits)
  then show ?thesis using assms(1) hf by (simp add: scan_kept_def scan_ok_def finder_requests_def)
qed

lemma scan_ok_client [simp]: "scan_ok L F (w\<lparr>pf_http_client := c\<rparr>) = scan_ok L F w"
  by (simp add: scan_ok_def finder_requests_def)

lemma scan_ok_process_message:
  assumes "scan_ok L F w" "process_message L F m w = Inr w'"
  shows "scan_kept L F w w'"
  using assms scan_ok_finish_request [OF assms(1)] scan_kept_refl [OF assms(1)]
  by (auto simp: process_message_def and_then_eq_Inr scan_kept_def split: if_splits option.splits)

interpretation scan_store: body_steps L F "\<lambda>w w'. message_law L \<longrightarrow> scan_ok L F w \<longrightarrow> scan_kept L F w w'"
proof unfold_locales
  show "deliver F d w = Inr w' \<Longrightarrow> message_law L \<longrightarrow> scan_ok L F w \<longrightarrow> scan_kept L F w w'" for d w w'
    using scan_ok_deliver by blast
  show "process_message L F m w = Inr w' \<Longrightarrow> message_law L \<longrightarrow> scan_ok L F w \<longrightarrow> scan_kept L F w w'" for m w w'
    using scan_ok_process_message by blast
  show "probe_next L F random w = Inr w' \<Longrightarrow> message_law L \<longrightarrow> scan_ok L F w \<longrightarrow> scan_kept L F w w'" for random w w'
    using scan_ok_probe_next by blast
  show "crawl_next w = Inr w' \<Longrightarrow> message_law L \<longrightarrow> scan_ok L F w \<longrightarrow> scan_kept L F w w'" for w w'
    using scan_ok_crawl_next by blast
  show "schedule_hidden L F w = Inr w' \<Longrightarrow> message_law L \<longrightarrow> scan_ok L F w \<longrightarrow> scan_kept L F w w'" for w w'
    using scan_ok_schedule_hidden by blast
  show "audit_next L F w = Inr w' \<Longrightarrow> message_law L \<longrightarrow> scan_ok L F w \<longrightarrow> scan_kept L F w w'" for w w'
    using scan_ok_audit_next by blast
qed (auto simp: scan_kept_refl scan_kept_def intro: store_kept_trans)

lemmas loop_body_frame = body_frame.loop_body_R

section \<open>Lemmas: shutting down\<close>

lemmas shutdown_defs = SignalHandler_def KeepRunningOrShutdown_def ShutdownGraceful_def Shutdown_def
  SetShutdownTime_def plusfish_Disable_def disable_client_def client_Disable_def

lemma SignalHandler_queue [simp]:
  "hc_schedule_queue (pf_http_client (SignalHandler F t sig w)) = hc_schedule_queue (pf_http_client w)"
  "hc_running_handles (pf_http_client (SignalHandler F t sig w)) = hc_running_handles (pf_http_client w)"
  by (simp_all add: shutdown_defs)

lemma signals_queue [simp]:
  "hc_schedule_queue (pf_http_client (fold (SignalHandler F t) sigs w)) = hc_schedule_queue (pf_http_client w)"
  by (induction sigs arbitrary: w) simp_all

lemma KeepRunning_queue [simp]:
  "hc_schedule_queue (pf_http_client (snd (KeepRunningOrShutdown F t w))) = hc_schedule_queue (pf_http_client w)"
  by (simp add: shutdown_defs)

text \<open>
  By the deadline \<open>t\<close> the scan is in its grace period or will enter it: the client is off and
  the shutdown time within the grace period of \<open>t\<close>, or the shutdown time is reached by \<open>t\<close>.
\<close>

definition winding_down :: "flags \<Rightarrow> int \<Rightarrow> plusfish \<Rightarrow> bool" where
  "winding_down F t w \<longleftrightarrow> pf_shutdown_time w \<le> t \<or>
     \<not> hc_enabled (pf_http_client w) \<and> pf_shutdown_time w \<le> t + fl_max_graceful_shutdown_duration F"

definition closing :: "int \<Rightarrow> plusfish \<Rightarrow> bool" where
  "closing t w \<longleftrightarrow> \<not> hc_enabled (pf_http_client w) \<and> pf_shutdown_time w \<le> t"

lemma winding_down_frame: "body_frame w w' \<Longrightarrow> winding_down F t w' = winding_down F t w"
  by (simp add: winding_down_def body_frame_def client_frame_def)

lemma closing_frame: "body_frame w w' \<Longrightarrow> closing t w' = closing t w"
  by (simp add: closing_def body_frame_def client_frame_def)

lemma winding_down_signal:
  "now \<le> t \<Longrightarrow> winding_down F t w \<Longrightarrow> winding_down F t (SignalHandler F now sig w)"
  by (auto simp: winding_down_def shutdown_defs)

lemma winding_down_signals:
  "now \<le> t \<Longrightarrow> winding_down F t w \<Longrightarrow> winding_down F t (fold (SignalHandler F now) sigs w)"
  by (induction sigs arbitrary: w) (simp_all add: winding_down_signal)

lemma closing_signal: "closing t w \<Longrightarrow> closing t (SignalHandler F now sig w)"
  by (auto simp: closing_def shutdown_defs)

lemma closing_signals: "closing t w \<Longrightarrow> closing t (fold (SignalHandler F now) sigs w)"
  by (induction sigs arbitrary: w) (simp_all add: closing_signal)

lemma winding_down_keep:
  "now \<le> t \<Longrightarrow> winding_down F t w \<Longrightarrow> winding_down F t (snd (KeepRunningOrShutdown F now w))"
  by (auto simp: winding_down_def shutdown_defs)

lemma winding_down_last:
  "winding_down F t w \<Longrightarrow> t \<le> t' \<Longrightarrow> t + fl_max_graceful_shutdown_duration F \<le> t' \<Longrightarrow>
     fst (KeepRunningOrShutdown F t w) \<Longrightarrow> closing t' (snd (KeepRunningOrShutdown F t w))"
  by (auto simp: winding_down_def closing_def shutdown_defs split: if_splits)

lemma closing_keep: "closing t w \<Longrightarrow> closing t (snd (KeepRunningOrShutdown F now w))"
  by (auto simp: closing_def shutdown_defs)

lemma closing_stops: "closing t w \<Longrightarrow> \<not> fst (KeepRunningOrShutdown F t w)"
  by (auto simp: closing_def shutdown_defs)

text \<open>A round that goes on, cut at the loop condition.\<close>

lemma loop_round_cut:
  assumes "loop_round L F e w = Inr (b, w')"
  obtains w1 where "body_frame w w1"
    "b \<longleftrightarrow> fst (KeepRunningOrShutdown F (le_time e) (fold (SignalHandler F (le_time e)) (le_signals e) w1)) \<and>
       (hc_running_handles (pf_http_client w') \<noteq> [] \<or> hc_schedule_queue (pf_http_client w') \<noteq> [])"
    "w' = snd (KeepRunningOrShutdown F (le_time e) (fold (SignalHandler F (le_time e)) (le_signals e) w1))"
  using assms by (auto simp: loop_round_def Let_def split_beta and_then_eq_Inr dest: loop_body_frame)

text \<open>Once the client is off, the loop ends at the deadline at the latest.\<close>

lemma Run_closes:
  "closing (le_time (env m)) w \<Longrightarrow> k \<le> m \<Longrightarrow> \<exists>r. plusfish_Run L F env k (Suc m - k) w = Some r"
proof (induction "m - k" arbitrary: k w)
  case 0
  show ?case
  proof (cases "loop_round L F (env k) w")
    case (Inr bw)
    obtain b w' where bw: "bw = (b, w')" by (cases bw)
    obtain w1 where w1: "body_frame w w1"
      "b \<Longrightarrow> fst (KeepRunningOrShutdown F (le_time (env k)) (fold (SignalHandler F (le_time (env k))) (le_signals (env k)) w1))"
      using loop_round_cut [of L F "env k" w b w'] Inr bw by blast
    have "closing (le_time (env k)) (fold (SignalHandler F (le_time (env k))) (le_signals (env k)) w1)"
      using 0 closing_frame [OF w1(1)] closing_signals by simp
    then have "\<not> b" using w1(2) closing_stops by blast
    then show ?thesis using 0 Inr bw by simp
  qed (use 0 in simp)
next
  case (Suc n)
  then have fuel: "Suc m - k = Suc (Suc m - Suc k)" by simp
  show ?case
  proof (cases "loop_round L F (env k) w")
    case (Inr bw)
    obtain b w' where bw: "bw = (b, w')" by (cases bw)
    have "closing (le_time (env m)) w'"
      using loop_round_cut [of L F "env k" w b w'] Inr bw Suc.prems(1) closing_frame closing_signals closing_keep by metis
    then show ?thesis using Suc.hyps(1) [of "Suc k" w'] Suc.hyps(2) Suc.prems(2) Inr bw fuel by simp
  qed (use fuel in simp)
qed

lemma Run_winds_down:
  assumes "\<And>j. j \<le> n \<Longrightarrow> le_time (env j) \<le> le_time (env n)" "le_time (env n) \<le> le_time (env m)"
    "le_time (env n) + fl_max_graceful_shutdown_duration F \<le> le_time (env m)" "n < m"
  shows "winding_down F (le_time (env n)) w \<Longrightarrow> k \<le> n \<Longrightarrow> \<exists>r. plusfish_Run L F env k (Suc m - k) w = Some r"
proof (induction "n - k" arbitrary: k w)
  case 0
  then have k: "k = n" and fuel: "Suc m - k = Suc (Suc m - Suc k)" using assms(4) by simp_all
  show ?case
  proof (cases "loop_round L F (env k) w")
    case (Inr bw)
    obtain b w' where bw: "bw = (b, w')" by (cases bw)
    have "closing (le_time (env m)) w'" if b
      using loop_round_cut [of L F "env k" w b w'] Inr bw that 0(2) winding_down_frame
        winding_down_signals [OF order_refl] winding_down_last [OF _ assms(2,3)] unfolding k by metis
    then show ?thesis using Run_closes [of env m w' "Suc k"] Inr bw fuel k assms(4) by auto
  qed (use fuel in simp)
next
  case (Suc x)
  then have fuel: "Suc m - k = Suc (Suc m - Suc k)" using assms(4) by simp
  show ?case
  proof (cases "loop_round L F (env k) w")
    case (Inr bw)
    obtain b w' where bw: "bw = (b, w')" by (cases bw)
    have "winding_down F (le_time (env n)) w'"
      using loop_round_cut [of L F "env k" w b w'] Inr bw Suc.prems winding_down_frame
        winding_down_signals [OF assms(1)] winding_down_keep [OF assms(1)] by metis
    then show ?thesis using Suc.hyps(1) [of "Suc k" w'] Suc.hyps(2) Inr bw fuel by simp
  qed (use fuel in simp)
qed

lemma scan_ok_shutdown:
  "scan_ok L F w \<Longrightarrow> scan_kept L F w (SignalHandler F t sig w)"
  "scan_ok L F w \<Longrightarrow> scan_kept L F w (snd (KeepRunningOrShutdown F t w))"
  by (auto intro!: scan_ok_store [OF _ store_kept_refl] simp: shutdown_defs finder_requests_def)

lemma scan_ok_round:
  assumes "message_law L" "scan_ok L F w" "loop_round L F e w = Inr (b, w')"
  shows "scan_ok L F w'"
proof -
  have signals: "scan_ok L F v \<Longrightarrow> scan_ok L F (fold (SignalHandler F t) sigs v)" for v t sigs
    by (induction sigs arbitrary: v) (auto intro: scan_kept_ok scan_ok_shutdown(1))
  have keep: "scan_ok L F v \<Longrightarrow> scan_ok L F (snd (KeepRunningOrShutdown F t v))" for v t
    using scan_ok_shutdown(2) scan_kept_ok by blast
  obtain w1 where "loop_body L F e w = Inr w1"
    "w' = snd (KeepRunningOrShutdown F (le_time e) (fold (SignalHandler F (le_time e)) (le_signals e) w1))"
    using assms(3) by (auto simp: loop_round_def Let_def split_beta and_then_eq_Inr)
  then show ?thesis using scan_store.loop_body_R assms(1,2) scan_kept_ok signals keep by blast
qed

lemma scan_ok_Run:
  "message_law L \<Longrightarrow> scan_ok L F w \<Longrightarrow> plusfish_Run L F env k fuel w = Some (Inr w') \<Longrightarrow> scan_ok L F w'"
proof (induction fuel arbitrary: k w)
  case (Suc fuel)
  then obtain b w1 where r: "loop_round L F (env k) w = Inr (b, w1)" by (auto split: sum.splits)
  have "scan_ok L F w1" using scan_ok_round [OF Suc.prems(1,2) r] .
  then show ?case using Suc r by (auto split: if_splits)
qed simp

text \<open>The first round on a fresh data store: the only stored request passes the probe and the crawl queue.\<close>

lemma AddRequest_queues:
  "AddRequest L F req ds = (i, ds') \<Longrightarrow>
     ds_crawl_queue ds' = ds_crawl_queue ds \<and> ds_audit_queue ds' = ds_audit_queue ds \<and>
     (if in_scope L req ds \<and> pivot_takes F req ds
      then i = ds_request_id ds + 1 \<and> GetRequestById i ds' = Some (req\<lparr>rq_id := i\<rparr>) \<and>
        ds_probe_queue ds' = ds_probe_queue ds @ [i]
      else ds_requests_by_id ds' = ds_requests_by_id ds)"
  by (auto simp: pivot_takes_def AddRequest_scope AddRequestToPivot_alt AddRequestToIdMap_alt Let_def
      GetRequestById_def split_beta split: if_splits)

lemma AddURL_first:
  assumes "pf_datastore w = DataStore" "AddURL L F url w = Inr (ok, w1)" "GetRequestById 1 (pf_datastore w1) = Some req"
  shows "ds_probe_queue (pf_datastore w1) = [1] \<and> ds_crawl_queue (pf_datastore w1) = [] \<and>
     ds_audit_queue (pf_datastore w1) = [] \<and> rq_id req = 1 \<and> pf_http_client w1 = pf_http_client w"
proof -
  obtain r where r: "Request_url L F url = Inr r" using assms(2) by (auto simp: AddURL_def and_then_eq_Inr)
  let ?ds = "AddHost (host r) DataStore"
  obtain i ds2 where add: "AddRequest L F r ?ds = (i, ds2)" by force
  have ds: "ds_request_id ?ds = 0" "ds_probe_queue ?ds = []" "ds_crawl_queue ?ds = []" "ds_audit_queue ?ds = []"
    "ds_requests_by_id ?ds = []" "ds_requests_by_id DataStore = []"
    by (simp_all add: AddHost_def DataStore_def)
  have "w1 = w\<lparr>pf_datastore := ds2\<rparr>"
    using assms r add ds(6) by (auto simp: AddURL_def GetRequestById_def split: if_splits)
  then show ?thesis using AddRequest_queues [OF add] assms(3) ds by (auto simp: GetRequestById_def split: if_splits)
qed

lemma start_nothing:
  assumes "hc_schedule_queue (pf_http_client w) = []" "start_new_requests F e w = Inr w'"
  shows "w' = w"
  using assms by (auto simp: start_new_requests_def StartNewRequests_def Let_def and_then_eq_Inr split: if_splits)

lemma probe_then_crawl:
  assumes "ds_probe_queue (pf_datastore w) = [i]" "ds_crawl_queue (pf_datastore w) = []"
    "GetRequestById i (pf_datastore w) = Some req" "rq_id req = i" "hc_enabled (pf_http_client w)"
    "probe_next L F random w = Inr w1" "crawl_next w1 = Inr w2"
  shows "\<exists>q. hc_schedule_queue (pf_http_client w2) = q @ [StoredRequest i] \<and> hc_enabled (pf_http_client w2) \<and>
     GetRequestById i (pf_datastore w2) = Some (req\<lparr>rq_handler := Some CrawlerHandler\<rparr>) \<and>
     ds_audit_queue (pf_datastore w2) = ds_audit_queue (pf_datastore w)"
proof -
  let ?ds1 = "(pf_datastore w)\<lparr>ds_probe_queue := []\<rparr>"
  obtain added nd' c' where add: "nfd_AddUrl L F random (rq_url req) (pf_not_found_detector w) (pf_http_client w) = Inr (added, nd', c')"
    and w1: "pf_http_client w1 = c'" "pf_datastore w1 = AddRequestToCrawlQueue i ?ds1"
    using assms(1,3,4,6)
    by (auto simp: probe_next_def GetRequestFromProbeQueue_def GetRequestById_def and_then_eq_Inr)
  have "hc_enabled c'" using client_frame_AddUrl [OF add] assms(5) by (simp add: client_frame_def)
  then show ?thesis using assms(2,3,4,7) w1
    by (auto simp: crawl_next_def GetRequestFromCrawlQueue_def AddRequestToCrawlQueue_def GetRequestById_def
        Crawl_def Schedule_def put_request_def Let_def and_then_eq_Inr)
qed

lemma hidden_keeps_queue:
  assumes "split_law L" "schedule_hidden L F w = Inr w'"
  shows "\<exists>q. hc_schedule_queue (pf_http_client w') = hc_schedule_queue (pf_http_client w) @ q \<and>
     pf_datastore w' = pf_datastore w"
proof -
  obtain hf n hf' c' where run: "ScheduleRequests L F kMaxHiddenObjectsUrlsToSchedule hf (pf_http_client w) = Inr (n, hf', c')"
    "pf_http_client w' = c'" "pf_datastore w' = pf_datastore w"
    using assms(2) by (auto simp: schedule_hidden_def and_then_eq_Inr split: option.splits)
  have "\<exists>q. hc_schedule_queue c1 = hc_schedule_queue c @ q" if "schedule_tests L F k hf0 c = Inr (hf1, c1)" for k hf0 c hf1 c1
    using schedule_tests_run [OF assms(1), of F k hf0 c] that by (auto split: if_splits)
  then show ?thesis using run by (auto simp: ScheduleRequests_def and_then_eq_Inr split: if_splits)
qed

text \<open>Without a finder the body does not get past its fifth step.\<close>

lemma loop_body_no_finder:
  assumes "pf_objects_finder w = None"
  shows "\<exists>fault. loop_body L F e w = Inl fault"
proof (cases "loop_body L F e w")
  case (Inr w')
  then obtain w1 n w2 w3 w4 w5 where steps: "start_new_requests F e w = Inr w1"
    "Poll L F (le_poll e) w1 = Inr (n, w2)" "probe_next L F (le_random e) w2 = Inr w3"
    "crawl_next w3 = Inr w4" "schedule_hidden L F w4 = Inr w5"
    by (auto simp: loop_body_def and_then_eq_Inr)
  have "body_frame w w4"
    using body_frame.start_new_requests_R [OF steps(1)] body_frame.Poll_R [OF steps(2)]
      body_frame.probe [OF steps(3)] body_frame.crawl [OF steps(4)] body_frame_trans by blast
  then have "pf_objects_finder w4 = None" using assms by (simp add: body_frame_def)
  with steps(5) show ?thesis by (simp add: schedule_hidden_def)
qed simp

section \<open>Properties\<close>

text \<open>
  C9: \<open>Run\<close> returns. Whatever the network does and whatever signals arrive, if the clock does
  not go back, has reached the shutdown time in round \<open>n\<close> and a grace period more in a later
  round \<open>m\<close>, the loop ends in or before round \<open>m\<close>.
\<close>

theorem Run_returns:
  assumes "\<And>i j. i \<le> j \<Longrightarrow> le_time (env i) \<le> le_time (env j)"
    "pf_shutdown_time w \<le> le_time (env n)" "n < m"
    "le_time (env n) + fl_max_graceful_shutdown_duration F \<le> le_time (env m)"
  shows "\<exists>r. plusfish_Run L F env 0 (Suc m) w = Some r"
proof -
  have "\<exists>r. plusfish_Run L F env 0 (Suc m - 0) w = Some r"
    using assms by (intro Run_winds_down [of n]) (auto simp: winding_down_def)
  then show ?thesis by simp
qed

text \<open>An environment in which nothing happens but the time passing.\<close>

definition idle_env :: "int \<Rightarrow> loop_env" where
  "idle_env t = \<lparr>le_start = (\<lambda>k. \<lparr>se_time = t, se_EasyInit = None, se_EasySetOpt = (\<lambda>opt. True),
       se_AppendSlist = (\<lambda>s. True), se_MultiAddHandle = True, se_MultiPerform = (False, 0, [])\<rparr>),
     le_poll = \<lparr>pe_Select = 0, pe_MultiPerform = (0, []), pe_messages = []\<rparr>, le_random = 7,
     le_signals = [], le_time = t\<rparr>"

definition sample_scan :: plusfish where
  "sample_scan = SetShutdownTime 100 (Plusfish sample_crawler (Some SelectiveAuditor) NotFoundDetector
     (Some HiddenObjectsFinder) 10 (client_Enable (CurlHttpClient 100)) (AddHost ''a.b'' DataStore))"

theorem Run_returns_witness:
  "\<exists>r. plusfish_Run simple_lib default_flags (\<lambda>k. idle_env (50 * int k)) 0 9 sample_scan = Some r"
  using Run_returns [of "\<lambda>k. idle_env (50 * int k)" sample_scan 2 8 default_flags simple_lib]
  by (simp add: idle_env_def sample_scan_def SetShutdownTime_def default_flags_def)

text \<open>
  the two stages of an interrupt. The first one turns the client off and starts the grace
  period, in which the scan goes on; the second one, or the end of the grace period, ends the
  scan, and it stays ended.
\<close>

theorem interrupt_stages:
  assumes "pf_enabled w" "hc_enabled (pf_http_client w)"
  shows "let w1 = SignalHandler F now SIGINT w; w2 = SignalHandler F later SIGINT w1 in
     pf_enabled w1 \<and> \<not> hc_enabled (pf_http_client w1) \<and>
     pf_shutdown_time w1 = now + fl_max_graceful_shutdown_duration F \<and>
     fst (KeepRunningOrShutdown F t w1) = (t < now + fl_max_graceful_shutdown_duration F) \<and>
     \<not> pf_enabled w2 \<and> \<not> fst (KeepRunningOrShutdown F t w2) \<and>
     \<not> pf_enabled (fold (SignalHandler F later) sigs w2)"
proof -
  have off: "\<not> pf_enabled v \<Longrightarrow> \<not> pf_enabled (fold (SignalHandler F later) sigs v)" for v
    by (induction sigs arbitrary: v) (auto simp: shutdown_defs)
  show ?thesis
    unfolding Let_def using assms by (intro conjI off) (auto simp: shutdown_defs SIGINT_def SIGTERM_def)
qed

theorem interrupt_stages_witness:
  "\<not> pf_enabled (SignalHandler default_flags 60 SIGINT (SignalHandler default_flags 50 SIGINT sample_scan))"
  using interrupt_stages [of sample_scan default_flags 50 60 0 "[]"]
  by (simp add: Let_def sample_scan_def SetShutdownTime_def Plusfish_def client_Enable_def)

text \<open>
  C33: the grace period does not end early when requests are still queued. A client that is off
  never takes anything from its queue, so with a request in the queue a round ends the loop
  only when the scan is disabled or the shutdown time is reached, even though no transfer is
  active.
\<close>

theorem grace_period_waits:
  assumes "\<not> hc_enabled (pf_http_client w)" "hc_schedule_queue (pf_http_client w) \<noteq> []" "le_signals e = []"
    "loop_round L F e w = Inr (again, w')"
  shows "hc_schedule_queue (pf_http_client w') = hc_schedule_queue (pf_http_client w) \<and>
     again = (pf_enabled w \<and> le_time e < pf_shutdown_time w)"
proof -
  obtain w1 where "body_frame w w1"
    "again \<longleftrightarrow> fst (KeepRunningOrShutdown F (le_time e) w1) \<and>
       (hc_running_handles (pf_http_client w') \<noteq> [] \<or> hc_schedule_queue (pf_http_client w') \<noteq> [])"
    "w' = snd (KeepRunningOrShutdown F (le_time e) w1)"
    using loop_round_cut [OF assms(4)] assms(3) by (metis fold_simps(1))
  then show ?thesis using assms(1,2)
    by (auto simp: body_frame_def client_frame_def shutdown_defs split: if_splits)
qed

theorem grace_period_waits_witness:
  "\<exists>w'. loop_round simple_lib default_flags (idle_env 10) (sample_scan\<lparr>pf_http_client :=
       (CurlHttpClient 1)\<lparr>hc_schedule_queue := [StoredRequest 1]\<rparr>\<rparr>) = Inr (True, w') \<and>
     hc_running_handles (pf_http_client w') = [] \<and> hc_schedule_queue (pf_http_client w') = [StoredRequest 1]"
proof -
  let ?w = "sample_scan\<lparr>pf_http_client := (CurlHttpClient 1)\<lparr>hc_schedule_queue := [StoredRequest 1]\<rparr>\<rparr>"
  let ?r = "loop_round simple_lib default_flags (idle_env 10) ?w"
  have "map_sum id (\<lambda>(again, w'). hc_running_handles (pf_http_client w') = []) ?r = Inr True" by code_simp
  then obtain again w' where r: "?r = Inr (again, w')" "hc_running_handles (pf_http_client w') = []"
    by (cases ?r) auto
  have "\<not> hc_enabled (pf_http_client ?w)" "hc_schedule_queue (pf_http_client ?w) \<noteq> []" "le_signals (idle_env 10) = []"
    by (simp_all add: CurlHttpClient_def idle_env_def)
  from grace_period_waits [OF this r(1)] r show ?thesis
    by (auto simp: sample_scan_def SetShutdownTime_def Plusfish_def idle_env_def)
qed

text \<open>
  without a word list there is no finder, and the scan dies in its first round: the loop
  body calls the finder through a null pointer, whatever else happens before.
\<close>

theorem scan_needs_finder:
  assumes "pf_objects_finder w = None"
  shows "\<exists>e. plusfish_Run L F env k (Suc fuel) w = Some (Inl e)"
  using loop_body_no_finder [OF assms, of L F "env k"] by (auto simp: loop_round_def and_then_def)

theorem scan_needs_finder_witness:
  "\<exists>e. plusfish_Run simple_lib default_flags (\<lambda>k. idle_env 10) 0 1 (sample_scan\<lparr>pf_objects_finder := None\<rparr>) = Some (Inl e)"
  using scan_needs_finder [of "sample_scan\<lparr>pf_objects_finder := None\<rparr>" simple_lib default_flags "\<lambda>k. idle_env 10" 0 0]
  by simp

text \<open>
  C2: a scan keeps its site map. Whatever libcurl delivers and whatever the pages contain, when
  \<open>Run\<close> returns without a fault the data store satisfies its invariant: requests numbered
  without gaps, each with an allowed host and owned by one pivot, queues of stored requests,
  issues consistent. No stored request has a parent.
\<close>

theorem scan_keeps_store:
  assumes "message_law L" "ds_reachable L F (pf_datastore w)" "parentless (pf_datastore w)"
    "hosted (pf_datastore w)" "finder_requests w = []" "plusfish_Run L F env k fuel w = Some (Inr w')"
  shows "ds_inv (pf_datastore w') \<and> parentless (pf_datastore w') \<and> hosted (pf_datastore w')"
proof -
  have "scan_ok L F w" using assms(2-5) by (simp add: scan_ok_def)
  then have "scan_ok L F w'" using scan_ok_Run [OF assms(1)] assms(6) by blast
  then show ?thesis using ds_reachable_inv assms(1) by (auto simp: scan_ok_def)
qed

definition two_rounds :: "nat \<Rightarrow> loop_env" where
  "two_rounds k = (idle_env (200 * int k))\<lparr>le_signals := (if k = 1 then [SIGINT, SIGINT] else [])\<rparr>"

theorem scan_keeps_store_witness:
  "\<exists>w'. plusfish_Run simple_lib default_flags two_rounds 0 2 sample_scan = Some (Inr w') \<and> ds_inv (pf_datastore w')"
proof -
  let ?r = "plusfish_Run simple_lib default_flags two_rounds 0 2 sample_scan"
  have "map_option isl ?r = Some False" by code_simp
  then obtain a where a: "?r = Some a" "\<not> isl a" by (cases ?r) auto
  then obtain w' where run: "?r = Some (Inr w')" by (cases a) auto
  have ds: "pf_datastore sample_scan = AddHost ''a.b'' DataStore" "finder_requests sample_scan = []"
    by (simp_all add: sample_scan_def SetShutdownTime_def Plusfish_def finder_requests_def HiddenObjectsFinder_def)
  have "ds_reachable simple_lib default_flags (AddHost ''a.b'' DataStore)"
    using ds_reachable.step [OF ds_reachable.init ds_step.host] .
  moreover have "parentless (AddHost ''a.b'' DataStore)" "hosted (AddHost ''a.b'' DataStore)"
    by (simp_all add: parentless_def hosted_def AddHost_def DataStore_def GetRequestById_def)
  ultimately show ?thesis
    using scan_keeps_store [OF message_law_simple _ _ _ _ run] ds run by simp
qed

text \<open>
  C13: a target is requested. After \<open>AddURL\<close> on a fresh scan stored its request, one round of the
  main loop takes it through the probe queue and the crawl queue to the client: the request is
  scheduled and will be answered to the crawler.
\<close>

theorem target_is_requested:
  assumes "split_law L" "pf_datastore w = DataStore" "hc_enabled (pf_http_client w)"
    "hc_schedule_queue (pf_http_client w) = []" "hc_running_handles (pf_http_client w) = []"
    "AddURL L F url w = Inr (ok, w1)" "GetRequestById 1 (pf_datastore w1) = Some req"
    "loop_body L F e w1 = Inr w2"
  shows "StoredRequest 1 \<in> set (hc_schedule_queue (pf_http_client w2)) \<and>
     GetRequestById 1 (pf_datastore w2) = Some (req\<lparr>rq_handler := Some CrawlerHandler\<rparr>)"
proof -
  have store: "ds_probe_queue (pf_datastore w1) = [1]" "ds_crawl_queue (pf_datastore w1) = []" "rq_id req = 1"
    "ds_audit_queue (pf_datastore w1) = []" "pf_http_client w1 = pf_http_client w"
    using AddURL_first [OF assms(2,6,7)] by simp_all
  obtain v1 n v2 v3 v4 v5 where steps: "start_new_requests F e w1 = Inr v1" "Poll L F (le_poll e) v1 = Inr (n, v2)"
      "probe_next L F (le_random e) v2 = Inr v3" "crawl_next v3 = Inr v4" "schedule_hidden L F v4 = Inr v5"
      "audit_next L F v5 = Inr w2"
    using assms(8) by (auto simp: loop_body_def and_then_eq_Inr)
  have "v1 = w1" using start_nothing steps(1) store(5) assms(4) by simp
  moreover from this have "v2 = w1" using steps(2) store(5) assms(5) by (simp add: Poll_def)
  ultimately obtain q where v4: "hc_schedule_queue (pf_http_client v4) = q @ [StoredRequest 1]"
      "GetRequestById 1 (pf_datastore v4) = Some (req\<lparr>rq_handler := Some CrawlerHandler\<rparr>)"
      "ds_audit_queue (pf_datastore v4) = []"
    using probe_then_crawl [OF _ _ assms(7), of L F "le_random e" v3 v4] store steps(3,4) assms(3) by auto
  obtain q' where v5: "hc_schedule_queue (pf_http_client v5) = hc_schedule_queue (pf_http_client v4) @ q'"
      "pf_datastore v5 = pf_datastore v4"
    using hidden_keeps_queue [OF assms(1) steps(5)] by blast
  have "w2 = v5" using steps(6) v4(3) v5(2) by (simp add: audit_next_def split: option.splits)
  then show ?thesis using v4 v5 by simp
qed

theorem target_is_requested_witness:
  "\<exists>w1 w2. AddURL simple_lib default_flags ''http://a.b/x'' (sample_scan\<lparr>pf_datastore := DataStore\<rparr>) = Inr (True, w1) \<and>
     loop_body simple_lib default_flags (idle_env 10) w1 = Inr w2 \<and>
     StoredRequest 1 \<in> set (hc_schedule_queue (pf_http_client w2))"
proof -
  let ?w = "sample_scan\<lparr>pf_datastore := DataStore\<rparr>"
  let ?a = "AddURL simple_lib default_flags ''http://a.b/x'' ?w"
  have "map_sum id (\<lambda>(ok, w1). ok \<and> GetRequestById 1 (pf_datastore w1) \<noteq> None \<and>
      \<not> isl (loop_body simple_lib default_flags (idle_env 10) w1)) ?a = Inr True" by code_simp
  then obtain w1 req where a: "?a = Inr (True, w1)" "GetRequestById 1 (pf_datastore w1) = Some req"
      "\<not> isl (loop_body simple_lib default_flags (idle_env 10) w1)"
    by (cases ?a) auto
  then obtain w2 where w2: "loop_body simple_lib default_flags (idle_env 10) w1 = Inr w2"
    by (cases "loop_body simple_lib default_flags (idle_env 10) w1") auto
  have "pf_datastore ?w = DataStore" "hc_enabled (pf_http_client ?w)"
    "hc_schedule_queue (pf_http_client ?w) = []" "hc_running_handles (pf_http_client ?w) = []"
    by (simp_all add: sample_scan_def SetShutdownTime_def Plusfish_def client_Enable_def CurlHttpClient_def)
  from target_is_requested [OF split_law_simple this a(1,2) w2] a(1) w2
  show ?thesis by blast
qed


end
