(* ===== verification/Curl.thy ===== *)
theory Curl
  imports Scanner
begin

text \<open>
  \<open>src/curl.{h,cc}\<close>: the wrapper of libcurl, and how the client reads its results
  (\<open>src/curl_http_client.cc\<close>). libcurl and \<open>select\<close> are a parameter, the record \<open>libcurl\<close> of what
  their functions return; the wrapper's methods are definitions over it (the handle arguments are
  left out: there is one multi handle, one share object, and one easy handle at a time), and \<open>start_env_of\<close> and
  \<open>poll_env_of\<close> make of them the environments in which the client starts and polls transfers.
\<close>

text \<open>
  The options of the multi handle and the share object. \<open>MultiSetOpt\<close> passes on a pointer, so libcurl,
  which takes a \<open>long\<close> for these options, gets the address of an \<open>int\<close>.
\<close>

datatype int_object = IntObject int

datatype multi_opt = CURLMOPT_PIPELINING int_object | CURLMOPT_MAXCONNECTS int_object

datatype curl_lock_data = CURL_LOCK_DATA_COOKIE

text \<open>
  A message of the multi handle. The three answers of \<open>curl_easy_getinfo\<close> the client asks for are the
  return code with the address, and with the two times as the microseconds the client computes of them.
\<close>

record curl_msg =
  cm_done :: bool
  cm_easy_handle :: nat
  cm_now :: int

record libcurl =
  lc_easy_init :: "nat option"
  lc_easy_setopt :: "curl_opt \<Rightarrow> int"
  lc_slist_append :: "string list \<Rightarrow> string \<Rightarrow> string list option"
  lc_multi_init :: "nat option"
  lc_multi_setopt :: "multi_opt \<Rightarrow> int"
  lc_multi_add_handle :: int
  lc_multi_perform :: "int \<times> int \<times> delivery list"
  lc_multi_timeout :: int
  lc_multi_fdset :: int
  lc_multi_info_read :: "curl_msg list"
  lc_easy_getinfo_ip :: "nat \<Rightarrow> int \<times> string option"
  lc_easy_getinfo_times :: "nat \<Rightarrow> int \<times> int \<times> int"
  lc_select :: "int \<Rightarrow> int \<times> int \<Rightarrow> int"
  lc_share_init :: "nat option"
  lc_share_setopt :: "curl_lock_data \<Rightarrow> int"

definition CURLE_OK :: int where "CURLE_OK = 0"
definition CURLM_OK :: int where "CURLM_OK = 0"
definition CURLSHE_OK :: int where "CURLSHE_OK = 0"

section \<open>The wrapper\<close>

definition MultiAddHandle :: "libcurl \<Rightarrow> int" where
  "MultiAddHandle lc = lc_multi_add_handle lc"

text \<open>\<open>MultiInfoRead\<close> gives the next message, and null when there is none.\<close>

definition MultiInfoRead :: "libcurl \<Rightarrow> curl_msg option \<times> libcurl" where
  "MultiInfoRead lc = (case lc_multi_info_read lc of
     [] \<Rightarrow> (None, lc) | m # ms \<Rightarrow> (Some m, lc\<lparr>lc_multi_info_read := ms\<rparr>))"

definition MultiInit :: "libcurl \<Rightarrow> nat option" where
  "MultiInit lc = lc_multi_init lc"

text \<open>\<open>curl_multi_perform\<close>: the return code and the number of running transfers, with the data delivered meanwhile.\<close>

definition MultiPerform :: "libcurl \<Rightarrow> int \<times> int \<times> delivery list" where
  "MultiPerform lc = lc_multi_perform lc"

definition kEnablePipeliningParam :: int where "kEnablePipeliningParam = 1"

definition MultiEnablePipelining :: "libcurl \<Rightarrow> int" where
  "MultiEnablePipelining lc = lc_multi_setopt lc (CURLMOPT_PIPELINING (IntObject kEnablePipeliningParam))"

definition MultiSetOpt :: "libcurl \<Rightarrow> multi_opt \<Rightarrow> int" where
  "MultiSetOpt lc opt = lc_multi_setopt lc opt"

definition kMaxTimeoutMs :: int where "kMaxTimeoutMs = 3000"

definition int_of_long :: "int \<Rightarrow> int" where
  "int_of_long t = (t + 2 ^ 31) mod 2 ^ 32 - 2 ^ 31"

definition GetTimeout :: "libcurl \<Rightarrow> int" where
  "GetTimeout lc =
     (if lc_multi_timeout lc > kMaxTimeoutMs then kMaxTimeoutMs else int_of_long (lc_multi_timeout lc))"

definition curl_Select :: "libcurl \<Rightarrow> int \<times> int \<Rightarrow> int" where
  "curl_Select lc timeout =
     (let maxfd = lc_multi_fdset lc in if maxfd = -1 then -1 else lc_select lc (maxfd + 1) timeout)"

definition EasyInit :: "libcurl \<Rightarrow> nat option" where
  "EasyInit lc = lc_easy_init lc"

text \<open>\<open>EasyGetInfo\<close>: the return code and what was written to the parameter.\<close>

definition EasyGetInfo_ip :: "libcurl \<Rightarrow> nat \<Rightarrow> int \<times> string option" where
  "EasyGetInfo_ip lc h = lc_easy_getinfo_ip lc h"

definition EasyGetInfo_times :: "libcurl \<Rightarrow> nat \<Rightarrow> int \<times> int \<times> int" where
  "EasyGetInfo_times lc h = lc_easy_getinfo_times lc h"

text \<open>\<open>EasySetOpt\<close>, \<open>EasySetOptInt64\<close> and \<open>EasySetWriteCallback\<close> differ in the type of the value only.\<close>

definition EasySetOpt :: "libcurl \<Rightarrow> curl_opt \<Rightarrow> int" where
  "EasySetOpt lc opt = lc_easy_setopt lc opt"

definition ShareInit :: "libcurl \<Rightarrow> nat option" where
  "ShareInit lc = lc_share_init lc"

definition ShareData :: "libcurl \<Rightarrow> curl_lock_data \<Rightarrow> int" where
  "ShareData lc what = lc_share_setopt lc what"

text \<open>The list is only replaced when libcurl could append.\<close>

definition AppendSlist :: "libcurl \<Rightarrow> string \<Rightarrow> string list \<Rightarrow> bool \<times> string list" where
  "AppendSlist lc val xs = (case lc_slist_append lc xs (c_str val) of
     Some ys \<Rightarrow> (True, ys) | None \<Rightarrow> (False, xs))"

section \<open>The client over the wrapper\<close>

text \<open>\<open>Initialize\<close> asks for the two handles first and then sets its two options.\<close>

definition init_ok :: "flags \<Rightarrow> libcurl \<Rightarrow> bool" where
  "init_ok F lc \<longleftrightarrow> MultiInit lc \<noteq> None \<and> ShareInit lc \<noteq> None \<and>
     ShareData lc CURL_LOCK_DATA_COOKIE = CURLSHE_OK \<and>
     MultiSetOpt lc (CURLMOPT_MAXCONNECTS (IntObject (fl_connection_limit F))) = CURLM_OK"

definition client_Initialize :: "flags \<Rightarrow> libcurl \<Rightarrow> http_client \<Rightarrow> bool \<times> http_client" where
  "client_Initialize F lc c = Initialize (init_ok F lc) c"

text \<open>Appending header lines one by one, up to the first that libcurl does not take.\<close>

fun append_lines :: "libcurl \<Rightarrow> string list \<Rightarrow> string list \<Rightarrow> bool \<times> string list" where
  "append_lines lc [] xs = (True, xs)"
| "append_lines lc (l # ls) xs =
     (case AppendSlist lc l xs of (False, ys) \<Rightarrow> (False, ys) | (True, ys) \<Rightarrow> append_lines lc ls ys)"

definition kDefaultSelectTimeoutMs :: int where "kDefaultSelectTimeoutMs = 100000"

text \<open>The time \<open>Poll\<close> lets \<open>select\<close> wait, in seconds and microseconds.\<close>

definition poll_timeout :: "libcurl \<Rightarrow> int \<times> int" where
  "poll_timeout lc =
     (let curl_timeout = GetTimeout lc in
      if curl_timeout > 0 then (curl_timeout div 1000, (curl_timeout mod 1000) * 1000)
      else (0, kDefaultSelectTimeoutMs))"

definition start_env_of :: "int \<Rightarrow> libcurl \<Rightarrow> start_env" where
  "start_env_of now lc =
     \<lparr>se_time = now, se_EasyInit = EasyInit lc,
      se_EasySetOpt = (\<lambda>opt. EasySetOpt lc opt = CURLE_OK),
      se_AppendSlist = (\<lambda>line. fst (AppendSlist lc line [])),
      se_MultiAddHandle = (MultiAddHandle lc = CURLM_OK),
      se_MultiPerform = (case MultiPerform lc of
        (code, running, ds) \<Rightarrow> (code = CURLM_OK, running, ds))\<rparr>"

text \<open>
  What \<open>Poll\<close> and \<open>SetRequestTimestamps\<close> read for a finished transfer: the address, unless the call
  fails or leaves a null pointer, and the times, unless a call fails.
\<close>

definition message_info :: "libcurl \<Rightarrow> curl_msg \<Rightarrow> poll_message" where
  "message_info lc m =
     \<lparr>pm_done = cm_done m, pm_easy_handle = cm_easy_handle m,
      pm_primary_ip = (case EasyGetInfo_ip lc (cm_easy_handle m) of
        (code, ip) \<Rightarrow> if code = CURLE_OK then ip else None),
      pm_times = (case EasyGetInfo_times lc (cm_easy_handle m) of
        (code, application_usec, total_usec) \<Rightarrow>
          if code = CURLE_OK then Some (application_usec, total_usec) else None),
      pm_now = cm_now m\<rparr>"

text \<open>The loop over the messages reads until there is none.\<close>

function read_messages :: "libcurl \<Rightarrow> poll_message list" where
  "read_messages lc = (case MultiInfoRead lc of
     (None, lc') \<Rightarrow> [] | (Some m, lc') \<Rightarrow> message_info lc' m # read_messages lc')"
  by pat_completeness auto
termination
  by (relation "measure (\<lambda>lc. length (lc_multi_info_read lc))")
    (auto simp: MultiInfoRead_def split: list.splits)

declare read_messages.simps [simp del]

definition poll_env_of :: "libcurl \<Rightarrow> poll_env" where
  "poll_env_of lc =
     \<lparr>pe_Select = curl_Select lc (poll_timeout lc),
      pe_MultiPerform = (case MultiPerform lc of (code, running, ds) \<Rightarrow> (running, ds)),
      pe_messages = read_messages lc\<rparr>"

section \<open>Lemmas\<close>

text \<open>
  What libcurl documents of \<open>curl_slist_append\<close>: it adds a copy of the string to the end of the
  list, or returns null; whether it can does not depend on the list.
\<close>

definition slist_law :: "libcurl \<Rightarrow> bool" where
  "slist_law lc \<longleftrightarrow> (\<exists>takes. \<forall>xs v. lc_slist_append lc xs v = (if takes v then Some (xs @ [v]) else None))"

lemma AppendSlist_law:
  assumes "slist_law lc"
  shows "AppendSlist lc v xs =
     (if se_AppendSlist (start_env_of now lc) v then (True, xs @ [c_str v]) else (False, xs))"
proof -
  obtain takes where "\<And>ys u. lc_slist_append lc ys u = (if takes u then Some (ys @ [u]) else None)"
    using assms by (auto simp: slist_law_def)
  then show ?thesis by (simp add: AppendSlist_def start_env_of_def)
qed

lemma append_lines_law:
  "slist_law lc \<Longrightarrow> if list_all (se_AppendSlist (start_env_of now lc)) ls
     then append_lines lc ls xs = (True, xs @ map c_str ls) else fst (append_lines lc ls xs) = False"
proof (induction ls arbitrary: xs)
  case (Cons l ls)
  then show ?case
    using AppendSlist_law [OF Cons.prems, of l xs now] by (cases "se_AppendSlist (start_env_of now lc) l") auto
qed simp

lemma message_info_rest [simp]: "message_info (lc\<lparr>lc_multi_info_read := ms\<rparr>) m = message_info lc m"
  by (simp add: message_info_def EasyGetInfo_ip_def EasyGetInfo_times_def)

lemma message_info_perform [simp]: "message_info (lc\<lparr>lc_multi_perform := p\<rparr>) = message_info lc"
  by (rule ext) (simp add: message_info_def EasyGetInfo_ip_def EasyGetInfo_times_def)

lemma read_messages_all [simp]: "read_messages lc = map (message_info lc) (lc_multi_info_read lc)"
proof (induction lc rule: read_messages.induct)
  case (1 lc)
  show ?case
  proof (cases "lc_multi_info_read lc")
    case (Cons m ms)
    then have next_message: "MultiInfoRead lc = (Some m, lc\<lparr>lc_multi_info_read := ms\<rparr>)" by (simp add: MultiInfoRead_def)
    have "map (message_info (lc\<lparr>lc_multi_info_read := ms\<rparr>)) ms = map (message_info lc) ms" by simp
    with 1 [OF next_message [symmetric]] show ?thesis using Cons
      by (simp add: read_messages.simps [of lc] next_message)
  qed (simp add: read_messages.simps [of lc] MultiInfoRead_def)
qed

section \<open>Properties\<close>

text \<open>
  Polling waits, but not for long. libcurl gives -1 where it has no timeout of its own, and
  milliseconds otherwise; the time \<open>Poll\<close> lets \<open>select\<close> wait is a valid \<open>timeval\<close>, positive and at
  most three seconds.
\<close>

theorem poll_timeout_bounds:
  assumes "-1 \<le> lc_multi_timeout lc" "poll_timeout lc = (sec, usec)"
  shows "0 \<le> sec \<and> 0 \<le> usec \<and> usec < 1000000 \<and> 0 < sec * 1000000 + usec \<and> sec * 1000000 + usec \<le> 3000000"
proof -
  let ?t = "GetTimeout lc"
  have "int_of_long (lc_multi_timeout lc) = lc_multi_timeout lc" if "lc_multi_timeout lc \<le> 3000"
    using assms(1) that by (simp add: int_of_long_def)
  then have t: "-1 \<le> ?t" "?t \<le> 3000" using assms(1) by (auto simp: GetTimeout_def kMaxTimeoutMs_def)
  show ?thesis
  proof (cases "?t > 0")
    case True
    then have "sec = ?t div 1000" "usec = (?t mod 1000) * 1000" using assms(2) by (auto simp: poll_timeout_def Let_def)
    moreover from this have "sec * 1000000 + usec = 1000 * ?t" using div_mult_mod_eq [of ?t 1000] by linarith
    ultimately show ?thesis using True t(2) by (auto simp: pos_imp_zdiv_nonneg_iff)
  next
    case False
    then show ?thesis using assms(2) by (auto simp: poll_timeout_def kDefaultSelectTimeoutMs_def Let_def)
  qed
qed

text \<open>A libcurl on which everything works and nothing is monitored.\<close>

definition idle_libcurl :: libcurl where
  "idle_libcurl = \<lparr>lc_easy_init = Some 1, lc_easy_setopt = (\<lambda>opt. 0), lc_slist_append = (\<lambda>xs v. Some (xs @ [v])),
     lc_multi_init = Some 1, lc_multi_setopt = (\<lambda>opt. 0), lc_multi_add_handle = 0, lc_multi_perform = (0, 1, []),
     lc_multi_timeout = 1500, lc_multi_fdset = -1, lc_multi_info_read = [],
     lc_easy_getinfo_ip = (\<lambda>h. (0, None)), lc_easy_getinfo_times = (\<lambda>h. (0, 0, 0)), lc_select = (\<lambda>n tv. 0),
     lc_share_init = Some 1, lc_share_setopt = (\<lambda>what. 0)\<rparr>"

theorem poll_timeout_bounds_witness:
  "poll_timeout idle_libcurl = (1, 500000) \<and> (0::int) < 1 * 1000000 + 500000 \<and> 1 * 1000000 + 500000 \<le> (3000000::int)"
proof -
  have t: "poll_timeout idle_libcurl = (1, 500000)" by code_simp
  have "-1 \<le> lc_multi_timeout idle_libcurl" by (simp add: idle_libcurl_def)
  from poll_timeout_bounds [OF this t] t show ?thesis by simp
qed

text \<open>
  C28: without a descriptor to wait for, transfers stand still. When libcurl monitors no socket
  (\<open>maxfd\<close> is -1, while a name is resolved for instance) it asks to be called again after a short
  wait. \<open>Poll\<close> takes this for a failed \<open>select\<close> and does not call \<open>curl_multi_perform\<close>: what that
  call would do makes no difference, and without messages \<open>Poll\<close> changes nothing at all.
\<close>

theorem Poll_needs_descriptor:
  assumes "lc_multi_fdset lc = -1" "hc_running_handles (pf_http_client w) \<noteq> []"
  shows "Poll L F (poll_env_of (lc\<lparr>lc_multi_perform := p\<rparr>)) w = Poll L F (poll_env_of lc) w \<and>
     (lc_multi_info_read lc = [] \<longrightarrow>
        Poll L F (poll_env_of lc) w = Inr (hc_curl_handle_cnt (pf_http_client w), w))"
  using assms by (simp add: Poll_def poll_env_of_def curl_Select_def)

theorem Poll_needs_descriptor_witness:
  "Poll simple_lib default_flags (poll_env_of (idle_libcurl\<lparr>lc_multi_perform := (0, 0, [])\<rparr>))
     (sample_scan\<lparr>pf_http_client := (CurlHttpClient 1)\<lparr>hc_curl_handle_cnt := 1, hc_running_handles :=
        [\<lparr>ch_easy_handle = 1, ch_header_list = [], ch_request = StoredRequest 1, ch_options = []\<rparr>]\<rparr>\<rparr>) =
   Inr (1, sample_scan\<lparr>pf_http_client := (CurlHttpClient 1)\<lparr>hc_curl_handle_cnt := 1, hc_running_handles :=
        [\<lparr>ch_easy_handle = 1, ch_header_list = [], ch_request = StoredRequest 1, ch_options = []\<rparr>]\<rparr>\<rparr>)"
  using Poll_needs_descriptor [of idle_libcurl "sample_scan\<lparr>pf_http_client := (CurlHttpClient 1)\<lparr>hc_curl_handle_cnt := 1,
      hc_running_handles := [\<lparr>ch_easy_handle = 1, ch_header_list = [], ch_request = StoredRequest 1, ch_options = []\<rparr>]\<rparr>\<rparr>"
      simple_lib default_flags "(0, 0, [])"]
  by (simp add: idle_libcurl_def)

text \<open>
  The header list of a transfer is complete: over a libcurl that appends as documented, the lines
  appended one by one are the lines the client sets on the handle, and one line that cannot be
  appended fails the transfer.
\<close>

lemma c_str_twice [simp]: "c_str (c_str x) = c_str x"
  by (simp add: c_str_def takeWhile_idem)

lemma header_lines_c_str [simp]:
  "map c_str (request_header_lines req) = request_header_lines req"
  "map c_str (default_header_lines req c) = default_header_lines req c"
  by (auto simp: request_header_lines_def default_header_lines_def map_concat intro!: arg_cong [of _ _ concat])

lemma SetRequestHeaders_appends:
  assumes "slist_law lc" "SetRequestHeaders (start_env_of now lc) c req h = Some h'"
  shows "append_lines lc (request_header_lines req @ default_header_lines req c) [] = (True, ch_header_list h')"
  using assms append_lines_law [OF assms(1), of now "request_header_lines req @ default_header_lines req c" "[]"]
  by (auto simp: SetRequestHeaders_def set_options_def Let_def split: if_splits)

end
