(* ===== verification/Routing.thy ===== *)
theory Routing
  imports Scanner "HOL-Library.Multiset"
begin

text \<open>
  Request pointers across the components. The client (\<open>src/curl_http_client.cc\<close>) queues and
  runs raw pointers to requests that the data store, the detector, the finder and the runners
  own, and an answer goes to the handler written in the request. This theory takes the scan as a
  state machine whose steps are the calls of \<open>Plusfish::Run\<close> in any order (\<open>scan_step\<close>, an
  abstraction of the rounds of \<open>loop_round\<close>), and shows that every pointer the client holds and
  that can be followed leads to a request whose handler is its owner, and that the pointers to
  stored requests and to the requests of a runner can always be followed.
\<close>

section \<open>The scan as a state machine\<close>

inductive scan_step :: "externals \<Rightarrow> flags \<Rightarrow> plusfish \<Rightarrow> plusfish \<Rightarrow> bool" for L F where
  target: "AddURL L F url w = Inr (ok, w') \<Longrightarrow> scan_step L F w w'"
| start: "StartNewRequests F (deref w) env (pf_http_client w) = Inr (ok, c', deliveries) \<Longrightarrow>
    scan_step L F w (w\<lparr>pf_http_client := c'\<rparr>)"
| performed: "scan_step L F w (w\<lparr>pf_http_client := (pf_http_client w)\<lparr>hc_curl_handle_cnt := n\<rparr>\<rparr>)"
| delivered: "deliver F d w = Inr w' \<Longrightarrow> scan_step L F w w'"
| message: "process_message L F m w = Inr w' \<Longrightarrow> scan_step L F w w'"
| probe: "probe_next L F random w = Inr w' \<Longrightarrow> scan_step L F w w'"
| crawl: "crawl_next w = Inr w' \<Longrightarrow> scan_step L F w w'"
| hidden: "schedule_hidden L F w = Inr w' \<Longrightarrow> scan_step L F w w'"
| audit: "audit_next L F w = Inr w' \<Longrightarrow> scan_step L F w w'"
| signal: "scan_step L F w (SignalHandler F now sig w)"
| expire: "scan_step L F w (snd (KeepRunningOrShutdown F now w))"

abbreviation scan_steps :: "externals \<Rightarrow> flags \<Rightarrow> plusfish \<Rightarrow> plusfish \<Rightarrow> bool" where
  "scan_steps L F \<equiv> (scan_step L F)\<^sup>*\<^sup>*"

interpretation as_steps: body_steps L F "scan_steps L F"
  by unfold_locales (auto intro: scan_step.intros r_into_rtranclp rtranclp_trans)

lemma signals_steps: "scan_steps L F w (fold (SignalHandler F now) sigs w)"
proof (induction sigs arbitrary: w)
  case (Cons sig sigs)
  have "scan_step L F w (SignalHandler F now sig w)" by (rule scan_step.signal)
  then show ?case using Cons.IH by (auto intro: converse_rtranclp_into_rtranclp)
qed simp

lemma loop_round_steps:
  assumes "loop_round L F e w = Inr (b, w')"
  shows "scan_steps L F w w'"
proof -
  obtain w1 where w1: "loop_body L F e w = Inr w1"
    "w' = snd (KeepRunningOrShutdown F (le_time e) (fold (SignalHandler F (le_time e)) (le_signals e) w1))"
    using assms by (auto simp: loop_round_def Let_def split_beta and_then_eq_Inr)
  have "scan_steps L F w w1" using as_steps.loop_body_R [OF w1(1)] .
  also have "scan_steps L F w1 (fold (SignalHandler F (le_time e)) (le_signals e) w1)" by (rule signals_steps)
  also have "scan_steps L F \<dots> w'" unfolding w1(2) by (rule r_into_rtranclp) (rule scan_step.expire)
  finally show ?thesis .
qed

section \<open>Owners\<close>

fun owner :: "req_ref \<Rightarrow> handler" where
  "owner (StoredRequest i) = CrawlerHandler"
| "owner (ProbeRequest n) = NotFoundDetectorHandler"
| "owner (HiddenRequest n) = HiddenObjectsFinderHandler"
| "owner (TestRequest name k) = RunnerHandler name"

definition pending :: "http_client \<Rightarrow> req_ref multiset" where
  "pending c = mset (hc_schedule_queue c) + mset (map ch_request (hc_running_handles c))"

fun is_test :: "nat \<Rightarrow> req_ref \<Rightarrow> bool" where
  "is_test name (TestRequest m k) = (m = name)"
| "is_test name _ = False"

definition tests :: "nat \<Rightarrow> req_ref multiset \<Rightarrow> nat" where
  "tests name P = size (filter_mset (is_test name) P)"

definition runners :: "plusfish \<Rightarrow> check_runner list" where
  "runners w = (case pf_selective_auditor w of None \<Rightarrow> [] | Some sa \<Rightarrow> sa_runners sa)"

text \<open>
  A runner, given the pointers \<open>P\<close> the client holds: its answered and its pending requests are
  not more than it has, no pending index is out of range, and all its requests name it.
\<close>

definition runner_ok :: "req_ref multiset \<Rightarrow> check_runner \<Rightarrow> bool" where
  "runner_ok P ru \<longleftrightarrow> \<not> ru_finished ru \<and> 0 \<le> ru_requests_completed ru \<and>
     ru_requests_completed ru + int (tests (ru_name ru) P) \<le> int (length (ru_requests ru)) \<and>
     (\<forall>k. TestRequest (ru_name ru) k \<in># P \<longrightarrow> k < length (ru_requests ru)) \<and>
     (\<forall>r \<in> set (ru_requests ru). rq_handler r = Some (RunnerHandler (ru_name ru)))"

definition auditor_ok :: "req_ref multiset \<Rightarrow> selective_auditor \<Rightarrow> bool" where
  "auditor_ok P sa \<longleftrightarrow> distinct (map ru_name (sa_runners sa)) \<and>
     (\<forall>ru \<in> set (sa_runners sa). ru_name ru < sa_next_name sa \<and> runner_ok P ru)"

definition all_handled :: "handler \<Rightarrow> (string \<times> nat \<times> request) list \<Rightarrow> bool" where
  "all_handled h rs \<longleftrightarrow> (\<forall>(u, n, r) \<in> set rs. rq_handler r = Some h)"

definition routed :: "req_ref multiset \<Rightarrow> plusfish \<Rightarrow> bool" where
  "routed P w \<longleftrightarrow>
     (\<forall>i. StoredRequest i \<in># P \<longrightarrow>
        (\<exists>r. GetRequestById i (pf_datastore w) = Some r \<and> rq_handler r = Some CrawlerHandler)) \<and>
     all_handled NotFoundDetectorHandler (nd_requests (pf_not_found_detector w)) \<and>
     all_handled HiddenObjectsFinderHandler (finder_requests w) \<and>
     (\<forall>name k. TestRequest name k \<in># P \<longrightarrow> name \<in> ru_name ` set (runners w)) \<and>
     (\<forall>sa. pf_selective_auditor w = Some sa \<longrightarrow> auditor_ok P sa)"

section \<open>Lemmas: pointers and owners\<close>

lemma tests_simps [simp]:
  "tests name {#} = 0" "tests name (P + Q) = tests name P + tests name Q"
  "tests name (add_mset ref P) = (if is_test name ref then Suc (tests name P) else tests name P)"
  by (simp_all add: tests_def)

lemma tests_mono: "P \<subseteq># Q \<Longrightarrow> tests name P \<le> tests name Q"
  by (simp add: tests_def size_mset_mono multiset_filter_mono)

lemma tests_new [simp]: "tests name (image_mset (TestRequest m) (mset ks)) = (if m = name then length ks else 0)"
  by (induction ks) auto

lemma tests_zero: "tests name P = 0 \<longleftrightarrow> (\<forall>k. TestRequest name k \<notin># P)"
proof -
  have "is_test name ref \<longleftrightarrow> (\<exists>k. ref = TestRequest name k)" for ref by (cases ref) auto
  then show ?thesis by (auto simp: tests_def)
qed

lemma runner_ok_mono: "runner_ok Q ru \<Longrightarrow> P \<subseteq># Q \<Longrightarrow> runner_ok P ru"
  using tests_mono [of P Q "ru_name ru"] by (fastforce simp: runner_ok_def dest: mset_subset_eqD)

lemma routed_mono:
  assumes "routed Q w" "P \<subseteq># Q"
  shows "routed P w"
  using assms runner_ok_mono [OF _ assms(2)] mset_subset_eqD [OF assms(2)]
  unfolding routed_def auditor_ok_def by blast

lemma all_handled_find: "all_handled h rs \<Longrightarrow> find_request n rs = Some r \<Longrightarrow> rq_handler r = Some h"
  using find_request_mem [of n rs r] by (fastforce simp: all_handled_def)

lemma all_handled_put: "all_handled h rs \<Longrightarrow> rq_handler r = Some h \<Longrightarrow> all_handled h (put_request_no n r rs)"
  by (fastforce simp: all_handled_def put_request_no_def split: if_splits)

lemma all_handled_hmap: 
  "all_handled h rs \<Longrightarrow> rq_handler r = Some h \<Longrightarrow> all_handled h (hmap_put u (n, r) rs)"
  "all_handled h rs \<Longrightarrow> all_handled h (hmap_erase u rs)"
  using set_hmap_put [of u "(n, r)" rs] by (fastforce simp: all_handled_def hmap_erase_def)+

lemma all_handled_Nil [simp]: "all_handled h []"
  by (simp add: all_handled_def)

text \<open>A named runner is found, as names are distinct.\<close>

lemma in_runners: "ru \<in> set (runners w) \<longleftrightarrow> (\<exists>sa. pf_selective_auditor w = Some sa \<and> ru \<in> set (sa_runners sa))"
  by (cases "pf_selective_auditor w") (auto simp: runners_def)

lemma find_runner_mem:
  "find_runner name w = Some ru \<Longrightarrow> ru \<in> set (runners w) \<and> ru_name ru = name"
  by (auto simp: find_runner_def in_runners find_Some_iff split: option.splits)

lemma find_runner_name: "name \<in> ru_name ` set (runners w) \<Longrightarrow> \<exists>ru. find_runner name w = Some ru"
proof -
  assume "name \<in> ru_name ` set (runners w)"
  then obtain sa ru where "pf_selective_auditor w = Some sa" "ru \<in> set (sa_runners sa)" "ru_name ru = name"
    by (auto simp: in_runners)
  then show ?thesis by (cases "find (\<lambda>ru. ru_name ru = name) (sa_runners sa)")
      (auto simp: find_runner_def find_None_iff)
qed

lemma routed_runner:
  assumes "routed P w" "ru \<in> set (runners w)"
  shows "runner_ok P ru"
  using assms by (auto simp: routed_def auditor_ok_def in_runners)

text \<open>Routing is what the type says: where a held pointer leads.\<close>

lemma routed_deref:
  assumes "routed P w" "ref \<in># P"
  shows "case deref w ref of
     Some r \<Rightarrow> rq_handler r = Some (owner ref)
   | None \<Rightarrow> owner ref = NotFoundDetectorHandler \<or> owner ref = HiddenObjectsFinderHandler"
proof (cases ref)
  case (TestRequest name k)
  then obtain ru where ru: "find_runner name w = Some ru"
    using assms find_runner_name unfolding routed_def by blast
  then have mem: "ru \<in> set (runners w)" "ru_name ru = name" using find_runner_mem by blast+
  from routed_runner [OF assms(1) mem(1)] have "k < length (ru_requests ru)"
    "\<forall>r \<in> set (ru_requests ru). rq_handler r = Some (RunnerHandler name)"
    using assms(2) TestRequest mem(2) by (auto simp: runner_ok_def)
  then show ?thesis using TestRequest ru by simp
qed (use assms all_handled_find in \<open>auto simp: routed_def split: option.split\<close>)

text \<open>A change of the components that keeps stored requests and the auditor keeps the routing.\<close>

lemma routed_frame:
  assumes "routed P w" "store_extends (pf_datastore w) (pf_datastore w')"
    "all_handled NotFoundDetectorHandler (nd_requests (pf_not_found_detector w'))"
    "all_handled HiddenObjectsFinderHandler (finder_requests w')"
    "pf_selective_auditor w' = pf_selective_auditor w"
  shows "routed P w'"
proof -
  have "\<exists>r. GetRequestById i (pf_datastore w') = Some r \<and> rq_handler r = Some CrawlerHandler"
    if "StoredRequest i \<in># P" for i
    using assms(1,2) that unfolding routed_def store_extends_def handler_kept_def by metis
  moreover have "runners w' = runners w" using assms(5) by (simp add: runners_def)
  ultimately show ?thesis using assms(1,3-5) by (simp add: routed_def)
qed

lemma routed_handled:
  assumes "routed P w"
  shows "all_handled NotFoundDetectorHandler (nd_requests (pf_not_found_detector w))"
    "all_handled HiddenObjectsFinderHandler (finder_requests w)"
  using assms by (simp_all add: routed_def)

lemma routed_client [simp]: "routed P (w\<lparr>pf_http_client := c\<rparr>) = routed P w"
  by (simp add: routed_def runners_def finder_requests_def)

text \<open>New pointers: to a stored request of the crawler, a probe or a test URL.\<close>

fun may_hold :: "plusfish \<Rightarrow> req_ref \<Rightarrow> bool" where
  "may_hold w (StoredRequest i) =
     (\<exists>r. GetRequestById i (pf_datastore w) = Some r \<and> rq_handler r = Some CrawlerHandler)"
| "may_hold w (TestRequest name k) = False"
| "may_hold w ref = True"

lemma routed_add: "routed P w \<Longrightarrow> may_hold w ref \<Longrightarrow> routed (add_mset ref P) w"
  by (cases ref) (auto simp: routed_def auditor_ok_def runner_ok_def)

lemma routed_adds: "routed P w \<Longrightarrow> \<forall>ref \<in> set q. may_hold w ref \<Longrightarrow> routed (P + mset q) w"
  by (induction q) (auto intro: routed_add)

text \<open>Replacing a runner by one of the same name, and removing one.\<close>

lemma put_runner_names [simp]: "map ru_name (sa_runners (put_runner ru sa)) = map ru_name (sa_runners sa)"
  by (auto simp: put_runner_def)

lemma auditor_ok_put:
  assumes "auditor_ok P sa" "runner_ok P' ru"
    "\<And>ru'. ru' \<in> set (sa_runners sa) \<Longrightarrow> ru_name ru' \<noteq> ru_name ru \<Longrightarrow> runner_ok P ru' \<Longrightarrow> runner_ok P' ru'"
  shows "auditor_ok P' (put_runner ru sa)"
proof -
  have "distinct (map ru_name (sa_runners (put_runner ru sa)))" using assms(1) by (simp add: auditor_ok_def)
  moreover have "sa_next_name (put_runner ru sa) = sa_next_name sa" by (simp add: put_runner_def)
  moreover have "ru_name r < sa_next_name sa \<and> runner_ok P' r" if "r \<in> set (sa_runners (put_runner ru sa))" for r
    using that assms by (auto simp: put_runner_def auditor_ok_def split: if_splits)
  ultimately show ?thesis by (simp add: auditor_ok_def)
qed

lemma routed_auditor:
  assumes "routed P w" "pf_selective_auditor w = Some sa" "auditor_ok P' sa'"
    "\<And>name k. TestRequest name k \<in># P' \<Longrightarrow> TestRequest name k \<notin># P \<Longrightarrow> name \<in> ru_name ` set (sa_runners sa')"
    "\<And>name k. TestRequest name k \<in># P' \<Longrightarrow> name \<in> ru_name ` set (sa_runners sa) \<Longrightarrow> name \<in> ru_name ` set (sa_runners sa')"
    "\<And>i. StoredRequest i \<in># P' \<Longrightarrow> StoredRequest i \<in># P"
  shows "routed P' (w\<lparr>pf_selective_auditor := Some sa'\<rparr>)"
  using assms unfolding routed_def by (fastforce simp: runners_def finder_requests_def)

lemma put_runner_ids: "ru_name ` set (sa_runners (put_runner ru sa)) = ru_name ` set (sa_runners sa)"
  using arg_cong [OF put_runner_names [of ru sa], of set] by (simp only: set_map)

lemma routed_put_ref:
  assumes "routed P w" "deref w ref = Some r" "rq_handler r' = rq_handler r"
  shows "routed P (put_ref ref r' w)"
proof (cases ref)
  case (StoredRequest i)
  then have "store_extends (pf_datastore w) (put_request i r' (pf_datastore w))"
    using assms(2,3) by (auto simp: store_extends_def GetRequestById_def put_request_def)
  then show ?thesis using StoredRequest routed_handled [OF assms(1)]
    by (intro routed_frame [OF assms(1)]) (simp_all add: finder_requests_def)
next
  case (ProbeRequest n)
  then have "rq_handler r' = Some NotFoundDetectorHandler"
    using assms all_handled_find routed_handled(1) [OF assms(1)] by auto
  then show ?thesis using ProbeRequest routed_handled [OF assms(1)]
    by (intro routed_frame [OF assms(1)]) (simp_all add: finder_requests_def all_handled_put)
next
  case (HiddenRequest n)
  then have "rq_handler r' = Some HiddenObjectsFinderHandler"
    using assms all_handled_find routed_handled(2) [OF assms(1)] by auto
  then show ?thesis using HiddenRequest routed_handled [OF assms(1)]
    by (intro routed_frame [OF assms(1)])
      (auto simp: finder_requests_def all_handled_put split: option.splits)
next
  case (TestRequest name k)
  then obtain ru where ru: "find_runner name w = Some ru" "k < length (ru_requests ru)" "r = ru_requests ru ! k"
    using assms(2) by (auto split: option.splits if_splits)
  then have mem: "ru \<in> set (runners w)" using find_runner_mem by blast
  then obtain sa where sa: "pf_selective_auditor w = Some sa" by (auto simp: in_runners)
  let ?ru = "ru\<lparr>ru_requests := (ru_requests ru)[k := r']\<rparr>"
  have "rq_handler r' = Some (RunnerHandler (ru_name ru))"
    using routed_runner [OF assms(1) mem] ru(2,3) assms(3) by (simp add: runner_ok_def)
  then have "runner_ok P ?ru"
    using routed_runner [OF assms(1) mem] by (auto simp: runner_ok_def dest!: set_update_subset_insert [THEN subsetD])
  then have "auditor_ok P (put_runner ?ru sa)"
    using assms(1) sa by (intro auditor_ok_put [of P sa]) (simp_all add: routed_def)
  then have "routed P (w\<lparr>pf_selective_auditor := Some (put_runner ?ru sa)\<rparr>)"
    by (intro routed_auditor [OF assms(1) sa]) (simp_all add: put_runner_ids)
  then show ?thesis using TestRequest ru(1) sa by simp
qed

section \<open>Lemmas: the client\<close>

text \<open>What the components do to the client while they handle an answer: they queue requests.\<close>

definition queues :: "http_client \<Rightarrow> req_ref list \<Rightarrow> http_client \<Rightarrow> bool" where
  "queues c q c' \<longleftrightarrow> hc_schedule_queue c' = hc_schedule_queue c @ q \<and> hc_running_handles c' = hc_running_handles c"

lemma queues_Nil [simp]: "queues c [] c"
  by (simp add: queues_def)

lemma queues_trans: "queues c1 q c2 \<Longrightarrow> queues c2 q' c3 \<Longrightarrow> queues c1 (q @ q') c3"
  by (simp add: queues_def)

lemma queues_pending: "queues c q c' \<Longrightarrow> pending c' = pending c + mset q"
  by (simp add: queues_def pending_def)

lemma Schedule_queues: "Schedule ref c = (ok, c') \<Longrightarrow> queues c (if ok then [ref] else []) c'"
  by (auto simp: Schedule_def queues_def split: if_splits)

lemma schedule_requests_queues:
  assumes "schedule_requests serial name k reqs c = (ok, reqs', c')"
  shows "if ok then reqs' = handled_by name reqs \<and>
       (c' = c \<or> queues c (map (TestRequest name) [k..<k + length reqs]) c')
     else c' = c"
proof (cases "hc_enabled c")
  case True
  then show ?thesis using assms schedule_requests_enabled [OF True, of serial name k reqs] by (auto simp: queues_def)
next
  case False
  then show ?thesis
    using assms schedule_requests_disabled(1) [OF False, of name k reqs]
    by (cases serial; cases reqs) (auto simp: Schedule_handler_simps)
qed

lemma Run_queues:
  assumes "Run L F ds check tested ru c = (ok, ru', c')"
  shows "if ok then (\<forall>r \<in> set (ru_requests ru'). rq_handler r = Some (RunnerHandler (ru_name ru))) \<and>
       (\<exists>n \<le> length (ru_requests ru'). queues c (map (TestRequest (ru_name ru)) [0..<n]) c')
     else c' = c"
proof -
  have "(\<exists>reqs. schedule_requests (CanEvaluateInSerial check) (ru_name ru) 0 reqs c = (ok, ru_requests ru', c')) \<or>
      \<not> ok \<and> c' = c"
    using assms by (auto simp: Run_def Let_def split: prod.splits if_splits)
  then show ?thesis
  proof
    assume "\<exists>reqs. schedule_requests (CanEvaluateInSerial check) (ru_name ru) 0 reqs c = (ok, ru_requests ru', c')"
    then obtain reqs where reqs: "schedule_requests (CanEvaluateInSerial check) (ru_name ru) 0 reqs c = (ok, ru_requests ru', c')"
      by blast
    have "\<exists>n \<le> length (handled_by m reqs). queues c (map (TestRequest m) [0..<n]) c" for m
      by (intro exI [of _ 0]) simp
    then show ?thesis using schedule_requests_queues [OF reqs] by auto
  qed simp
qed

lemma ScheduleNextCheck_queues:
  "ScheduleNextCheck L F ds checks tested ru c = (ok, ru', c') \<Longrightarrow> ru_requests_completed ru = 0 \<Longrightarrow> \<not> ru_finished ru \<Longrightarrow>
     if ok then ru_name ru' = ru_name ru \<and> ru_requests_completed ru' = 0 \<and> \<not> ru_finished ru' \<and>
       (\<forall>r \<in> set (ru_requests ru'). rq_handler r = Some (RunnerHandler (ru_name ru))) \<and>
       (\<exists>n \<le> length (ru_requests ru'). queues c (map (TestRequest (ru_name ru)) [0..<n]) c')
     else c' = c"
proof (induction L F ds checks tested ru c arbitrary: ok ru' c' rule: ScheduleNextCheck.induct)
  case (1 L F ds checks tested ru c)
  obtain b ru1 c1 where run: "Run L F ds (checks ! ru_security_check ru) tested ru c = (b, ru1, c1)"
    by (metis prod_cases3)
  note fr = Run_frame [OF run] and q = Run_queues [OF run]
  show ?case
  proof (cases b)
    case True
    then have "ok" "ru' = ru1" "c' = c1" using "1.prems"(1) run by (auto simp: ScheduleNextCheck.simps [of L F ds checks])
    then show ?thesis using True fr q "1.prems"(2,3) by simp
  next
    case False
    then have c1: "c1 = c" using q by simp
    have next_ok: "ru_requests_completed (snd (SetNextCheck checks ru1)) = 0" "\<not> ru_finished (snd (SetNextCheck checks ru1))"
      "ru_name (snd (SetNextCheck checks ru1)) = ru_name ru"
      using fr "1.prems"(2,3) by (simp_all add: SetNextCheck_def split: option.split)
    have cut: "\<not> ok \<and> c' = c \<or> (\<exists>n. check_next checks (ru_security_check ru1) = Some n \<and> \<not> n \<le> ru_security_check ru \<and>
        ScheduleNextCheck L F ds checks tested (snd (SetNextCheck checks ru1)) c1 = (ok, ru', c'))"
      using "1.prems"(1) run False c1
      by (simp add: ScheduleNextCheck.simps [of L F ds checks tested ru] split: option.splits if_splits)
    then show ?thesis
    proof
      assume "\<exists>n. check_next checks (ru_security_check ru1) = Some n \<and> \<not> n \<le> ru_security_check ru \<and>
        ScheduleNextCheck L F ds checks tested (snd (SetNextCheck checks ru1)) c1 = (ok, ru', c')"
      then obtain n where n: "check_next checks (ru_security_check ru1) = Some n" "\<not> n \<le> ru_security_check ru"
        and rest: "ScheduleNextCheck L F ds checks tested (snd (SetNextCheck checks ru1)) c1 = (ok, ru', c')" by blast
      show ?thesis
        using "1.IH" [OF run [symmetric] _ refl n rest next_ok(1,2), unfolded next_ok(3) c1] False by auto
    qed simp
  qed
qed

text \<open>The detector and the finder queue their own requests, and write their handler into them.\<close>

definition posts :: "handler \<Rightarrow> (string \<times> nat \<times> request) list \<Rightarrow> http_client \<Rightarrow>
    (string \<times> nat \<times> request) list \<Rightarrow> http_client \<Rightarrow> bool" where
  "posts h rs c rs' c' \<longleftrightarrow> (\<exists>q. queues c q c' \<and> (\<forall>ref \<in> set q. owner ref = h)) \<and>
     (all_handled h rs \<longrightarrow> all_handled h rs')"

lemma posts_refl [simp, intro]: "posts h rs c rs c"
  by (auto simp: posts_def intro: exI [of _ "[]"])

lemma posts_trans:
  assumes "posts h rs1 c1 rs2 c2" "posts h rs2 c2 rs3 c3"
  shows "posts h rs1 c1 rs3 c3"
proof -
  obtain q1 q2 where "queues c1 q1 c2" "\<forall>ref \<in> set q1. owner ref = h" "queues c2 q2 c3" "\<forall>ref \<in> set q2. owner ref = h"
    using assms by (auto simp: posts_def)
  then have "queues c1 (q1 @ q2) c3" "\<forall>ref \<in> set (q1 @ q2). owner ref = h" using queues_trans by auto
  then show ?thesis using assms by (auto simp: posts_def)
qed

lemma posts_one:
  assumes "Schedule ref c = (ok, c')" "owner ref = h" "rq_handler r = Some h"
  shows "posts h rs c (if ok then hmap_put u (n, r) rs else rs) c'"
proof -
  have "queues c (if ok then [ref] else []) c'" "\<forall>x \<in> set (if ok then [ref] else []). owner x = h"
    using Schedule_queues [OF assms(1)] assms(2) by auto
  then show ?thesis unfolding posts_def using all_handled_hmap(1) [OF _ assms(3)] by auto
qed

lemma probe_extension_posts:
  assumes "probe_extension L F base random ext (nd, c) = Inr (nd', c')"
  shows "posts NotFoundDetectorHandler (nd_requests nd) c (nd_requests nd') c'"
proof -
  obtain ok c1 where sch: "Schedule (ProbeRequest (nd_next nd)) c = (ok, c1)" by force
  obtain u r where "nd_requests nd' = (if ok
      then hmap_put u (nd_next nd, r\<lparr>rq_handler := Some NotFoundDetectorHandler\<rparr>) (nd_requests nd)
      else nd_requests nd)" "c' = c1"
    using assms sch by (cases ok) (auto simp: probe_extension_def and_then_eq_Inr Let_def)
  then show ?thesis using posts_one [OF sch] by simp
qed

lemma nfd_AddUrl_posts:
  assumes "nfd_AddUrl L F random url nd c = Inr (added, nd', c')"
  shows "posts NotFoundDetectorHandler (nd_requests nd) c (nd_requests nd') c'"
proof -
  let ?P = "\<lambda>s. posts NotFoundDetectorHandler (nd_requests nd) c (nd_requests (fst s)) (snd s)"
  have "?P s'" if "for_each (probe_extension L F base random) exts (nd, c) = Inr s'" for base exts s'
    by (rule for_each_inv [where P = ?P, OF _ that]) (auto dest!: probe_extension_posts intro: posts_trans)
  then show ?thesis using assms by (fastforce simp: nfd_AddUrl_def and_then_eq_Inr split: if_splits)
qed

lemma schedule_test_posts:
  assumes "schedule_test L F u hf c = Inr (hf', c')"
  shows "posts HiddenObjectsFinderHandler (hf_requests hf) c (hf_requests hf') c'"
proof -
  obtain ok c1 where sch: "Schedule (HiddenRequest (hf_next hf)) c = (ok, c1)" by force
  obtain r where "hf_requests hf' = (if ok
      then hmap_put u (hf_next hf, r\<lparr>rq_handler := Some HiddenObjectsFinderHandler\<rparr>) (hf_requests hf)
      else hf_requests hf)" "c' = c1"
    using assms sch by (cases ok) (auto simp: schedule_test_def and_then_eq_Inr Let_def)
  then show ?thesis using posts_one [OF sch] by simp
qed

lemma schedule_tests_posts:
  "schedule_tests L F k hf c = Inr (hf', c') \<Longrightarrow>
     posts HiddenObjectsFinderHandler (hf_requests hf) c (hf_requests hf') c'"
proof (induction k arbitrary: hf c)
  case (Suc k)
  show ?case
  proof (cases "hf_test_urls_queue hf")
    case (Cons u us)
    then obtain hf1 c1 where "schedule_test L F u (hf\<lparr>hf_test_urls_queue := us\<rparr>) c = Inr (hf1, c1)"
      "schedule_tests L F k hf1 c1 = Inr (hf', c')"
      using Suc.prems by (auto simp: and_then_eq_Inr)
    then show ?thesis using Suc.IH posts_trans [OF schedule_test_posts] by fastforce
  qed (use Suc.prems in auto)
qed auto

lemma GenerateTestUrls_requests: "GenerateTestUrls u hf = Inr (g, hf') \<Longrightarrow> hf_requests hf' = hf_requests hf"
  by (auto simp: GenerateTestUrls_def Let_def and_then_eq_Inr split: if_splits)

lemma ScheduleRequests_posts:
  assumes "ScheduleRequests L F amount hf c = Inr (n, hf', c')"
  shows "posts HiddenObjectsFinderHandler (hf_requests hf) c (hf_requests hf') c'"
proof (cases "hf_test_urls_queue hf = [] \<and> hf_pending_urls hf = []")
  case True
  then show ?thesis using assms by (auto simp: ScheduleRequests_def)
next
  case False
  then obtain hf1 where "hf_requests hf1 = hf_requests hf" "schedule_tests L F (nat amount) hf1 c = Inr (hf', c')"
    using assms by (fastforce simp: ScheduleRequests_def and_then_eq_Inr dest: GenerateTestUrls_requests split: if_splits)
  then show ?thesis using schedule_tests_posts [of L F "nat amount" hf1 c hf' c'] by simp
qed

text \<open>Probes and test URLs may be held in any scan.\<close>

lemma posts_routed:
  assumes "routed P w" "posts h rs c rs' c'" "h = NotFoundDetectorHandler \<or> h = HiddenObjectsFinderHandler"
  shows "\<exists>q. queues c q c' \<and> routed (P + mset q) w"
proof -
  obtain q where q: "queues c q c'" "\<forall>ref \<in> set q. owner ref = h" using assms(2) by (auto simp: posts_def)
  have "may_hold w ref" if "owner ref = h" for ref using that assms(3) by (cases ref) auto
  then show ?thesis using q routed_adds [OF assms(1), of q] by auto
qed

section \<open>Lemmas: an answer to a runner\<close>

lemma finished_complete:
  assumes "0 \<le> n" "n \<le> int len" "size_of_int n = len"
  shows "n = int len"
proof -
  have "int len = n mod 2 ^ 64" using assms(3) by (simp add: size_of_int_def flip: assms(3))
  moreover have "n mod 2 ^ 64 \<le> n" using assms(1) by (simp add: zmod_le_nonneg_dividend)
  ultimately show ?thesis using assms(2) by simp
qed

lemma runner_RequestCallback_frame:
  assumes "runner_RequestCallback L F check k ru ds = Inr (ru', ds')"
  shows "ru_name ru' = ru_name ru" "ru_requests ru' = ru_requests ru"
    "ru_requests_completed ru' = ru_requests_completed ru + 1"
    "ru_finished ru' = (ru_finished ru \<or> size_of_int (ru_requests_completed ru + 1) = length (ru_requests ru))"
  using assms by (auto simp: runner_RequestCallback_def Let_def and_then_eq_Inr split: if_splits)

text \<open>An answer takes the place of a pending request; with the last one no request is pending.\<close>

lemma runner_answer:
  assumes "runner_ok (add_mset (TestRequest (ru_name ru) k) P) ru"
    "runner_RequestCallback L F check k ru ds = Inr (ru', ds')"
  shows "if ru_finished ru' then tests (ru_name ru) P = 0 else runner_ok P ru'"
proof (cases "ru_finished ru'")
  case True
  then have "ru_requests_completed ru + 1 = int (length (ru_requests ru))"
    using assms(1) runner_RequestCallback_frame(4) [OF assms(2)]
    by (intro finished_complete) (auto simp: runner_ok_def)
  then show ?thesis using assms(1) True by (simp add: runner_ok_def)
next
  case False
  then show ?thesis using assms(1) runner_RequestCallback_frame [OF assms(2)] by (auto simp: runner_ok_def)
qed

lemma runner_ok_other:
  "runner_ok (add_mset (TestRequest name k) P) ru \<Longrightarrow> ru_name ru \<noteq> name \<Longrightarrow>
     runner_ok (P + mset (map (TestRequest name) ks)) ru"
  by (auto simp: runner_ok_def)

lemma put_runner_twice [simp]: "ru_name a = ru_name b \<Longrightarrow> put_runner a (put_runner b sa) = put_runner a sa"
  by (simp add: put_runner_def)

lemma erase_put_runner [simp]:
  "ru_name a = name \<Longrightarrow> erase_runner name (put_runner a sa) = erase_runner name sa"
proof -
  have "filter (\<lambda>r. ru_name r \<noteq> ru_name a) (map (\<lambda>r. if ru_name r = ru_name a then a else r) rs) =
      filter (\<lambda>r. ru_name r \<noteq> ru_name a) rs" for rs
    by (induction rs) auto
  moreover assume "ru_name a = name"
  ultimately show ?thesis by (auto simp: put_runner_def erase_runner_def)
qed

lemma FinishedCheckCb_cut:
  assumes "FinishedCheckCb L F scrape ru sa c ds = Inr (sa', c', ds')"
  shows "sa' = erase_runner (ru_name ru) sa \<and> c' = c \<or>
     (\<exists>ru' n. sa' = put_runner ru' sa \<and> ru_name ru' = ru_name ru \<and> ru_requests_completed ru' = 0 \<and> \<not> ru_finished ru' \<and>
        (\<forall>r \<in> set (ru_requests ru'). rq_handler r = Some (RunnerHandler (ru_name ru))) \<and>
        n \<le> length (ru_requests ru') \<and> queues c (map (TestRequest (ru_name ru)) [0..<n]) c')"
proof -
  obtain b ru1 where n: "SetNextCheck (sa_checks sa) ru = (b, ru1)" by force
  obtain ds1 tested where body: "(case SetNextCheck (sa_checks sa) ru of
       (False, ru1) \<Rightarrow> Inr (erase_runner (ru_name ru) sa, c, ds1)
     | (True, ru1) \<Rightarrow> (case ScheduleNextCheck L F ds1 (sa_checks sa) tested ru1 c of
          (True, ru2, c') \<Rightarrow> Inr (put_runner ru2 sa, c', ds1)
        | (False, ru2, c') \<Rightarrow> Inr (erase_runner (ru_name ru) sa, c', ds1))) = (Inr (sa', c', ds') :: _ result)"
    using assms by (auto simp: FinishedCheckCb_def and_then_eq_Inr split: option.splits)
  show ?thesis
  proof (cases b)
    case True
    then have ru1: "ru_requests_completed ru1 = 0" "\<not> ru_finished ru1" "ru_name ru1 = ru_name ru"
      using n by (auto simp: SetNextCheck_def split: option.splits)
    obtain ok ru2 c2 where sch: "ScheduleNextCheck L F ds1 (sa_checks sa) tested ru1 c = (ok, ru2, c2)"
      by (metis prod_cases3)
    show ?thesis using body n True sch ScheduleNextCheck_queues [OF sch ru1(1,2)] ru1(3) by (cases ok) auto
  qed (use body n in simp)
qed

lemma auditor_ok_erase:
  assumes "auditor_ok P sa"
    "\<And>ru'. ru' \<in> set (sa_runners sa) \<Longrightarrow> ru_name ru' \<noteq> name \<Longrightarrow> runner_ok P ru' \<Longrightarrow> runner_ok P' ru'"
  shows "auditor_ok P' (erase_runner name sa)"
  using assms by (auto simp: auditor_ok_def erase_runner_def distinct_map_filter)

lemma routed_runner_callback:
  assumes "routed (add_mset (TestRequest name k) P) w" "runner_callback L F name k w = Inr w'"
    "store_extends (pf_datastore w) (pf_datastore w')"
  shows "\<exists>q. queues (pf_http_client w) q (pf_http_client w') \<and> routed (P + mset q) w'"
proof -
  obtain sa ru where sa: "pf_selective_auditor w = Some sa" and ru: "find_runner name w = Some ru"
    using assms(2) by (auto simp: runner_callback_def split: option.splits)
  have mem: "ru \<in> set (sa_runners sa)" "ru_name ru = name" "runner_ok (add_mset (TestRequest name k) P) ru"
    using find_runner_mem [OF ru] sa routed_runner [OF assms(1)] by (auto simp: in_runners)
  obtain ru1 ds1 where call: "runner_RequestCallback L F (sa_checks sa ! ru_security_check ru) k ru (pf_datastore w) = Inr (ru1, ds1)"
    using assms(2) sa ru by (auto simp: runner_callback_def and_then_eq_Inr)
  note fr = runner_RequestCallback_frame(1) [OF call]
  have ans: "if ru_finished ru1 then tests name P = 0 else runner_ok P ru1"
    using runner_answer [OF _ call, of P] mem(3) unfolding mem(2) by simp
  have sa_ok: "auditor_ok (add_mset (TestRequest name k) P) sa" using assms(1) sa by (simp add: routed_def)
  have finish: "routed P' w'" if "routed P' (w\<lparr>pf_selective_auditor := Some sa'\<rparr>)" "pf_selective_auditor w' = Some sa'" for P' sa'
    using that assms(2,3) sa ru routed_handled [OF that(1)]
    by (intro routed_frame [OF that(1)])
      (auto simp: runner_callback_def and_then_eq_Inr finder_requests_def split: if_splits)
  have known: "name \<in> ru_name ` set (sa_runners sa)" using mem(1,2) by blast
  have put: "routed (P + mset (map (TestRequest name) ks)) (w\<lparr>pf_selective_auditor := Some (put_runner r sa)\<rparr>)"
    if "ru_name r = name" "runner_ok (P + mset (map (TestRequest name) ks)) r" for r ks
    using that known runner_ok_other
    by (intro routed_auditor [OF assms(1) sa] auditor_ok_put [OF sa_ok]) (auto simp: put_runner_ids)
  show ?thesis
  proof (cases "ru_finished ru1")
    case False
    then have w': "w' = w\<lparr>pf_selective_auditor := Some (put_runner ru1 sa), pf_datastore := ds1\<rparr>"
      using assms(2) sa ru call by (simp add: runner_callback_def)
    then show ?thesis using put [of ru1 "[]"] False ans fr mem(2) finish [of P "put_runner ru1 sa"]
      by (intro exI [of _ "[]"]) simp
  next
    case True
    then obtain sa' ds' where cb: "FinishedCheckCb L F (\<lambda>req ds. and_then (Scrape L F req ds) (\<lambda>(ok, ds'). Inr ds'))
          ru1 (put_runner ru1 sa) (pf_http_client w) ds1 = Inr (sa', pf_http_client w', ds')"
      and w': "pf_selective_auditor w' = Some sa'"
      using assms(2) sa ru call by (auto simp: runner_callback_def and_then_eq_Inr)
    have none: "tests name P = 0" using ans True by simp
    from FinishedCheckCb_cut [OF cb] show ?thesis
    proof
      assume e: "sa' = erase_runner (ru_name ru1) (put_runner ru1 sa) \<and> pf_http_client w' = pf_http_client w"
      then have "sa' = erase_runner name sa" using fr mem(2) by simp
      moreover have "routed P (w\<lparr>pf_selective_auditor := Some (erase_runner name sa)\<rparr>)"
        using none runner_ok_other [where ks = "[]"]
        by (intro routed_auditor [OF assms(1) sa] auditor_ok_erase [OF sa_ok])
          (auto simp: tests_zero erase_runner_def)
      ultimately show ?thesis using e finish [of P sa'] w' by (intro exI [of _ "[]"]) simp
    next
      assume "\<exists>ru' n. sa' = put_runner ru' (put_runner ru1 sa) \<and> ru_name ru' = ru_name ru1 \<and> ru_requests_completed ru' = 0 \<and>
        \<not> ru_finished ru' \<and> (\<forall>r \<in> set (ru_requests ru'). rq_handler r = Some (RunnerHandler (ru_name ru1))) \<and>
        n \<le> length (ru_requests ru') \<and>
        queues (pf_http_client w) (map (TestRequest (ru_name ru1)) [0..<n]) (pf_http_client w')"
      then obtain ru' n where ru': "sa' = put_runner ru' sa" "ru_name ru' = name" "ru_requests_completed ru' = 0"
        "\<not> ru_finished ru'" "\<forall>r \<in> set (ru_requests ru'). rq_handler r = Some (RunnerHandler name)"
        "n \<le> length (ru_requests ru')" "queues (pf_http_client w) (map (TestRequest name) [0..<n]) (pf_http_client w')"
        using fr mem(2) by auto
      then have "runner_ok (P + mset (map (TestRequest name) [0..<n])) ru'"
        using none none [unfolded tests_zero] by (auto simp: runner_ok_def simp del: mset_upt)
      then show ?thesis using put [of ru' "[0..<n]"] ru' w' finish [of _ sa'] by blast
    qed
  qed
qed

section \<open>Lemmas: the steps of the scan\<close>

lemma kept_extends:
  "message_law L \<Longrightarrow> scan_ok L F w \<Longrightarrow> scan_kept L F w w' \<Longrightarrow> store_extends (pf_datastore w) (pf_datastore w')"
  using ds_reachable_inv by (auto simp: scan_kept_def scan_ok_def store_kept_def)

lemma put_ref_client [simp]: "pf_http_client (put_ref ref r w) = pf_http_client w"
  by (cases ref) (simp_all split: option.split)

lemma hof_callback_requests:
  "hof_RequestCallback L F n req hf ds = Inr (k, hf', ds') \<Longrightarrow> hf_requests hf' = hmap_erase (rq_url req) (hf_requests hf)"
  by (auto simp: hof_RequestCallback_def report_object_def hof_erase_def Let_def and_then_eq_Inr
      split: option.splits if_splits prod.splits)

lemma routed_RequestCallback:
  assumes "message_law L" "scan_ok L F w" "routed (add_mset ref P) w" "RequestCallback L F (owner ref) ref req w = Inr w'"
  shows "\<exists>q. queues (pf_http_client w) q (pf_http_client w') \<and> routed (P + mset q) w'"
proof -
  have ext: "store_extends (pf_datastore w) (pf_datastore w')"
    using kept_extends [OF assms(1,2) scan_ok_RequestCallback [OF assms(2,4)]] .
  have P: "routed P w" using routed_mono [OF assms(3)] by simp
  note handled = routed_handled [OF P]
  have same: ?thesis if "pf_http_client w' = pf_http_client w" "routed P w'"
    using that by (intro exI [of _ "[]"]) simp
  show ?thesis
  proof (cases ref)
    case (StoredRequest i)
    then obtain ds' where "w' = w\<lparr>pf_datastore := ds'\<rparr>"
      using assms(4) by (auto simp: RequestCallback_def and_then_eq_Inr)
    then show ?thesis using ext handled
      by (intro same routed_frame [OF P]) (simp_all add: finder_requests_def)
  next
    case (ProbeRequest n)
    then obtain m nd' ds' where "nfd_RequestCallback L req (pf_not_found_detector w) (pf_datastore w) = Inr (m, nd', ds')"
      and w': "w' = w\<lparr>pf_not_found_detector := nd', pf_datastore := ds'\<rparr>"
      using assms(4) by (auto simp: RequestCallback_def and_then_eq_Inr)
    then have "nd_requests nd' = hmap_erase (rq_url req) (nd_requests (pf_not_found_detector w))"
      by (auto simp: nfd_RequestCallback_def nfd_erase_def Let_def and_then_eq_Inr split: option.splits)
    then show ?thesis using w' ext handled
      by (intro same routed_frame [OF P]) (simp_all add: all_handled_hmap(2) finder_requests_def)
  next
    case (HiddenRequest n)
    then obtain hf m k hf' ds' where hf: "pf_objects_finder w = Some hf" "w' = w\<lparr>pf_objects_finder := Some hf', pf_datastore := ds'\<rparr>"
      and "hof_RequestCallback L F m req hf (pf_datastore w) = Inr (k, hf', ds')"
      using assms(4) by (auto simp: RequestCallback_def finder_callback_def and_then_eq_Inr split: option.splits)
    then have "hf_requests hf' = hmap_erase (rq_url req) (hf_requests hf)" using hof_callback_requests by blast
    then show ?thesis using hf ext handled
      by (intro same routed_frame [OF P]) (simp_all add: all_handled_hmap(2) finder_requests_def)
  next
    case (TestRequest name k)
    then have "runner_callback L F name k w = Inr w'" using assms(4) by (simp add: RequestCallback_def)
    then show ?thesis using routed_runner_callback ext assms(3) TestRequest by blast
  qed
qed

lemma routed_finish_request:
  assumes "message_law L" "scan_ok L F w" "routed (add_mset ref P) w" "deref w ref = Some req"
    "finish_request L F m ref req w = Inr w'"
  shows "\<exists>q. queues (pf_http_client w) q (pf_http_client w') \<and> routed (P + mset q) w'"
proof -
  obtain req3 h where req3: "same_request req req3" "h = None \<or> h = rq_handler req"
    "(case h of None \<Rightarrow> Inr (put_ref ref req3 w) | Some h \<Rightarrow> RequestCallback L F h ref req3 (put_ref ref req3 w)) = Inr w'"
    using finish_request_cut [OF assms(5)] by metis
  let ?w1 = "put_ref ref req3 w"
  have r1: "routed (add_mset ref P) ?w1"
    using routed_put_ref [OF assms(3,4)] req3(1) by (simp add: same_request_def)
  have ok1: "scan_ok L F ?w1" using scan_ok_put_ref [OF assms(2,4) req3(1)] scan_kept_ok by blast
  have "rq_handler req = Some (owner ref)" using routed_deref [OF assms(3), of ref] assms(4) by simp
  then show ?thesis
  proof (cases h)
    case None
    then have "w' = ?w1" using req3(3) by simp
    then show ?thesis using routed_mono [OF r1, of P] by (intro exI [of _ "[]"]) simp
  next
    case (Some hd)
    then have "RequestCallback L F (owner ref) ref req3 ?w1 = Inr w'"
      using req3(2,3) \<open>rq_handler req = Some (owner ref)\<close> by simp
    then show ?thesis using routed_RequestCallback [OF assms(1) ok1 r1] by simp
  qed
qed

lemma erase_handle_pending:
  "find (\<lambda>h. ch_easy_handle h = eh) hs = Some h \<Longrightarrow>
     mset (map ch_request hs) = add_mset (ch_request h) (mset (map ch_request (snd (erase_handle eh hs))))"
  by (induction hs) (auto simp: Let_def split_beta split: if_splits)

lemma cleanup_pending:
  assumes "find_handle eh c = Some h"
  shows "ch_easy_handle h = eh" "pending c = add_mset (ch_request h) (pending (snd (CleanupCurlHandleData eh c)))"
proof -
  show "ch_easy_handle h = eh" using assms by (auto simp: find_handle_def find_Some_iff)
  show "pending c = add_mset (ch_request h) (pending (snd (CleanupCurlHandleData eh c)))"
    using erase_handle_pending [of eh "hc_running_handles c" h] assms
    by (simp add: find_handle_def pending_def CleanupCurlHandleData_def split_beta)
qed

lemma cleanup_queues:
  "queues c q c' \<Longrightarrow> pending (snd (CleanupCurlHandleData eh c')) = pending (snd (CleanupCurlHandleData eh c)) + mset q"
  by (simp add: queues_def pending_def CleanupCurlHandleData_def split_beta)

abbreviation well_routed :: "plusfish \<Rightarrow> bool" where
  "well_routed w \<equiv> routed (pending (pf_http_client w)) w"

lemma routed_process_message:
  assumes "message_law L" "scan_ok L F w" "well_routed w" "process_message L F m w = Inr w'"
  shows "well_routed w'"
proof (cases "pm_done m")
  case True
  then obtain h req w1 where h: "find_handle (pm_easy_handle m) (pf_http_client w) = Some h"
      and req: "deref w (ch_request h) = Some req" "finish_request L F m (ch_request h) req w = Inr w1"
      and w': "w' = w1\<lparr>pf_http_client := snd (CleanupCurlHandleData (ch_easy_handle h) (pf_http_client w1))\<rparr>"
    using assms(4) by (auto simp: process_message_def and_then_eq_Inr split: option.splits)
  let ?P = "pending (snd (CleanupCurlHandleData (pm_easy_handle m) (pf_http_client w)))"
  have "routed (add_mset (ch_request h) ?P) w" using assms(3) cleanup_pending(2) [OF h] by simp
  from routed_finish_request [OF assms(1,2) this req]
  obtain q where "queues (pf_http_client w) q (pf_http_client w1)" "routed (?P + mset q) w1" by blast
  then show ?thesis using w' cleanup_pending(1) [OF h] cleanup_queues by simp
qed (use assms in \<open>simp add: process_message_def\<close>)

lemma mset_take_drop: "m \<le> j \<Longrightarrow> mset (take m q) + mset (drop j q) \<subseteq># mset q"
proof -
  assume "m \<le> j"
  then have "drop j q = drop (j - m) (drop m q)" by simp
  moreover have "mset (drop i xs) \<subseteq># mset xs" for i and xs :: "'a list"
    using arg_cong [OF append_take_drop_id [of i xs], of mset] by (metis mset_append mset_subset_eq_add_right)
  ultimately have "mset (drop j q) \<subseteq># mset (drop m q)" by metis
  then have "mset (take m q) + mset (drop j q) \<subseteq># mset (take m q) + mset (drop m q)" by simp
  then show ?thesis by (metis append_take_drop_id mset_append)
qed

lemma start_pending:
  assumes "StartNewRequests F d env c = Inr (ok, c', ds)"
  shows "pending c' \<subseteq># pending c"
proof (cases "c' = c")
  case False
  then have "start_loop F d env 0 (max_active_handles (fl_connection_limit F) - hc_curl_handle_cnt c)
      (hc_schedule_queue c) c = Inr (ok, c', ds)"
    using assms by (auto simp: StartNewRequests_def Let_def split: if_splits)
  from start_loop_progress [OF this] obtain m hs where
    c': "hc_schedule_queue c' = drop (if ok then m else Suc m) (hc_schedule_queue c)"
      "hc_running_handles c' = hc_running_handles c @ hs" "map ch_request hs = take m (hc_schedule_queue c)"
    by blast
  have "mset (map ch_request hs) + mset (hc_schedule_queue c') \<subseteq># mset (hc_schedule_queue c)"
    unfolding c'(1,3) by (rule mset_take_drop) simp
  then show ?thesis unfolding pending_def c'(2) by (simp add: ac_simps)
qed simp

lemma routed_start:
  "well_routed w \<Longrightarrow> StartNewRequests F d env (pf_http_client w) = Inr (ok, c', ds) \<Longrightarrow>
     well_routed (w\<lparr>pf_http_client := c'\<rparr>)"
  using routed_mono start_pending by simp

lemma routed_posts:
  assumes "routed (pending c) w" "posts h rs c rs' (pf_http_client w)"
    "h = NotFoundDetectorHandler \<or> h = HiddenObjectsFinderHandler"
  shows "well_routed w"
  using posts_routed [OF assms] queues_pending by metis

lemma routed_probe_next:
  assumes "message_law L" "scan_ok L F w" "well_routed w" "probe_next L F random w = Inr w'"
  shows "well_routed w'"
proof (cases "w' = w")
  case False
  then obtain url added where
      add: "nfd_AddUrl L F random url (pf_not_found_detector w) (pf_http_client w) =
        Inr (added, pf_not_found_detector w', pf_http_client w')"
      and w': "finder_requests w' = finder_requests w" "pf_selective_auditor w' = pf_selective_auditor w"
    using assms(4)
    by (auto simp: probe_next_def and_then_eq_Inr finder_requests_def hof_AddUrl_def split: prod.splits option.splits)
  note posts = nfd_AddUrl_posts [OF add]
  have "store_extends (pf_datastore w) (pf_datastore w')"
    using kept_extends [OF assms(1,2) scan_ok_probe_next [OF assms(2,1,4)]] .
  then have "routed (pending (pf_http_client w)) w'"
    using posts w' routed_handled [OF assms(3)]
    by (intro routed_frame [OF assms(3)]) (auto simp: posts_def)
  then show ?thesis using posts by (intro routed_posts) auto
qed (use assms(3) in simp)

lemma routed_crawl_next:
  assumes "message_law L" "scan_ok L F w" "well_routed w" "crawl_next w = Inr w'"
  shows "well_routed w'"
proof (cases "w' = w")
  case False
  then obtain ds1 i req ok c' where sch: "Schedule (StoredRequest i) (pf_http_client w) = (ok, c')"
      and w': "w' = w\<lparr>pf_datastore := put_request i (req\<lparr>rq_handler := Some CrawlerHandler\<rparr>) ds1, pf_http_client := c'\<rparr>"
    using assms(4)
    by (auto simp: crawl_next_def Crawl_def Let_def and_then_eq_Inr split: prod.splits option.splits)
  have "store_extends (pf_datastore w) (pf_datastore w')"
    using kept_extends [OF assms(1,2) scan_ok_crawl_next [OF assms(2,1,4)]] .
  then have "routed (pending (pf_http_client w)) w'"
    using w' routed_handled [OF assms(3)] by (intro routed_frame [OF assms(3)]) (auto simp: finder_requests_def)
  moreover have "may_hold w' (StoredRequest i)" by (simp add: w' GetRequestById_def put_request_def)
  ultimately show ?thesis
    using routed_add queues_pending [OF Schedule_queues [OF sch]] w' by (cases ok) auto
qed (use assms(3) in simp)

lemma routed_schedule_hidden:
  assumes "well_routed w" "schedule_hidden L F w = Inr w'"
  shows "well_routed w'"
proof -
  obtain hf n hf' c' where hf: "pf_objects_finder w = Some hf" "w' = w\<lparr>pf_objects_finder := Some hf', pf_http_client := c'\<rparr>"
      and run: "ScheduleRequests L F kMaxHiddenObjectsUrlsToSchedule hf (pf_http_client w) = Inr (n, hf', c')"
    using assms(2) by (auto simp: schedule_hidden_def and_then_eq_Inr split: option.splits)
  note posts = ScheduleRequests_posts [OF run]
  have "routed (pending (pf_http_client w)) w'"
    using posts hf routed_handled [OF assms(1)]
    by (intro routed_frame [OF assms(1)]) (auto simp: posts_def finder_requests_def)
  then show ?thesis using posts hf by (intro routed_posts) auto
qed

lemma ScheduleFirst_cut:
  assumes "ScheduleFirst L F ds req sa c = (ok, sa', c')"
  shows "c' = c \<and> sa_runners sa' = sa_runners sa \<and> sa_next_name sa \<le> sa_next_name sa' \<or>
     (\<exists>ru n. sa_runners sa' = sa_runners sa @ [ru] \<and> sa_next_name sa' = sa_next_name sa + 1 \<and>
        ru_name ru = sa_next_name sa \<and> ru_requests_completed ru = 0 \<and> \<not> ru_finished ru \<and>
        (\<forall>r \<in> set (ru_requests ru). rq_handler r = Some (RunnerHandler (sa_next_name sa))) \<and>
        n \<le> length (ru_requests ru) \<and> queues c (map (TestRequest (sa_next_name sa)) [0..<n]) c')"
proof (cases "sa_checks sa = []")
  case False
  let ?ru = "SecurityCheckRunner (sa_next_name sa) 0 (rq_id req)"
  obtain b ru c1 where sch: "ScheduleNextCheck L F ds (sa_checks sa) req ?ru c = (b, ru, c1)" by (metis prod_cases3)
  have fresh: "ru_requests_completed ?ru = 0" "\<not> ru_finished ?ru" "ru_name ?ru = sa_next_name sa"
    by (simp_all add: SecurityCheckRunner_def)
  note q = ScheduleNextCheck_queues [OF sch fresh(1,2), unfolded fresh(3)]
  show ?thesis
  proof (cases b)
    case True
    then show ?thesis using q assms False sch by (auto simp: ScheduleFirst_def Let_def)
  next
    case False
    then show ?thesis using q assms \<open>sa_checks sa \<noteq> []\<close> sch by (auto simp: ScheduleFirst_def Let_def)
  qed
qed (use assms in \<open>simp add: ScheduleFirst_def\<close>)

lemma runner_ok_new:
  "runner_ok P ru \<Longrightarrow> ru_name ru \<noteq> name \<Longrightarrow> runner_ok (P + mset (map (TestRequest name) ks)) ru"
  by (auto simp: runner_ok_def)

lemma routed_ScheduleFirst:
  assumes "well_routed w" "pf_selective_auditor w = Some sa"
    "ScheduleFirst L F ds req sa (pf_http_client w) = (ok, sa', c')"
  shows "routed (pending c') (w\<lparr>pf_selective_auditor := Some sa'\<rparr>)"
proof -
  let ?P = "pending (pf_http_client w)" and ?name = "sa_next_name sa"
  have sa_ok: "auditor_ok ?P sa" using assms(1,2) by (simp add: routed_def)
  from ScheduleFirst_cut [OF assms(3)] show ?thesis
  proof
    assume same: "c' = pf_http_client w \<and> sa_runners sa' = sa_runners sa \<and> ?name \<le> sa_next_name sa'"
    then have "auditor_ok (pending c') sa'" using sa_ok by (auto simp: auditor_ok_def)
    then show ?thesis using same by (intro routed_auditor [OF assms(1,2)]) auto
  next
    assume "\<exists>ru n. sa_runners sa' = sa_runners sa @ [ru] \<and> sa_next_name sa' = ?name + 1 \<and>
        ru_name ru = ?name \<and> ru_requests_completed ru = 0 \<and> \<not> ru_finished ru \<and>
        (\<forall>r \<in> set (ru_requests ru). rq_handler r = Some (RunnerHandler ?name)) \<and>
        n \<le> length (ru_requests ru) \<and> queues (pf_http_client w) (map (TestRequest ?name) [0..<n]) c'"
    then obtain ru n where ru: "sa_runners sa' = sa_runners sa @ [ru]" "sa_next_name sa' = ?name + 1"
        "ru_name ru = ?name" "ru_requests_completed ru = 0" "\<not> ru_finished ru"
        "\<forall>r \<in> set (ru_requests ru). rq_handler r = Some (RunnerHandler ?name)" "n \<le> length (ru_requests ru)"
        and q: "queues (pf_http_client w) (map (TestRequest ?name) [0..<n]) c'" by blast
    let ?P' = "?P + mset (map (TestRequest ?name) [0..<n])"
    have below: "\<forall>ru \<in> set (sa_runners sa). ru_name ru < ?name" using sa_ok by (simp add: auditor_ok_def)
    then have none: "TestRequest ?name k \<notin># ?P" for k
      using assms(1,2) by (fastforce simp: routed_def runners_def)
    then have "tests ?name ?P = 0" by (simp add: tests_zero)
    then have "runner_ok ?P' ru" using none ru by (auto simp: runner_ok_def simp del: mset_upt)
    moreover have "runner_ok ?P' ru'" if "ru' \<in> set (sa_runners sa)" for ru'
      using that below sa_ok by (intro runner_ok_new) (auto simp: auditor_ok_def)
    ultimately have "auditor_ok ?P' sa'" using sa_ok ru(1-3) below by (auto simp: auditor_ok_def)
    then show ?thesis unfolding queues_pending [OF q] using ru(1,3)
      by (intro routed_auditor [OF assms(1,2)]) auto
  qed
qed

lemma routed_audit_next:
  assumes "message_law L" "scan_ok L F w" "well_routed w" "audit_next L F w = Inr w'"
  shows "well_routed w'"
proof (cases "w' = w")
  case False
  then obtain sa ds1 req ok sa' c' where sa: "pf_selective_auditor w = Some sa"
      and sch: "ScheduleFirst L F ds1 req sa (pf_http_client w) = (ok, sa', c')"
      and w': "w' = w\<lparr>pf_datastore := ds1, pf_selective_auditor := Some sa', pf_http_client := c'\<rparr>"
    using assms(4) by (auto simp: audit_next_def Let_def split: option.splits prod.splits if_splits)
  note r = routed_ScheduleFirst [OF assms(3) sa sch]
  have "store_extends (pf_datastore w) (pf_datastore w')"
    using kept_extends [OF assms(1,2) scan_ok_audit_next [OF assms(2,4)]] .
  then have "routed (pending c') w'"
    using w' routed_handled [OF assms(3)] by (intro routed_frame [OF r]) (simp_all add: finder_requests_def)
  then show ?thesis by (simp add: w')
qed (use assms(3) in simp)

lemma routed_shutdown:
  "well_routed w \<Longrightarrow> well_routed (SignalHandler F t sig w)"
  "well_routed w \<Longrightarrow> well_routed (snd (KeepRunningOrShutdown F t w))"
  by (auto simp: shutdown_defs routed_def runners_def finder_requests_def pending_def)

lemma routed_AddURL:
  assumes "message_law L" "scan_ok L F w" "well_routed w" "AddURL L F url w = Inr (ok, w')"
  shows "well_routed w'"
proof -
  have "routed (pending (pf_http_client w)) w'"
    using AddURL_kept [OF assms(4)] routed_handled [OF assms(3)]
      kept_extends [OF assms(1,2) scan_ok_AddURL [OF assms(2,4)]]
    by (intro routed_frame [OF assms(3)]) (simp_all add: finder_requests_def)
  then show ?thesis using AddURL_kept [OF assms(4)] by simp
qed

lemma routed_deliver:
  assumes "well_routed w" "deliver F d w = Inr w'"
  shows "well_routed w'"
proof (cases "find_handle (dl_easy_handle d) (pf_http_client w)")
  case (Some h)
  then obtain req where req: "deref w (ch_request h) = Some req"
    using assms(2) by (auto simp: deliver_def split: option.splits)
  then obtain n req' where cb: "CurlCallback F (dl_buffer d) (dl_size d) (dl_multiplier d) req = Inr (n, req')"
      "w' = put_ref (ch_request h) req' w"
    using assms(2) Some by (auto simp: deliver_def and_then_eq_Inr)
  have "rq_handler req' = rq_handler req" using same_request_CurlCallback [OF cb(1)] by (simp add: same_request_def)
  then show ?thesis using routed_put_ref [OF assms(1) req] cb(2) by simp
qed (use assms in \<open>simp add: deliver_def\<close>)

lemma scan_step_keeps:
  assumes "scan_step L F w w'" "message_law L" "scan_ok L F w" "well_routed w"
  shows "scan_kept L F w w' \<and> well_routed w'"
  using assms(1)
proof cases
  case (target url ok)
  then show ?thesis using assms(2-) scan_ok_AddURL routed_AddURL by blast
next
  case (start env ok c' deliveries)
  then show ?thesis using assms(3,4) routed_start scan_ok_store [OF assms(3) store_kept_refl, of w'] by (simp add: finder_requests_def)
next
  case (performed n)
  then show ?thesis using assms(3,4) scan_ok_store [OF assms(3) store_kept_refl, of w'] by (simp add: pending_def finder_requests_def)
next
  case (delivered d)
  then show ?thesis using assms(3,4) scan_ok_deliver routed_deliver by blast
next
  case (message m)
  then show ?thesis using assms(2-) scan_ok_process_message routed_process_message by blast
next
  case (probe random)
  then show ?thesis using assms(2-) scan_ok_probe_next routed_probe_next by blast
next
  case crawl
  then show ?thesis using assms(2-) scan_ok_crawl_next routed_crawl_next by blast
next
  case hidden
  then show ?thesis using assms(3,4) scan_ok_schedule_hidden routed_schedule_hidden by blast
next
  case audit
  then show ?thesis using assms(2-) scan_ok_audit_next routed_audit_next by blast
next
  case (signal now sig)
  then show ?thesis using assms(3,4) scan_ok_shutdown(1) routed_shutdown(1) by blast
next
  case (expire now)
  then show ?thesis using assms(3,4) scan_ok_shutdown(2) routed_shutdown(2) by blast
qed

lemma scan_steps_keep:
  "scan_steps L F w w' \<Longrightarrow> message_law L \<Longrightarrow> scan_ok L F w \<Longrightarrow> well_routed w \<Longrightarrow> scan_kept L F w w' \<and> well_routed w'"
  by (induction rule: rtranclp_induct) (blast intro: scan_kept_refl, metis scan_kept_ok scan_kept_trans scan_step_keeps)

text \<open>A scan before its first round.\<close>

definition fresh_scan :: "plusfish \<Rightarrow> bool" where
  "fresh_scan w \<longleftrightarrow> hc_schedule_queue (pf_http_client w) = [] \<and> hc_running_handles (pf_http_client w) = [] \<and>
     nd_requests (pf_not_found_detector w) = [] \<and> finder_requests w = [] \<and> runners w = []"

lemma fresh_scan_routed: "fresh_scan w \<Longrightarrow> well_routed w"
  by (cases "pf_selective_auditor w")
    (auto simp: fresh_scan_def routed_def pending_def runners_def auditor_ok_def)

section \<open>Lemmas: test URLs that are scheduled twice\<close>

text \<open>A held request survives the scheduling of test URLs only if its own URL is not among them.\<close>

lemma hmap_put_mem: "(u, x) \<in> set (hmap_put k v m) \<Longrightarrow> u = k \<and> x = v \<or> u \<noteq> k \<and> (u, x) \<in> set m"
  by (auto simp: hmap_put_def map_of_eq_None_iff image_iff split: if_splits)

lemma schedule_test_enabled:
  assumes "schedule_test L F u hf c = Inr (hf', c')" "hc_enabled c"
  shows "\<exists>r. hf_requests hf' = hmap_put u (hf_next hf, r) (hf_requests hf)" "hf_next hf' = hf_next hf + 1"
    "hf_test_urls_queue hf' = hf_test_urls_queue hf" "hc_enabled c'"
  using assms by (auto simp: schedule_test_def Schedule_def and_then_eq_Inr Let_def)

lemma schedule_tests_old:
  "schedule_tests L F k hf c = Inr (hf', c') \<Longrightarrow> hc_enabled c \<Longrightarrow> (u, n, r) \<in> set (hf_requests hf') \<Longrightarrow> n < hf_next hf \<Longrightarrow>
     (u, n, r) \<in> set (hf_requests hf) \<and> u \<notin> set (take k (hf_test_urls_queue hf))"
proof (induction k arbitrary: hf c)
  case (Suc k)
  show ?case
  proof (cases "hf_test_urls_queue hf")
    case (Cons v q)
    let ?hf = "hf\<lparr>hf_test_urls_queue := q\<rparr>"
    obtain hf1 c1 where one: "schedule_test L F v ?hf c = Inr (hf1, c1)" "schedule_tests L F k hf1 c1 = Inr (hf', c')"
      using Suc.prems Cons by (auto simp: and_then_eq_Inr)
    note step = schedule_test_enabled [OF one(1) Suc.prems(2)]
    then obtain r1 where r1: "hf_requests hf1 = hmap_put v (hf_next hf, r1) (hf_requests hf)" by auto
    have "(u, n, r) \<in> set (hf_requests hf1) \<and> u \<notin> set (take k q)"
      using Suc.IH [OF one(2) step(4) Suc.prems(3)] Suc.prems(4) step(2,3) by simp
    then show ?thesis using hmap_put_mem [of u "(n, r)" v "(hf_next hf, r1)" "hf_requests hf"] r1 Suc.prems(4) Cons by auto
  qed (use Suc.prems in simp)
qed simp

lemma schedule_tests_twice:
  "schedule_tests L F k hf c = Inr (hf', c') \<Longrightarrow> hc_enabled c \<Longrightarrow> \<forall>(u, n, r) \<in> set (hf_requests hf). n < hf_next hf \<Longrightarrow>
     i < j \<Longrightarrow> j < k \<Longrightarrow> j < length (hf_test_urls_queue hf) \<Longrightarrow>
     hf_test_urls_queue hf ! i = hf_test_urls_queue hf ! j \<Longrightarrow> (u, hf_next hf + i, r) \<notin> set (hf_requests hf')"
proof (induction k arbitrary: hf c i j)
  case (Suc k)
  then obtain v q where q: "hf_test_urls_queue hf = v # q" by (cases "hf_test_urls_queue hf") auto
  let ?hf = "hf\<lparr>hf_test_urls_queue := q\<rparr>"
  obtain hf1 c1 where one: "schedule_test L F v ?hf c = Inr (hf1, c1)" "schedule_tests L F k hf1 c1 = Inr (hf', c')"
    using Suc.prems(1) q by (auto simp: and_then_eq_Inr)
  note step = schedule_test_enabled [OF one(1) Suc.prems(2)]
  then obtain r1 where r1: "hf_requests hf1 = hmap_put v (hf_next hf, r1) (hf_requests hf)" by auto
  obtain j' where j: "j = Suc j'" using Suc.prems(4) by (cases j) auto
  show ?case
  proof (cases i)
    case 0
    have "v \<in> set (take k q)"
      using Suc.prems(5-7) q 0 j by (auto simp: in_set_conv_nth intro!: exI [of _ j'])
    moreover have "u = v" if "(u, hf_next hf, r) \<in> set (hf_requests hf1)"
      using hmap_put_mem [of u "(hf_next hf, r)" v "(hf_next hf, r1)" "hf_requests hf"] that r1 Suc.prems(3) by auto
    ultimately show ?thesis
      using schedule_tests_old [OF one(2) step(4), of u "hf_next hf" r] step(2,3) 0 by auto
  next
    case (Suc i')
    have "\<forall>(u, n, r) \<in> set (hf_requests hf1). n < hf_next hf1"
      using Suc.prems(3) r1 step(2) set_hmap_put [of v "(hf_next hf, r1)" "hf_requests hf"] by fastforce
    then show ?thesis using Suc.IH [OF one(2) step(4), of i' j'] Suc.prems(4-7) q j step(2,3) \<open>i = Suc i'\<close> by simp
  qed
qed simp

section \<open>Properties\<close>

text \<open>
  C6: request pointers are well typed. In every state a scan reaches, a pointer the client has
  queued or is running that can be followed leads to a request whose handler is the component
  the pointer belongs to, so its answer goes to its owner: the crawler for a stored request, the
  detector for a probe, the finder for a test URL, the runner itself for the request of a
  check. Pointers to stored requests and to the requests of a runner can always be followed,
  also while runners are reused for their next check; only those to probes and test URLs, which
  their owners hold by URL, may dangle.
\<close>

theorem pointers_well_typed:
  assumes "message_law L" "ds_reachable L F (pf_datastore w)" "parentless (pf_datastore w)"
    "hosted (pf_datastore w)" "fresh_scan w" "(scan_step L F)\<^sup>*\<^sup>* w w'"
    "ref \<in> set (hc_schedule_queue (pf_http_client w')) \<union> ch_request ` set (hc_running_handles (pf_http_client w'))"
  shows "case deref w' ref of
     Some r \<Rightarrow> rq_handler r = Some (owner ref)
   | None \<Rightarrow> owner ref = NotFoundDetectorHandler \<or> owner ref = HiddenObjectsFinderHandler"
proof (rule routed_deref)
  have "scan_ok L F w" using assms(2-5) by (simp add: scan_ok_def fresh_scan_def)
  then show "well_routed w'" using scan_steps_keep [OF assms(6,1)] fresh_scan_routed [OF assms(5)] by blast
  show "ref \<in># pending (pf_http_client w')" using assms(7) by (auto simp: pending_def)
qed

theorem pointers_well_typed_witness:
  "\<exists>w1 w2 r. AddURL simple_lib default_flags ''http://a.b/x'' (sample_scan\<lparr>pf_datastore := DataStore\<rparr>) = Inr (True, w1) \<and>
     loop_body simple_lib default_flags (idle_env 10) w1 = Inr w2 \<and>
     StoredRequest 1 \<in> set (hc_schedule_queue (pf_http_client w2)) \<and>
     deref w2 (StoredRequest 1) = Some r \<and> rq_handler r = Some CrawlerHandler"
proof -
  let ?w = "sample_scan\<lparr>pf_datastore := DataStore\<rparr>"
  let ?a = "AddURL simple_lib default_flags ''http://a.b/x'' ?w"
  have "map_sum id (\<lambda>(ok, w1). ok \<and> (case loop_body simple_lib default_flags (idle_env 10) w1 of
      Inl e \<Rightarrow> False | Inr w2 \<Rightarrow> StoredRequest 1 \<in> set (hc_schedule_queue (pf_http_client w2)))) ?a = Inr True" by code_simp
  then obtain w1 where a1: "?a = Inr (True, w1)" and l: "case loop_body simple_lib default_flags (idle_env 10) w1 of
      Inl e \<Rightarrow> False | Inr w2 \<Rightarrow> StoredRequest 1 \<in> set (hc_schedule_queue (pf_http_client w2))"
    by (cases ?a) auto
  then obtain w2 where a: "?a = Inr (True, w1)" "loop_body simple_lib default_flags (idle_env 10) w1 = Inr w2"
      and q: "StoredRequest 1 \<in> set (hc_schedule_queue (pf_http_client w2))"
    by (auto split: sum.splits)
  have "scan_step simple_lib default_flags ?w w1" using a(1) by (rule scan_step.target)
  then have steps: "scan_steps simple_lib default_flags ?w w2"
    using as_steps.loop_body_R [OF a(2)] by (rule converse_rtranclp_into_rtranclp)
  have fresh: "fresh_scan ?w"
    by (simp add: fresh_scan_def sample_scan_def SetShutdownTime_def Plusfish_def client_Enable_def CurlHttpClient_def
        NotFoundDetector_def finder_requests_def HiddenObjectsFinder_def runners_def SelectiveAuditor_def)
  have "parentless (pf_datastore ?w)" "hosted (pf_datastore ?w)"
    by (simp_all add: parentless_def hosted_def DataStore_def GetRequestById_def)
  moreover have "ds_reachable simple_lib default_flags (pf_datastore ?w)" by (simp add: ds_reachable.init)
  ultimately have pre: "parentless (pf_datastore ?w)" "hosted (pf_datastore ?w)"
    "ds_reachable simple_lib default_flags (pf_datastore ?w)" by blast+
  from pointers_well_typed [OF message_law_simple pre(3,1,2) fresh steps, of "StoredRequest 1"] q
  obtain r where "deref w2 (StoredRequest 1) = Some r" "rq_handler r = Some CrawlerHandler"
    by (auto split: option.splits)
  then show ?thesis using a q by blast
qed

text \<open>
  C10: a test URL that is queued twice leaves a dangling pointer. The finder holds its requests by
  URL, so making the second request destroys the first, whose pointer stays in the client's
  queue; following it is a use after free. The words \<open>a.php\<close> and \<open>a\<close> with the extension
  \<open>.php\<close> are enough.
\<close>

theorem duplicate_test_url_dangles:
  assumes "pf_objects_finder w = Some hf" "\<forall>(u, n, r) \<in> set (hf_requests hf). n < hf_next hf"
    "hc_enabled (pf_http_client w)" "split_law L" "schedule_hidden L F w = Inr w'"
    "i < j" "j < 100" "j < length (hf_test_urls_queue hf)"
    "hf_test_urls_queue hf ! i = hf_test_urls_queue hf ! j"
  shows "HiddenRequest (hf_next hf + i) \<in> set (hc_schedule_queue (pf_http_client w')) \<and>
     deref w' (HiddenRequest (hf_next hf + i)) = None"
proof -
  have q: "hf_test_urls_queue hf \<noteq> []" using assms(8) by auto
  then obtain hf' where run: "schedule_tests L F 100 hf (pf_http_client w) = Inr (hf', pf_http_client w')"
      "pf_objects_finder w' = Some hf'"
    using assms(1,5)
    by (auto simp: schedule_hidden_def ScheduleRequests_def kMaxHiddenObjectsUrlsToSchedule_def and_then_eq_Inr)
  have "pf_http_client w' = (pf_http_client w)\<lparr>hc_schedule_queue := hc_schedule_queue (pf_http_client w) @
      map HiddenRequest [hf_next hf..<hf_next hf + min 100 (length (hf_test_urls_queue hf))]\<rparr>"
    using schedule_tests_run [OF assms(4), of F 100 hf "pf_http_client w"] run(1) assms(3) by auto
  then have "HiddenRequest (hf_next hf + i) \<in> set (hc_schedule_queue (pf_http_client w'))"
    using assms(6-8) by auto
  moreover have "find_request (hf_next hf + i) (hf_requests hf') = None"
    using schedule_tests_twice [OF run(1) assms(3,2,6,7,8,9)] find_request_mem
    by (cases "find_request (hf_next hf + i) (hf_requests hf')") blast+
  ultimately show ?thesis using run(2) by (simp add: finder_requests_def)
qed

definition twice_finder :: hidden_objects_finder where
  "twice_finder = HiddenObjectsFinder\<lparr>hf_extensions := [''.php''], hf_probed_urls := [''http://a.b/''],
     hf_wordlist := [(''a.php'', False), (''a'', True)],
     hf_test_urls_queue := [''http://a.b/a.php'', ''http://a.b/a'', ''http://a.b/a.php'']\<rparr>"

theorem duplicate_test_url_dangles_witness:
  "GenerateTestUrls ''http://a.b/'' (twice_finder\<lparr>hf_probed_urls := [], hf_test_urls_queue := []\<rparr>) = Inr (3, twice_finder) \<and>
   (\<exists>w'. schedule_hidden simple_lib default_flags (sample_scan\<lparr>pf_objects_finder := Some twice_finder\<rparr>) = Inr w' \<and>
     HiddenRequest 0 \<in> set (hc_schedule_queue (pf_http_client w')) \<and> deref w' (HiddenRequest 0) = None \<and>
     start_new_requests default_flags (idle_env 10) w' = Inl UseAfterFree)"
proof -
  let ?w = "sample_scan\<lparr>pf_objects_finder := Some twice_finder\<rparr>"
  let ?s = "schedule_hidden simple_lib default_flags ?w"
  have gen: "GenerateTestUrls ''http://a.b/'' (twice_finder\<lparr>hf_probed_urls := [], hf_test_urls_queue := []\<rparr>) = Inr (3, twice_finder)"
    by code_simp
  have "map_sum id (\<lambda>w'. start_new_requests default_flags (idle_env 10) w' = Inl UseAfterFree) ?s = Inr True" by code_simp
  then obtain w' where w': "?s = Inr w'" "start_new_requests default_flags (idle_env 10) w' = Inl UseAfterFree"
    by (cases ?s) auto
  have "hf_requests twice_finder = []" "hf_next twice_finder = 0" "length (hf_test_urls_queue twice_finder) = 3"
    "hf_test_urls_queue twice_finder ! 0 = hf_test_urls_queue twice_finder ! 2"
    by (simp_all add: twice_finder_def HiddenObjectsFinder_def)
  moreover have "hc_enabled (pf_http_client ?w)"
    by (simp add: sample_scan_def SetShutdownTime_def Plusfish_def client_Enable_def)
  ultimately show ?thesis
    using duplicate_test_url_dangles [OF _ _ _ split_law_simple w'(1), of twice_finder 0 2] gen w' by auto
qed

end
