(* ===== verification/Scan_Progress.thy ===== *)
theory Scan_Progress
  imports Routing
begin

text \<open>
  What is done when \<open>Plusfish::Run\<close> ends by itself, that is with the scan and the client still
  on: the loop of \<open>src/plusfish.cc\<close> only looks at the client, so these properties say what an
  idle client means for the queues of the data store.
\<close>

section \<open>Lemmas: a round that ends the loop\<close>

lemma queues_empty: "queues c q c' \<Longrightarrow> hc_schedule_queue c' = [] \<Longrightarrow> hc_schedule_queue c = []"
  by (simp add: queues_def)

lemma schedule_hidden_frame:
  assumes "schedule_hidden L F w = Inr w'"
  shows "pf_datastore w' = pf_datastore w" "hc_schedule_queue (pf_http_client w') = [] \<Longrightarrow> hc_schedule_queue (pf_http_client w) = []"
proof -
  obtain hf n hf' c' where hf: "pf_objects_finder w = Some hf" "w' = w\<lparr>pf_objects_finder := Some hf', pf_http_client := c'\<rparr>"
      and run: "ScheduleRequests L F kMaxHiddenObjectsUrlsToSchedule hf (pf_http_client w) = Inr (n, hf', c')"
    using assms by (auto simp: schedule_hidden_def and_then_eq_Inr split: option.splits)
  show "pf_datastore w' = pf_datastore w" by (simp add: hf(2))
  show "hc_schedule_queue (pf_http_client w') = [] \<Longrightarrow> hc_schedule_queue (pf_http_client w) = []"
    using ScheduleRequests_posts [OF run] hf(2) by (auto simp: posts_def dest: queues_empty)
qed

lemma audit_next_frame:
  assumes "audit_next L F w = Inr w'"
  shows "ds_probe_queue (pf_datastore w') = ds_probe_queue (pf_datastore w)"
    "ds_crawl_queue (pf_datastore w') = ds_crawl_queue (pf_datastore w)"
    "hc_schedule_queue (pf_http_client w') = [] \<Longrightarrow> hc_schedule_queue (pf_http_client w) = []"
proof -
  show "ds_probe_queue (pf_datastore w') = ds_probe_queue (pf_datastore w)"
    "ds_crawl_queue (pf_datastore w') = ds_crawl_queue (pf_datastore w)"
    using assms by (auto simp: audit_next_def Let_def GetRequestFromAuditQueue_def split: option.splits prod.splits if_splits list.splits)
  have "queues c q c' \<longrightarrow> hc_schedule_queue c' = [] \<longrightarrow> hc_schedule_queue c = []" for c q c'
    using queues_empty by blast
  then show "hc_schedule_queue (pf_http_client w') = [] \<Longrightarrow> hc_schedule_queue (pf_http_client w) = []"
    using assms
    by (auto simp: audit_next_def Let_def split: option.splits prod.splits if_splits dest!: ScheduleFirst_cut)
qed

text \<open>With the client on, a request that leaves the crawl queue is in the client's queue.\<close>

lemma crawl_next_quiet:
  assumes "crawl_next w = Inr w'" "hc_enabled (pf_http_client w)" "hc_schedule_queue (pf_http_client w') = []"
  shows "ds_crawl_queue (pf_datastore w) = [] \<and> w' = w"
  using assms
  by (auto simp: crawl_next_def Crawl_def Schedule_def GetRequestFromCrawlQueue_def Let_def and_then_eq_Inr
      split: option.splits list.splits)

lemma probe_next_quiet:
  assumes "probe_next L F random w = Inr w'" "ds_crawl_queue (pf_datastore w') = []"
  shows "ds_probe_queue (pf_datastore w) = [] \<and> w' = w"
  using assms
  by (auto simp: probe_next_def GetRequestFromProbeQueue_def AddRequestToCrawlQueue_def and_then_eq_Inr
      split: option.splits list.splits)

lemma quiet_body:
  assumes "loop_body L F e w = Inr w'" "hc_enabled (pf_http_client w')" "hc_schedule_queue (pf_http_client w') = []"
  shows "ds_probe_queue (pf_datastore w') = [] \<and> ds_crawl_queue (pf_datastore w') = []"
proof -
  obtain w1 n w2 w3 w4 w5 where steps: "start_new_requests F e w = Inr w1" "Poll L F (le_poll e) w1 = Inr (n, w2)"
    "probe_next L F (le_random e) w2 = Inr w3" "crawl_next w3 = Inr w4" "schedule_hidden L F w4 = Inr w5"
    "audit_next L F w5 = Inr w'"
    using assms(1) by (auto simp: loop_body_def and_then_eq_Inr)
  have "body_frame w3 w'"
    using body_frame.crawl [OF steps(4)] body_frame.hidden [OF steps(5)] body_frame.audit [OF steps(6)] body_frame_trans
    by blast
  then have on: "hc_enabled (pf_http_client w3)" using assms(2) by (simp add: body_frame_def client_frame_def)
  have "hc_schedule_queue (pf_http_client w4) = []"
    using schedule_hidden_frame(2) [OF steps(5)] audit_next_frame(3) [OF steps(6)] assms(3) by blast
  then have w4: "ds_crawl_queue (pf_datastore w3) = []" "w4 = w3" using crawl_next_quiet [OF steps(4) on] by simp_all
  then have "ds_probe_queue (pf_datastore w2) = []" "w3 = w2" using probe_next_quiet [OF steps(3)] by simp_all
  then show ?thesis using w4 schedule_hidden_frame(1) [OF steps(5)] audit_next_frame(1,2) [OF steps(6)] by simp
qed

lemma SignalHandler_frame:
  "pf_datastore (SignalHandler F t sig w) = pf_datastore w"
  "hc_enabled (pf_http_client (SignalHandler F t sig w)) \<Longrightarrow> hc_enabled (pf_http_client w)"
  by (auto simp: shutdown_defs split: if_splits)

lemma signals_store: "pf_datastore (fold (SignalHandler F t) sigs w) = pf_datastore w"
  by (induction sigs arbitrary: w) (simp_all add: SignalHandler_frame(1))

lemma signals_on: "hc_enabled (pf_http_client (fold (SignalHandler F t) sigs w)) \<Longrightarrow> hc_enabled (pf_http_client w)"
  by (induction sigs arbitrary: w) (auto dest: SignalHandler_frame(2))

lemma keep_frame:
  assumes "pf_enabled (snd (KeepRunningOrShutdown F t w))" "hc_enabled (pf_http_client (snd (KeepRunningOrShutdown F t w)))"
  shows "fst (KeepRunningOrShutdown F t w) \<and> snd (KeepRunningOrShutdown F t w) = w"
proof -
  have "\<not> pf_enabled (Shutdown w)" "\<not> hc_enabled (pf_http_client (ShutdownGraceful F t w))"
    by (simp_all add: shutdown_defs)
  then show ?thesis using assms by (simp add: KeepRunningOrShutdown_def split: if_splits)
qed

lemma quiet_round:
  assumes "loop_round L F e w = Inr (False, w')" "pf_enabled w'" "hc_enabled (pf_http_client w')"
  shows "ds_probe_queue (pf_datastore w') = []" "ds_crawl_queue (pf_datastore w') = []"
    "hc_schedule_queue (pf_http_client w') = []" "hc_running_handles (pf_http_client w') = []"
proof -
  let ?signals = "fold (SignalHandler F (le_time e)) (le_signals e)"
  obtain w1 where w1: "loop_body L F e w = Inr w1" "w' = snd (KeepRunningOrShutdown F (le_time e) (?signals w1))"
      and stop: "\<not> (fst (KeepRunningOrShutdown F (le_time e) (?signals w1)) \<and>
        (hc_running_handles (pf_http_client w') \<noteq> [] \<or> hc_schedule_queue (pf_http_client w') \<noteq> []))"
    using assms(1) by (auto simp: loop_round_def Let_def split_beta and_then_eq_Inr)
  have w': "w' = ?signals w1" and q: "hc_schedule_queue (pf_http_client w') = []" "hc_running_handles (pf_http_client w') = []"
    using keep_frame [of F "le_time e" "?signals w1"] assms(2,3) stop unfolding w1(2) by simp_all
  show "hc_schedule_queue (pf_http_client w') = []" "hc_running_handles (pf_http_client w') = []" by (rule q)+
  have "hc_enabled (pf_http_client w1)" "hc_schedule_queue (pf_http_client w1) = []"
    using assms(3) q(1) signals_on unfolding w' by simp_all
  then show "ds_probe_queue (pf_datastore w') = []" "ds_crawl_queue (pf_datastore w') = []"
    using quiet_body [OF w1(1)] unfolding w' by (simp_all add: signals_store)
qed

section \<open>Lemmas: every stored request on its way\<close>

lemma tracked_round:
  assumes "message_law L" "scan_ok L F w" "tracked (pf_datastore w)" "loop_round L F e w = Inr (b, w')"
  shows "tracked (pf_datastore w')"
proof -
  obtain w1 where w1: "loop_body L F e w = Inr w1"
    "w' = snd (KeepRunningOrShutdown F (le_time e) (fold (SignalHandler F (le_time e)) (le_signals e) w1))"
    using assms(4) by (auto simp: loop_round_def Let_def split_beta and_then_eq_Inr)
  have "tracked (pf_datastore w1)"
    using scan_store.loop_body_R [OF w1(1)] assms(1-3) by (auto simp: scan_kept_def store_kept_def)
  moreover have "pf_datastore w' = pf_datastore w1" unfolding w1(2)
    using signals_store by (simp add: shutdown_defs)
  ultimately show ?thesis by simp
qed

lemma Run_last_round:
  "message_law L \<Longrightarrow> scan_ok L F w \<Longrightarrow> tracked (pf_datastore w) \<Longrightarrow> plusfish_Run L F env k fuel w = Some (Inr w') \<Longrightarrow>
     tracked (pf_datastore w') \<and> (\<exists>e v. loop_round L F e v = Inr (False, w'))"
proof (induction fuel arbitrary: k w)
  case (Suc fuel)
  then obtain b w1 where r: "loop_round L F (env k) w = Inr (b, w1)" by (auto split: sum.splits)
  have "scan_ok L F w1" "tracked (pf_datastore w1)"
    using scan_ok_round [OF Suc.prems(1,2) r] tracked_round [OF Suc.prems(1-3) r] by blast+
  then show ?case using Suc.IH [OF Suc.prems(1)] Suc.prems(4) r by (cases b) auto
qed simp

section \<open>Properties\<close>

text \<open>
  C4: a scan that ends by itself has crawled what it found. If every stored request was waiting
  when \<open>Run\<close> started and \<open>Run\<close> returns with the scan and the client still on, then the probe
  and the crawl queue are empty, the client has nothing queued or running, and every request in
  the data store, also those found on the way, has been handed to the crawler.
\<close>

theorem scan_crawls_everything:
  assumes "message_law L" "ds_reachable L F (pf_datastore w)" "parentless (pf_datastore w)"
    "hosted (pf_datastore w)" "finder_requests w = []" "tracked (pf_datastore w)"
    "plusfish_Run L F env k fuel w = Some (Inr w')" "pf_enabled w'" "hc_enabled (pf_http_client w')"
  shows "ds_probe_queue (pf_datastore w') = [] \<and> ds_crawl_queue (pf_datastore w') = [] \<and>
     hc_schedule_queue (pf_http_client w') = [] \<and> hc_running_handles (pf_http_client w') = [] \<and>
     (\<forall>i r. GetRequestById i (pf_datastore w') = Some r \<longrightarrow> rq_handler r = Some CrawlerHandler)"
proof -
  have "scan_ok L F w" using assms(2-5) by (simp add: scan_ok_def)
  then obtain e v where tracked: "tracked (pf_datastore w')" and last: "loop_round L F e v = Inr (False, w')"
    using Run_last_round [OF assms(1) _ assms(6,7)] by blast
  note quiet = quiet_round [OF last assms(8,9)]
  then show ?thesis using tracked by (auto simp: tracked_def)
qed

text \<open>A scan whose target's directory was probed before: one request to send.\<close>

definition probed_scan :: plusfish where
  "probed_scan = sample_scan\<lparr>pf_datastore := DataStore,
     pf_not_found_detector := NotFoundDetector\<lparr>nd_probed_urls := [''http://a.b:80/'']\<rparr>\<rparr>"

theorem scan_crawls_everything_witness:
  "\<exists>w1 w' r. AddURL simple_lib default_flags ''http://a.b/x'' probed_scan = Inr (True, w1) \<and>
     plusfish_Run simple_lib default_flags (\<lambda>k. idle_env 10) 0 2 w1 = Some (Inr w') \<and>
     GetRequestById 1 (pf_datastore w') = Some r \<and> rq_handler r = Some CrawlerHandler"
proof -
  let ?a = "AddURL simple_lib default_flags ''http://a.b/x'' probed_scan"
  let ?run = "plusfish_Run simple_lib default_flags (\<lambda>k. idle_env 10) 0 2"
  have "map_sum id (\<lambda>(ok, w1). ok \<and> (case ?run w1 of
      Some (Inr w') \<Rightarrow> pf_enabled w' \<and> hc_enabled (pf_http_client w') \<and> GetRequestById 1 (pf_datastore w') \<noteq> None
    | _ \<Rightarrow> False)) ?a = Inr True" by code_simp
  then obtain w1 where a: "?a = Inr (True, w1)" and r: "case ?run w1 of
      Some (Inr w') \<Rightarrow> pf_enabled w' \<and> hc_enabled (pf_http_client w') \<and> GetRequestById 1 (pf_datastore w') \<noteq> None
    | _ \<Rightarrow> False"
    by (cases ?a) auto
  then obtain w' where run: "?run w1 = Some (Inr w')" "pf_enabled w'" "hc_enabled (pf_http_client w')"
      and req: "GetRequestById 1 (pf_datastore w') \<noteq> None"
    by (auto split: option.splits sum.splits)
  have w: "pf_datastore probed_scan = DataStore" "finder_requests probed_scan = []"
    by (simp_all add: probed_scan_def sample_scan_def SetShutdownTime_def Plusfish_def finder_requests_def HiddenObjectsFinder_def)
  have kept: "store_kept simple_lib default_flags DataStore (pf_datastore w1)" "finder_requests w1 = []"
    using AddURL_kept [OF a] w by (simp_all add: finder_requests_def)
  have "parentless DataStore" "hosted DataStore" "tracked DataStore"
    by (simp_all add: parentless_def hosted_def tracked_def DataStore_def GetRequestById_def)
  then have "parentless (pf_datastore w1)" "hosted (pf_datastore w1)" "tracked (pf_datastore w1)"
    "ds_reachable simple_lib default_flags (pf_datastore w1)"
    using kept(1) ds_steps_reachable [OF _ ds_reachable.init] by (auto simp: store_kept_def)
  from scan_crawls_everything [OF message_law_simple this(4,1,2) kept(2) this(3) run] a run(1) req
  show ?thesis by blast
qed

text \<open>
  C11: audits may be left behind. The loop condition does not look at the audit queue, and a round
  takes one request from it: if no test applies to that request and the client is idle, the
  loop ends and the other requests of the queue are never audited.
\<close>

theorem audits_left_behind:
  assumes "pf_selective_auditor w = Some sa" "int (length (sa_runners sa)) < pf_max_auditor_runners w"
    "ds_audit_queue (pf_datastore w) = i # j # rest" "GetRequestById i (pf_datastore w) = Some req"
    "ds_probe_queue (pf_datastore w) = []" "ds_crawl_queue (pf_datastore w) = []"
    "hc_schedule_queue (pf_http_client w) = []" "hc_running_handles (pf_http_client w) = []"
    "pf_objects_finder w = Some hf" "hf_test_urls_queue hf = []" "hf_pending_urls hf = []"
    "ScheduleFirst L F ((pf_datastore w)\<lparr>ds_audit_queue := j # rest\<rparr>) req sa (pf_http_client w) =
       (False, sa', pf_http_client w)"
    "\<not> fl_enable_console_reporting F" "le_signals e = []" "pf_enabled w" "le_time e < pf_shutdown_time w"
  shows "\<exists>w'. loop_round L F e w = Inr (False, w') \<and> ds_audit_queue (pf_datastore w') = j # rest \<and> pf_enabled w'"
proof -
  let ?ds = "(pf_datastore w)\<lparr>ds_audit_queue := j # rest\<rparr>"
  let ?w = "w\<lparr>pf_datastore := ?ds, pf_selective_auditor := Some sa'\<rparr>"
  have c: "(pf_http_client w)\<lparr>hc_schedule_queue := []\<rparr> = pf_http_client w" using assms(7) by (cases "pf_http_client w") simp
  have "start_new_requests F e w = Inr w"
    using assms(7) c by (simp add: start_new_requests_def StartNewRequests_def Let_def)
  moreover have "Poll L F (le_poll e) w = Inr (0, w)" using assms(8) by (simp add: Poll_def)
  moreover have "probe_next L F (le_random e) w = Inr w" "crawl_next w = Inr w"
    using assms(5,6) by (simp_all add: probe_next_def crawl_next_def GetRequestFromProbeQueue_def GetRequestFromCrawlQueue_def)
  moreover have "schedule_hidden L F w = Inr w"
    using assms(9-11) by (simp add: schedule_hidden_def ScheduleRequests_def)
  moreover have "audit_next L F w = Inr ?w"
    using assms(1-4,12) by (simp add: audit_next_def GetRequestFromAuditQueue_def GetRequestById_def)
  ultimately have "loop_body L F e w = Inr ?w" using assms(13) by (simp add: loop_body_def)
  then show ?thesis using assms(7,8,14-16) by (simp add: loop_round_def KeepRunningOrShutdown_def)
qed

text \<open>A check on the parameters of a URL; of the two audited requests only the second has one.\<close>

definition param_check :: security_check where
  "param_check = GenericSecurityCheck \<lparr>st_name = None, st_issue_type = None, st_generator_rule = Some debug_rule,
     st_allow_serial_evaluation = None, st_matching_rule = None, st_advisory = None\<rparr> None"

definition audit_store :: data_store where
  "audit_store = (snd (AddRequest simple_lib default_flags
     (case Request_url simple_lib default_flags ''http://a.b/y'' of Inr r \<Rightarrow> r | Inl e \<Rightarrow> Request_empty) sample_store))
       \<lparr>ds_probe_queue := [], ds_audit_queue := [2, 1]\<rparr>"

definition audit_scan :: plusfish where
  "audit_scan = sample_scan\<lparr>pf_datastore := audit_store,
     pf_selective_auditor := Some (SelectiveAuditor\<lparr>sa_checks := [param_check]\<rparr>)\<rparr>"

definition quiet_flags :: flags where
  "quiet_flags = default_flags\<lparr>fl_enable_console_reporting := False\<rparr>"

theorem audits_left_behind_witness:
  "(\<exists>w'. loop_round simple_lib quiet_flags (idle_env 10) audit_scan = Inr (False, w') \<and>
     ds_audit_queue (pf_datastore w') = [1] \<and> pf_enabled w') \<and>
   fst (CreateRequests simple_lib quiet_flags param_check (the (GetRequestById 1 audit_store)) [])"
proof -
  let ?sa = "SelectiveAuditor\<lparr>sa_checks := [param_check]\<rparr>" and ?c = "client_Enable (CurlHttpClient 100)"
  have applies: "fst (CreateRequests simple_lib quiet_flags param_check (the (GetRequestById 1 audit_store)) [])"
    by code_simp
  have "GetRequestById 2 audit_store \<noteq> None" by code_simp
  then obtain req where req: "GetRequestById 2 audit_store = Some req" by auto
  have "(case ScheduleFirst simple_lib quiet_flags (audit_store\<lparr>ds_audit_queue := [1]\<rparr>) (the (GetRequestById 2 audit_store)) ?sa ?c of
      (ok, sa', c') \<Rightarrow> \<not> ok \<and> c' = ?c)" by code_simp
  then obtain sa' where sch: "ScheduleFirst simple_lib quiet_flags (audit_store\<lparr>ds_audit_queue := [1]\<rparr>) req ?sa ?c = (False, sa', ?c)"
    using req by (auto split: prod.splits)
  have queues: "ds_audit_queue audit_store = [2, 1]" "ds_probe_queue audit_store = []" "ds_crawl_queue audit_store = []"
    by code_simp+
  have w: "pf_selective_auditor audit_scan = Some ?sa" "pf_datastore audit_scan = audit_store" "pf_http_client audit_scan = ?c"
    "pf_objects_finder audit_scan = Some HiddenObjectsFinder" "pf_enabled audit_scan" "pf_shutdown_time audit_scan = 100"
    "pf_max_auditor_runners audit_scan = 10"
    by (simp_all add: audit_scan_def sample_scan_def SetShutdownTime_def Plusfish_def)
  have more_facts: "hc_schedule_queue ?c = []" "hc_running_handles ?c = []" "sa_runners ?sa = []"
    "hf_test_urls_queue HiddenObjectsFinder = []" "hf_pending_urls HiddenObjectsFinder = []"
    "\<not> fl_enable_console_reporting quiet_flags" "le_signals (idle_env 10) = []" "le_time (idle_env 10) = 10"
    by (simp_all add: client_Enable_def CurlHttpClient_def SelectiveAuditor_def HiddenObjectsFinder_def quiet_flags_def idle_env_def)
  from audits_left_behind [of audit_scan ?sa 2 1 "[]" req HiddenObjectsFinder simple_lib quiet_flags sa' "idle_env 10"]
  show ?thesis using applies req sch queues w more_facts by simp
qed

end
