(* ===== verification/Detection.thy ===== *)
theory Detection
  imports Routing
begin

text \<open>
  What becomes of an answer that shows a weakness, from the end of its transfer
  (\<open>CurlHttpClient::Poll\<close>) over the parser, the runner of the check and the matcher to the issue
  in the data store, and that the issue is still there whatever the scan does afterwards.
\<close>

section \<open>Issues are never lost\<close>

lemma AddRequest_issue_map [simp]:
  "ds_issue_per_id (snd (AddRequest L F req ds)) = ds_issue_per_id ds"
  by (simp add: AddRequest_def AddRequestToPivot_def AddRequestToIdMap_def AddRequestToProbeQueue_def
      put_request_def Let_def split_beta)

lemma AddIssueDetails_grows: "set (issues_at ds i t) \<subseteq> set (issues_at (snd (AddIssueDetails L F j iss ds)) i t)"
proof (cases "AddIssueDetails L F j iss ds")
  case (Pair ok ds')
  have c: "issues_at (d\<lparr>ds_check_issue_counters := x\<rparr>) = issues_at d" for d x
    by (intro ext) (simp add: issues_at_def)
  have p: "issues_at (put_request k r d) = issues_at d" "issues_at (count_severity s d) = issues_at d" for k r s d
    by (intro ext, simp add: issues_at_def)+
  show ?thesis
  proof (cases ok)
    case True
    with Pair AddIssueDetails_True [of L F j iss ds ds'] obtain req where
      "ds' = store_issue j iss (put_request j (request_AddIssue iss req)
        (count_severity (issue_severity_of iss) ((touch_issue_entry j (issue_type_of iss) ds)
          \<lparr>ds_check_issue_counters := counter_bumped (issue_type_of iss) ds\<rparr>)))" by auto
    then show ?thesis using Pair by (auto simp: issues_at_store c p)
  next
    case False
    then show ?thesis using Pair AddIssueDetails_False [of L F j iss ds ds'] by auto
  qed
qed

lemma ds_step_issues: "ds_step L F ds ds' \<Longrightarrow> set (issues_at ds i t) \<subseteq> set (issues_at ds' i t)"
proof (induction rule: ds_step.induct)
  case (issue ds j iss)
  show ?case by (rule AddIssueDetails_grows)
qed (auto simp: issues_at_def AddHost_def AddBlacklistRegex_def AddWhitelistRegex_def AddRequestMetadata_def
    AddResponseFingerprintToRequest_def AddFileNotFoundHtmlFingerprint_def put_request_def
    AddRequestToAuditQueue_def AddRequestToCrawlQueue_def AddRequestToProbeQueue_def GetRequestFromAuditQueue_def
    GetRequestFromCrawlQueue_def GetRequestFromProbeQueue_def Let_def and_then_eq_Inr split: list.splits option.splits if_splits)

lemma ds_steps_issues: "(ds_step L F)\<^sup>*\<^sup>* ds ds' \<Longrightarrow> set (issues_at ds i t) \<subseteq> set (issues_at ds' i t)"
  by (induction rule: rtranclp_induct) (use ds_step_issues in blast)+

lemma store_kept_issues:
  "store_kept L F ds ds' \<Longrightarrow> iss \<in> set (issues_at ds i t) \<Longrightarrow> iss \<in> set (issues_at ds' i t)"
  using ds_steps_issues unfolding store_kept_def by blast

section \<open>Filing an issue\<close>

text \<open>The three limits that make the store refuse an issue of a new kind.\<close>

definition issue_limit_reached :: "flags \<Rightarrow> data_store \<Rightarrow> request \<Rightarrow> int \<Rightarrow> issue_type \<Rightarrow> bool" where
  "issue_limit_reached F ds page i t \<longleftrightarrow>
     length (rq_issues page) = size_of_int (fl_max_issues_per_url F) \<or>
     length (issues_at ds i t) = size_of_int (fl_max_issues_per_check_per_url F) \<or>
     map_of (ds_check_issue_counters ds) t = Some (fl_max_issues_per_check F)"

lemma AddIssueDetails_filed:
  assumes "message_law L" "GetRequestById i ds = Some page" "\<not> issue_limit_reached F ds page i (issue_type_of iss)"
  shows "iss \<in> set (issues_at (snd (AddIssueDetails L F i iss ds)) i (issue_type_of iss))"
proof (cases "iss \<in> set (issues_at ds i (issue_type_of iss))")
  case True
  then show ?thesis using AddIssueDetails_grows by blast
next
  case False
  have "ds_check_issue_counters (touch_issue_entry i t ds) = ds_check_issue_counters ds" for t
    by (simp add: touch_issue_entry_def split: option.split)
  then have "\<exists>d. snd (AddIssueDetails L F i iss ds) = store_issue i iss d"
    using assms False
    by (auto simp: AddIssueDetails_def CheckAndUpdateIssueCounters_def issue_limit_reached_def message_law_def
        list_ex_iff Let_def split: option.split)
  then show ?thesis by (auto simp: issues_at_store)
qed

lemma runner_files_issue:
  assumes "message_law L" "CanEvaluateInSerial check" "EvaluateSingle L ds check (ru_requests ru ! k)"
    "GetRequestById (rq_parent_id (ru_requests ru ! k)) ds = Some page"
    "\<not> issue_limit_reached F ds page (rq_parent_id (ru_requests ru ! k)) (check_issue_type check)"
    "runner_RequestCallback L F check k ru ds = Inr (ru', ds')"
  shows "make_issue (check_issue_type check) (check_severity check) (ru_requests ru ! k)
     \<in> set (issues_at ds' (rq_parent_id (ru_requests ru ! k)) (check_issue_type check))"
proof -
  have t: "issue_type_of (make_issue t sev r) = t" for t sev r by (simp add: make_issue_def)
  show ?thesis using assms AddIssueDetails_filed [OF assms(1,4), of F "make_issue (check_issue_type check)
      (check_severity check) (ru_requests ru ! k)"]
    by (auto simp: runner_RequestCallback_def AddIssue_def Let_def t)
qed

lemma runner_callback_files:
  assumes "message_law L" "find_runner name w = Some ru" "pf_selective_auditor w = Some sa"
    "check = sa_checks sa ! ru_security_check ru" "req = ru_requests ru ! k"
    "CanEvaluateInSerial check" "EvaluateSingle L (pf_datastore w) check req"
    "GetRequestById (rq_parent_id req) (pf_datastore w) = Some page"
    "\<not> issue_limit_reached F (pf_datastore w) page (rq_parent_id req) (check_issue_type check)"
    "runner_callback L F name k w = Inr w'"
  shows "make_issue (check_issue_type check) (check_severity check) req
     \<in> set (issues_at (pf_datastore w') (rq_parent_id req) (check_issue_type check))"
proof -
  obtain ru1 ds1 where run: "runner_RequestCallback L F check k ru (pf_datastore w) = Inr (ru1, ds1)"
      and w': "pf_datastore w' = ds1 \<or> (\<exists>sa' c'. FinishedCheckCb L F
          (\<lambda>req ds. and_then (Scrape L F req ds) (\<lambda>(ok, ds'). Inr ds')) ru1 (put_runner ru1 sa) (pf_http_client w) ds1 =
          Inr (sa', c', pf_datastore w'))"
    using assms(2-4,10) by (auto simp: runner_callback_def and_then_eq_Inr split: if_splits)
  have "store_kept L F ds1 (pf_datastore w')" using w' FinishedCheckCb_kept by auto
  then show ?thesis using runner_files_issue [OF assms(1,6) _ _ _ run] assms(5,7-9) store_kept_issues by blast
qed

text \<open>In a later state the page is still there, and its own list has the issue.\<close>

lemma later_issue:
  assumes "message_law L" "scan_ok L F w" "scan_kept L F w w1" "scan_kept L F w1 w2"
    "GetRequestById i (pf_datastore w) = Some page" "iss \<in> set (issues_at (pf_datastore w1) i t)"
  shows "\<exists>page'. GetRequestById i (pf_datastore w2) = Some page' \<and> iss \<in> set (omap_get [] t (rq_issues page'))"
proof -
  have inv: "ds_inv (pf_datastore w)" "ds_inv (pf_datastore w2)"
    using assms(1,2,4) ds_reachable_inv unfolding scan_kept_def scan_ok_def by blast+
  have kept: "store_kept L F (pf_datastore w) (pf_datastore w2)" "store_kept L F (pf_datastore w1) (pf_datastore w2)"
    using assms(3,4) store_kept_trans unfolding scan_kept_def by blast+
  have "store_extends (pf_datastore w) (pf_datastore w2)" using kept(1) assms(1) inv(1) by (simp add: store_kept_def)
  then obtain page' where page': "GetRequestById i (pf_datastore w2) = Some page'"
    using assms(5) unfolding store_extends_def by blast
  have iss: "iss \<in> set (issues_at (pf_datastore w2) i t)" using store_kept_issues [OF kept(2) assms(6)] .
  have "omap_get [] t (rq_issues page') = issues_at (pf_datastore w2) i t"
    using inv(2) page' by (simp add: ds_inv_def issues_inv_def GetRequestById_def)
  then show ?thesis using page' iss by simp
qed

section \<open>The end of a transfer\<close>

text \<open>The request of a finished transfer with the address and the times \<open>Poll\<close> notes, and its response.\<close>

definition noted :: "flags \<Rightarrow> poll_message \<Rightarrow> request \<Rightarrow> request" where
  "noted F m req = snd (SetRequestTimestamps (pm_times m) (pm_now m)
     (if fl_http_proxy F = [] then (case pm_primary_ip m of Some ip \<Rightarrow> set_ip ip req | None \<Rightarrow> req) else req))"

definition answered :: "flags \<Rightarrow> poll_message \<Rightarrow> response \<Rightarrow> request \<Rightarrow> request" where
  "answered F m resp req = (noted F m req)\<lparr>rq_response := Some resp, rq_raw_response := []\<rparr>"

lemma noted_same: "rq_raw_response (noted F m req) = rq_raw_response req" "rq_handler (noted F m req) = rq_handler req"
  "rq_parent_id (noted F m req) = rq_parent_id req"
  by (simp_all add: noted_def SetRequestTimestamps_def set_ip_def split: option.split)

lemma finish_request_answered:
  assumes "rq_raw_response req \<noteq> []" "Parse L (rq_raw_response req) Response = Inr (True, resp)"
    "rq_handler req = Some h"
  shows "finish_request L F m ref req w =
     RequestCallback L F h ref (answered F m resp req) (put_ref ref (answered F m resp req) w)"
proof -
  have "DoneCb L (noted F m req) = Inr (answered F m resp req, Some h)"
    using assms by (simp add: DoneCb_def noted_same answered_def)
  then show ?thesis
    unfolding finish_request_def Let_def split_beta noted_def [symmetric] by simp
qed

lemma find_put_runner:
  assumes "find_runner name w = Some ru" "ru_name ru' = name" "pf_selective_auditor w = Some sa"
  shows "find_runner name (w\<lparr>pf_selective_auditor := Some (put_runner ru' sa)\<rparr>) = Some ru'"
proof -
  have "find (\<lambda>r. ru_name r = name) (map (\<lambda>r. if ru_name r = name then ru' else r) rs) =
      (if find (\<lambda>r. ru_name r = name) rs = None then None else Some ru')" for rs
    by (induction rs) (use assms(2) in auto)
  then show ?thesis using assms by (simp add: find_runner_def put_runner_def)
qed

section \<open>Properties\<close>

text \<open>
  C3: what a check detects is reported. Let the transfer of a test request end whose answer can
  be parsed, let the check of its runner be evaluated answer by answer, and let every condition of
  the check's rule hold for the answer. Then, unless a limit on issues was reached, the
  page under test has an issue of the check's type and severity with the test request and the answer, in
  every later state of the scan and so in the report.
\<close>

theorem detected_weakness_filed:
  assumes "message_law L" "ds_reachable L F (pf_datastore w0)" "parentless (pf_datastore w0)"
    "hosted (pf_datastore w0)" "fresh_scan w0" "(scan_step L F)\<^sup>*\<^sup>* w0 w"
    "process_message L F m w = Inr w1" "(scan_step L F)\<^sup>*\<^sup>* w1 w2"
    "pm_done m" "find_handle (pm_easy_handle m) (pf_http_client w) = Some h" "ch_request h = TestRequest name k"
    "deref w (TestRequest name k) = Some req"
    "rq_raw_response req \<noteq> []" "Parse L (rq_raw_response req) Response = Inr (True, resp)"
    "pf_selective_auditor w = Some sa" "find_runner name w = Some ru"
    "sa_checks sa ! ru_security_check ru = GenericSecurityCheck test (Some rm)"
    "Init L (GenericResponseMatcher rule) = (True, rm)" "st_allow_serial_evaluation test = Some True"
    "\<forall>c \<in> set (mr_condition rule). condition_holds L (meta_of (pf_datastore w)) (answered F m resp req) resp c"
    "GetRequestById (rq_parent_id req) (pf_datastore w) = Some page"
    "t = value_or INVALID (st_issue_type test)"
    "\<not> issue_limit_reached F (pf_datastore w) page (rq_parent_id req) t"
  shows "\<exists>page'. GetRequestById (rq_parent_id req) (pf_datastore w2) = Some page' \<and>
     make_issue t (advisory_severity test) (answered F m resp req) \<in> set (omap_get [] t (rq_issues page'))"
proof -
  let ?req = "answered F m resp req" and ?check = "GenericSecurityCheck test (Some rm)"
  let ?ru = "ru\<lparr>ru_requests := (ru_requests ru)[k := ?req]\<rparr>"
  let ?w = "w\<lparr>pf_selective_auditor := Some (put_runner ?ru sa)\<rparr>"
  have "scan_ok L F w0" using assms(2-5) by (simp add: scan_ok_def fresh_scan_def)
  then have ok: "scan_ok L F w" "well_routed w"
    using scan_steps_keep [OF assms(6,1)] fresh_scan_routed [OF assms(5)] scan_kept_ok by blast+
  have k: "k < length (ru_requests ru)" "ru_requests ru ! k = req" and name: "ru_name ru = name"
    using assms(12,16) find_runner_mem [OF assms(16)] by (auto split: if_splits)
  have "rq_handler req = Some (RunnerHandler name)"
    using routed_runner [OF ok(2)] find_runner_mem [OF assms(16)] k by (auto simp: runner_ok_def)
  then have step: "finish_request L F m (TestRequest name k) req w =
      RequestCallback L F (RunnerHandler name) (TestRequest name k) ?req (put_ref (TestRequest name k) ?req w)"
    using finish_request_answered [OF assms(13,14)] by simp
  have put: "put_ref (TestRequest name k) ?req w = ?w" using assms(15,16) by simp
  have found: "find_runner name ?w = Some ?ru" using find_put_runner [OF assms(16) _ assms(15), of ?ru] name by simp
  obtain w' where w': "runner_callback L F name k ?w = Inr w'" "pf_datastore w1 = pf_datastore w'"
    using assms(7,9-12) step put by (auto simp: process_message_def RequestCallback_def and_then_eq_Inr)
  have "EvaluateSingle L (pf_datastore w) ?check ?req"
    using MatchSingle_conditions [OF assms(18)] assms(20) by (simp add: EvaluateSingle_def answered_def)
  then have "make_issue t (advisory_severity test) ?req \<in> set (issues_at (pf_datastore w1) (rq_parent_id req) t)"
    using runner_callback_files [OF assms(1) found _ _ _ _ _ _ _ w'(1), of _ ?check ?req page] assms(17,19,21-23) k w'(2)
    by (simp add: CanEvaluateInSerial_def check_issue_type_def check_severity_def put_runner_def answered_def noted_same)
  moreover have "scan_kept L F w w1" "scan_kept L F w1 w2"
    using scan_step_keeps [OF scan_step.message [OF assms(7)] assms(1) ok] scan_steps_keep [OF assms(8,1)] scan_kept_ok
    by blast+
  ultimately show ?thesis using later_issue [OF assms(1) ok(1) _ _ assms(21)] by blast
qed

text \<open>For concrete runs: an answer that arrives in one piece on the first handle.\<close>

definition delivered_to :: "req_ref \<Rightarrow> string \<Rightarrow> plusfish \<Rightarrow> plusfish result" where
  "delivered_to ref answer w = (case (find_handle 0 (pf_http_client w), deref w ref) of
     (Some h, Some req) \<Rightarrow>
       if ch_request h = ref \<and> rq_raw_response req = [] then Inr (put_ref ref (ResponseCb answer req) w)
       else Inl NullPointer
   | _ \<Rightarrow> Inl NullPointer)"

lemma delivered_to_step:
  assumes "delivered_to ref answer w = Inr w'" "length answer < 2 ^ 31"
  shows "deliver default_flags \<lparr>dl_easy_handle = 0, dl_buffer = answer, dl_size = 1, dl_multiplier = length answer\<rparr> w = Inr w'"
proof -
  have "CurlCallback default_flags answer 1 (length answer) req = Inr (length answer, ResponseCb answer req)"
    if "rq_raw_response req = []" for req
    using that assms(2) by (simp add: CurlCallback_def default_flags_def size_t_max_def size_of_int_def)
  then show ?thesis using assms(1)
    by (auto simp: delivered_to_def deliver_def split: option.splits if_splits)
qed

text \<open>A check for database errors, on one page with a parameter.\<close>

definition sql_test :: security_test where
  "sql_test = \<lparr>st_name = None, st_issue_type = Some SQL_INJECTION, st_generator_rule = Some debug_rule,
     st_allow_serial_evaluation = Some True, st_matching_rule = Some sql_rule, st_advisory = None\<rparr>"

definition sql_check :: security_check where
  "sql_check = GenericSecurityCheck sql_test (Some (snd (Init simple_lib (GenericResponseMatcher sql_rule))))"

definition sql_scan :: plusfish where
  "sql_scan = sample_scan\<lparr>pf_datastore := DataStore,
     pf_selective_auditor := Some (SelectiveAuditor\<lparr>sa_checks := [sql_check]\<rparr>)\<rparr>"

text \<open>The page is in the audit queue; its check is scheduled, started, and answered with an error.\<close>

definition audited :: "plusfish \<Rightarrow> plusfish" where
  "audited w = w\<lparr>pf_datastore := AddRequestToAuditQueue 1 (pf_datastore w)\<rparr>"

definition sql_answer :: string where
  "sql_answer = ''HTTP/1.1 200 OK'' @ [CR, LF, CR, LF] @ ''your SQL syntax''"

definition sql_done :: poll_message where
  "sql_done = \<lparr>pm_done = True, pm_easy_handle = 0, pm_primary_ip = None, pm_times = None, pm_now = 0\<rparr>"

definition sql_started :: "plusfish \<Rightarrow> plusfish result" where
  "sql_started w0 =
     and_then (audit_next simple_lib default_flags w0) (\<lambda>w1.
     and_then (StartNewRequests default_flags (deref w1) demo_env (pf_http_client w1)) (\<lambda>(ok, c, ds).
     Inr (w1\<lparr>pf_http_client := c\<rparr>)))"

definition sql_response :: response where
  "sql_response = (case Parse simple_lib (sql_answer) Response of Inl e \<Rightarrow> Response | Inr (ok, r) \<Rightarrow> r)"

text \<open>The hypotheses on the state in which the transfer ends.\<close>

definition sql_ready :: "plusfish \<Rightarrow> bool" where
  "sql_ready w \<longleftrightarrow> (case (find_handle 0 (pf_http_client w), deref w (TestRequest 0 0), pf_selective_auditor w,
       find_runner 0 w, GetRequestById 1 (pf_datastore w)) of
     (Some h, Some req, Some sa, Some ru, Some page) \<Rightarrow>
       ch_request h = TestRequest 0 0 \<and> rq_raw_response req = sql_answer \<and> rq_parent_id req = 1 \<and>
       sa_checks sa ! ru_security_check ru = sql_check \<and>
       \<not> issue_limit_reached default_flags (pf_datastore w) page 1 SQL_INJECTION \<and>
       list_all (condition_holds simple_lib (meta_of (pf_datastore w)) (answered default_flags sql_done sql_response req)
         sql_response) (mr_condition sql_rule) \<and>
       \<not> isl (process_message simple_lib default_flags sql_done w)
   | _ \<Rightarrow> False)"

lemma sql_started_steps:
  "sql_started w = Inr w' \<Longrightarrow> scan_steps simple_lib default_flags w w'"
  by (auto simp: sql_started_def and_then_eq_Inr intro: scan_step.audit scan_step.start
      intro!: rtranclp_trans [OF r_into_rtranclp r_into_rtranclp])

lemma sql_answer_length: "length sql_answer < 2 ^ 31"
  by (simp add: sql_answer_def)

lemma sql_response_parsed: "Parse simple_lib (sql_answer) Response = Inr (True, sql_response)"
proof -
  have "(case Parse simple_lib (sql_answer) Response of Inl e \<Rightarrow> False | Inr (ok, r) \<Rightarrow> ok)" by code_simp
  then show ?thesis by (auto simp: sql_response_def split: sum.splits)
qed

lemma audited_start:
  assumes "AddURL simple_lib default_flags url sql_scan = Inr (ok, w)" "GetRequestById 1 (pf_datastore w) \<noteq> None"
  shows "ds_reachable simple_lib default_flags (pf_datastore (audited w)) \<and> parentless (pf_datastore (audited w)) \<and>
     hosted (pf_datastore (audited w))"
proof -
  have "store_kept simple_lib default_flags DataStore (pf_datastore w)"
    using AddURL_kept [OF assms(1)] by (simp add: sql_scan_def)
  moreover have "store_kept simple_lib default_flags (pf_datastore w) (AddRequestToAuditQueue 1 (pf_datastore w))"
    using assms(2) audit_push_kept by blast
  ultimately have "store_kept simple_lib default_flags DataStore (pf_datastore (audited w))"
    unfolding audited_def by (simp add: store_kept_trans)
  moreover have "parentless DataStore" "hosted DataStore"
    by (simp_all add: parentless_def hosted_def DataStore_def GetRequestById_def)
  ultimately show ?thesis using ds_steps_reachable [OF _ ds_reachable.init] by (auto simp: store_kept_def)
qed

theorem detected_weakness_filed_witness:
  "\<exists>w w1 page. process_message simple_lib default_flags sql_done w = Inr w1 \<and>
     GetRequestById 1 (pf_datastore w1) = Some page \<and>
     (\<exists>iss \<in> set (omap_get [] SQL_INJECTION (rq_issues page)). is_severity iss = Some MODERATE)"
proof -
  let ?a = "AddURL simple_lib default_flags ''http://a.b/x?y=1'' sql_scan"
  have run: "case ?a of Inl e \<Rightarrow> False | Inr (ok, wa) \<Rightarrow> ok \<and> GetRequestById 1 (pf_datastore wa) \<noteq> None \<and>
      (case sql_started (audited wa) of Inl e \<Rightarrow> False
       | Inr w2 \<Rightarrow> (case delivered_to (TestRequest 0 0) sql_answer w2 of Inl e \<Rightarrow> False | Inr w \<Rightarrow> sql_ready w))" by code_simp
  have "\<exists>wa w2 w. ?a = Inr (True, wa) \<and> GetRequestById 1 (pf_datastore wa) \<noteq> None \<and>
      sql_started (audited wa) = Inr w2 \<and> delivered_to (TestRequest 0 0) sql_answer w2 = Inr w \<and> sql_ready w"
  proof (cases ?a)
    case (Inr p)
    obtain ok wa where p: "p = (ok, wa)" by force
    show ?thesis using run unfolding Inr p
      by (cases "sql_started (audited wa)"; cases "delivered_to (TestRequest 0 0) sql_answer (projr (sql_started (audited wa)))") auto
  qed (use run in simp)
  then obtain wa w2 w where wa: "?a = Inr (True, wa)" and stored: "GetRequestById 1 (pf_datastore wa) \<noteq> None" and w2: "sql_started (audited wa) = Inr w2"
      and w: "delivered_to (TestRequest 0 0) sql_answer w2 = Inr w" and ready: "sql_ready w" by blast
  have fresh: "fresh_scan (audited wa)"
    using AddURL_kept [OF wa]
    by (simp add: fresh_scan_def audited_def sql_scan_def sample_scan_def SetShutdownTime_def Plusfish_def client_Enable_def
        CurlHttpClient_def NotFoundDetector_def finder_requests_def HiddenObjectsFinder_def runners_def SelectiveAuditor_def)
  have start: "ds_reachable simple_lib default_flags (pf_datastore (audited wa))" "parentless (pf_datastore (audited wa))"
    "hosted (pf_datastore (audited wa))"
    using audited_start [OF wa stored] by blast+
  have steps: "scan_steps simple_lib default_flags (audited wa) w"
    using sql_started_steps [OF w2] scan_step.delivered [OF delivered_to_step [OF w sql_answer_length]] by (rule rtranclp.rtrancl_into_rtrancl)
  obtain h req sa ru page where
      h: "find_handle 0 (pf_http_client w) = Some h" "ch_request h = TestRequest 0 0"
      and req: "deref w (TestRequest 0 0) = Some req" "rq_raw_response req = sql_answer" "rq_parent_id req = 1"
      and sa: "pf_selective_auditor w = Some sa" "find_runner 0 w = Some ru" "sa_checks sa ! ru_security_check ru = sql_check"
      and page: "GetRequestById 1 (pf_datastore w) = Some page"
        "\<not> issue_limit_reached default_flags (pf_datastore w) page 1 SQL_INJECTION"
      and holds: "\<forall>c \<in> set (mr_condition sql_rule). condition_holds simple_lib (meta_of (pf_datastore w))
        (answered default_flags sql_done sql_response req) sql_response c"
      and ends: "\<not> isl (process_message simple_lib default_flags sql_done w)"
    using ready by (auto simp: sql_ready_def list_all_iff split: option.splits)
  obtain w1 where w1: "process_message simple_lib default_flags sql_done w = Inr w1"
    using ends by (cases "process_message simple_lib default_flags sql_done w") auto
  have parsed: "Parse simple_lib (sql_answer) Response = Inr (True, sql_response)"
    by (rule sql_response_parsed)
  have "fst (Init simple_lib (GenericResponseMatcher sql_rule))" by code_simp
  then have init: "Init simple_lib (GenericResponseMatcher sql_rule) =
      (True, snd (Init simple_lib (GenericResponseMatcher sql_rule)))" by (metis (full_types) prod.collapse)
  have sql: "sql_check = GenericSecurityCheck sql_test (Some (snd (Init simple_lib (GenericResponseMatcher sql_rule))))"
    by (simp add: sql_check_def)
  have "\<exists>page'. GetRequestById (rq_parent_id req) (pf_datastore w1) = Some page' \<and>
      make_issue SQL_INJECTION (advisory_severity sql_test) (answered default_flags sql_done sql_response req) \<in>
        set (omap_get [] SQL_INJECTION (rq_issues page'))"
    using detected_weakness_filed [OF message_law_simple start fresh steps w1 rtranclp.rtrancl_refl _ _ h(2) req(1) _ _
        sa(1,2) sa(3) [unfolded sql] init _ holds] h(1) req(2,3) parsed page
    by (simp add: sql_done_def sql_test_def sql_answer_def)
  moreover have "is_severity (make_issue SQL_INJECTION (advisory_severity sql_test) r) = Some MODERATE" for r
    by (simp add: make_issue_def advisory_severity_def sql_test_def)
  ultimately show ?thesis using w1 req(3) by (intro exI [of _ w] exI [of _ w1]) (auto intro: bexI)
qed

end
