(* ===== verification/Crawl_Coverage.thy ===== *)
theory Crawl_Coverage
  imports Detection Scan_Progress
begin

text \<open>
  What becomes of the links of a page, from the end of its transfer over the crawler and the
  scraper to the data store, and of the requests made of them in the rest of the scan.
\<close>

section \<open>Stored requests are never lost\<close>

text \<open>A stored request stays stored, and what it is compared by never changes.\<close>

definition has_request :: "data_store \<Rightarrow> int \<Rightarrow> request \<Rightarrow> bool" where
  "has_request ds i r \<longleftrightarrow> (\<exists>r'. GetRequestById i ds = Some r' \<and> request_key r' = request_key r)"

lemma has_request_put:
  "has_request ds i r \<Longrightarrow> GetRequestById j ds = Some q \<Longrightarrow> request_key q' = request_key q \<Longrightarrow>
     has_request (put_request j q' ds) i r"
  by (auto simp: has_request_def GetRequestById_def)

lemma AddRequest_cases:
  "AddRequest L F req ds = (i, ds') \<Longrightarrow>
     (if in_scope L req ds \<and> pivot_takes F req ds
      then i = ds_request_id ds + 1 \<and> store_of ds' = (store_of ds)(i \<mapsto> req\<lparr>rq_id := i\<rparr>)
      else store_of ds' = store_of ds)"
  by (auto simp: pivot_takes_def AddRequest_scope AddRequestToPivot_alt AddRequestToIdMap_alt Let_def
      split_beta fun_eq_iff split: if_splits)

lemma has_request_step:
  assumes "ds_step L F ds ds'" "message_law L" "ds_inv ds" "has_request ds i r"
  shows "has_request ds' i r"
  using assms(1)
proof cases
  case (request req)
  obtain j d where add: "AddRequest L F req ds = (j, d)" by force
  have "store_of ds (ds_request_id ds + 1) = None" using assms(3) new_id_fresh by (simp add: ds_inv_def)
  then have "i \<noteq> ds_request_id ds + 1" using assms(4) by (auto simp: has_request_def GetRequestById_def)
  then show ?thesis using AddRequest_cases [OF add] add assms(4) request(1)
    by (auto simp: has_request_def GetRequestById_def split: if_splits)
next
  case (issue j iss)
  obtain ok d where add: "AddIssueDetails L F j iss ds = (ok, d)" by force
  have "request_key (request_AddIssue iss q) = request_key q" for q by (simp add: request_AddIssue_def request_key_def)
  then show ?thesis using AddIssueDetails_store [OF add] add assms(4) issue
    by (auto simp: has_request_def GetRequestById_def)
next
  case (fingerprint j fp ok)
  then show ?thesis using assms(4) set_response_html_fingerprint_identity
    by (auto simp: AddResponseFingerprintToRequest_def and_then_eq_Inr same_identity_def split: option.splits
        intro!: has_request_put)
next
  case (update j q q')
  then show ?thesis using assms(4) has_request_put by (simp add: same_identity_def)
qed (use assms(4) in \<open>auto simp: has_request_def GetRequestById_def AddHost_def AddBlacklistRegex_def AddWhitelistRegex_def
    AddRequestMetadata_def AddFileNotFoundHtmlFingerprint_def AddRequestToAuditQueue_def AddRequestToCrawlQueue_def
    AddRequestToProbeQueue_def GetRequestFromAuditQueue_def GetRequestFromCrawlQueue_def GetRequestFromProbeQueue_def
    Let_def split: list.splits\<close>)

lemma has_request_kept:
  assumes "store_kept L F ds ds'" "message_law L" "ds_inv ds" "has_request ds i r"
  shows "has_request ds' i r"
proof -
  have "(ds_step L F)\<^sup>*\<^sup>* ds ds'" using assms(1) by (simp add: store_kept_def)
  then have "ds_inv ds' \<and> has_request ds' i r"
    by (induction rule: rtranclp_induct) (use assms(2-4) ds_step_inv has_request_step in blast)+
  then show ?thesis by simp
qed

section \<open>When the site tree refuses a request\<close>

text \<open>
  The limits of the tree on the path of a request: a pivot on it has no room for the next child,
  or the last one has all the samples it takes.
\<close>

fun full_on_path :: "flags \<Rightarrow> string list \<Rightarrow> pivot \<Rightarrow> bool" where
  "full_on_path F [] p \<longleftrightarrow> size_of_int (pv_template_limit p) \<le> length (pv_samples p)"
| "full_on_path F (v # vs) p \<longleftrightarrow> (case GetChildPivot v p of
     Some c \<Rightarrow> full_on_path F vs c
   | None \<Rightarrow> size_of_int (pv_child_limit p) \<le> length (pv_children p) \<or> full_on_path F vs (Pivot_name F v))"

definition site_full :: "flags \<Rightarrow> request \<Rightarrow> data_store \<Rightarrow> bool" where
  "site_full F r ds \<longleftrightarrow> full_on_path F (map field_value (hr_path (rq_proto r)))
     (omap_get (Pivot_name F (host r)) (host r) (ds_site_pivots ds))"

lemma pivot_ids_child:
  assumes "GetChildPivot v p = Some c"
  shows "set (pivot_ids c) \<subseteq> set (pivot_ids p)"
proof -
  obtain tlim clim n cs ss where p: "p = Pivot tlim clim n cs ss" by (cases p)
  then have "(v, c) \<in> set cs" using assms by (auto simp: GetChildPivot_def dest: map_of_SomeD)
  then show ?thesis unfolding p by force
qed

lemma add_at_path_refused:
  "\<not> fst (add_at_path F st n req vs p) \<Longrightarrow> full_on_path F vs p \<or> (\<exists>i \<in> set (pivot_ids p). sample_Equals st req i)"
proof (induction vs arbitrary: p)
  case Nil
  then show ?case by (cases p) (auto simp: pivot_AddRequest_def list_ex_iff split: if_splits)
next
  case (Cons v vs)
  show ?case
  proof (cases "GetChildPivot v p")
    case None
    then show ?thesis using Cons.IH [of "Pivot_name F v"] Cons.prems
      by (auto simp: add_at_path_new split_beta Let_def simp del: add_at_path.simps split: if_splits)
  next
    case (Some c)
    then show ?thesis using Cons.IH [of c] Cons.prems pivot_ids_child [OF Some]
      by (auto simp: add_at_path_old split_beta Let_def simp del: add_at_path.simps)
  qed
qed

text \<open>A request is known when a stored one agrees with it in all that requests are compared by, or is equal.\<close>

definition known :: "data_store \<Rightarrow> int \<Rightarrow> request \<Rightarrow> bool" where
  "known ds i r \<longleftrightarrow> (\<exists>r'. GetRequestById i ds = Some r' \<and> (request_key r' = request_key r \<or> request_Equals r' r))"

lemma known_kept:
  assumes "store_kept L F ds ds'" "message_law L" "ds_inv ds" "known ds i r"
  shows "known ds' i r"
proof -
  obtain r' where r': "GetRequestById i ds = Some r'" "request_key r' = request_key r \<or> request_Equals r' r"
    using assms(4) by (auto simp: known_def)
  then have "has_request ds i r'" by (simp add: has_request_def)
  from has_request_kept [OF assms(1-3) this] obtain r'' where
    r'': "GetRequestById i ds' = Some r''" "request_key r'' = request_key r'" by (auto simp: has_request_def)
  then show ?thesis using r'(2) request_Equals_key [OF r''(2), of r r] by (auto simp: known_def)
qed

lemma AddRequest_known:
  assumes "AddRequest L F r ds = (j, ds')" "in_scope L r ds" "\<not> site_full F r ds"
  shows "\<exists>i. known ds' i r"
proof (cases "pivot_takes F r ds")
  case True
  then show ?thesis using AddRequest_cases [OF assms(1)] assms(2)
    by (auto simp: known_def GetRequestById_def request_key_def)
next
  case False
  then obtain i where "sample_Equals (store_of ds) r i"
    using add_at_path_refused assms(3) unfolding pivot_takes_def site_full_def by blast
  then show ?thesis using AddRequest_cases [OF assms(1)] False
    by (auto simp: known_def sample_Equals_def GetRequestById_def split: option.splits)
qed

section \<open>The scope of a scan during a callback\<close>

definition same_scope :: "data_store \<Rightarrow> data_store \<Rightarrow> bool" where
  "same_scope ds ds' \<longleftrightarrow> ds_allowed_hosts ds' = ds_allowed_hosts ds \<and>
     ds_url_whitelist_regexes ds' = ds_url_whitelist_regexes ds \<and>
     ds_url_blacklist_regexes ds' = ds_url_blacklist_regexes ds"

lemma same_scope_refl [simp]: "same_scope ds ds"
  by (simp add: same_scope_def)

lemma same_scope_trans: "same_scope ds1 ds2 \<Longrightarrow> same_scope ds2 ds3 \<Longrightarrow> same_scope ds1 ds3"
  by (simp add: same_scope_def)

lemma same_scope_in: "same_scope ds ds' \<Longrightarrow> in_scope L r ds' = in_scope L r ds"
  by (simp add: same_scope_def in_scope_def)

lemma same_scope_AddRequest: "same_scope ds (snd (AddRequest L F req ds))"
  by (simp add: AddRequest_scope AddRequestToPivot_alt AddRequestToIdMap_alt same_scope_def Let_def split_beta)

lemma same_scope_put: "same_scope ds (put_request i r ds)"
  by (simp add: same_scope_def put_request_def)

lemma same_scope_AddIssueDetails: "same_scope ds (snd (AddIssueDetails L F i iss ds))"
  by (auto simp: same_scope_def AddIssueDetails_def CheckAndUpdateIssueCounters_def count_severity_def store_issue_def
      put_request_def touch_issue_entry_def Let_def split: option.split)

lemma same_scope_AddIssue: "same_scope ds (snd (AddIssue L F i t sev req ds))"
  by (simp add: AddIssue_def same_scope_AddIssueDetails)

lemma same_scope_Check: "same_scope ds (snd (Check L F pa req ds))"
proof -
  have "same_scope d (fold (\<lambda>(rm, test) ds. if MatchSingle L (meta_of ds) rm req
      then snd (AddIssue L F (rq_id req) (value_or INVALID (st_issue_type test)) (advisory_severity test) req ds)
      else ds) pa d)" for d
  proof (induction pa arbitrary: d)
    case (Cons x xs)
    then show ?case using same_scope_trans [OF same_scope_AddIssue Cons.IH] Cons.IH by (simp add: split_beta)
  qed simp
  then show ?thesis by (simp add: Check_def)
qed

lemma same_scope_fingerprint:
  "AddResponseFingerprintToRequest i fp ds = Inr (ok, ds') \<Longrightarrow> same_scope ds ds'"
  by (auto simp: AddResponseFingerprintToRequest_def and_then_eq_Inr same_scope_put split: option.splits)

section \<open>Links are offered to the store\<close>

text \<open>
  The request is given to \<open>AddRequest\<close> in a state between \<open>ds\<close> and \<open>ds'\<close>, with the scope of \<open>ds\<close>.
\<close>

definition offered :: "externals \<Rightarrow> flags \<Rightarrow> request \<Rightarrow> data_store \<Rightarrow> data_store \<Rightarrow> bool" where
  "offered L F r ds ds' \<longleftrightarrow>
     (\<exists>d. store_kept L F ds d \<and> same_scope ds d \<and> store_kept L F (snd (AddRequest L F r d)) ds')"

lemma offered_before: "store_kept L F ds0 ds \<Longrightarrow> same_scope ds0 ds \<Longrightarrow> offered L F r ds ds' \<Longrightarrow> offered L F r ds0 ds'"
  unfolding offered_def using store_kept_trans same_scope_trans by blast

lemma offered_after: "offered L F r ds ds' \<Longrightarrow> store_kept L F ds' ds'' \<Longrightarrow> offered L F r ds ds''"
  unfolding offered_def using store_kept_trans by blast

lemma offered_MaybeAddURL:
  assumes "MaybeAddURL L F ref url ds = Inr (ok, ds')"
  shows "\<exists>r. Request_ref L F url (Some ref) = Inr r \<and> offered L F r ds ds'" "same_scope ds ds'"
proof -
  obtain r where "Request_ref L F url (Some ref) = Inr r" "ds' = snd (AddRequest L F r ds)"
    using assms by (auto simp: MaybeAddURL_def and_then_eq_Inr Let_def split_beta)
  then show "\<exists>r. Request_ref L F url (Some ref) = Inr r \<and> offered L F r ds ds'" "same_scope ds ds'"
    using same_scope_AddRequest by (auto simp: offered_def intro: exI [of _ ds])
qed

lemma offered_anchors:
  "add_anchors L F ref anchors ds = Inr ds' \<Longrightarrow> a \<in> set anchors \<Longrightarrow>
     \<exists>r. Request_ref L F a (Some ref) = Inr r \<and> offered L F r ds ds'"
proof (induction anchors arbitrary: ds)
  case (Cons x xs)
  then obtain ok ds1 where x: "MaybeAddURL L F ref x ds = Inr (ok, ds1)" and xs: "add_anchors L F ref xs ds1 = Inr ds'"
    by (auto simp: add_anchors_def and_then_eq_Inr)
  have kept: "store_kept L F ds ds1" "store_kept L F ds1 ds'"
    using crawled_kept crawled_MaybeAddURL [OF x] crawled_add_anchors [OF xs] by blast+
  show ?case
  proof (cases "a = x")
    case True
    then show ?thesis using offered_MaybeAddURL(1) [OF x] offered_after kept(2) by blast
  next
    case False
    then have "a \<in> set xs" using Cons.prems(2) by simp
    from Cons.IH [OF xs this] show ?thesis using offered_before [OF kept(1) offered_MaybeAddURL(2) [OF x]] by blast
  qed
qed simp

lemma offered_ScrapeWithLinks:
  assumes "ScrapeWithLinks L F req ds = Inr (scraped, ds')" "rq_response req = Some resp" "fl_extract_links F"
    "sniffed_mime resp = ASC_HTML \<or> sniffed_mime resp = XML_XHTML"
    "scraper_Parse L F req (resp_body (rs_http_response resp)) HtmlScraper = Inr (True, hs)" "a \<in> set (hs_anchors hs)"
  shows "\<exists>r. Request_ref L F a (Some req) = Inr r \<and> offered L F r ds ds'"
proof -
  let ?body = "resp_body (rs_http_response resp)"
  obtain ds1 where ds1: "scrape_html L F req ?body True True ds = Inr (True, ds1)" and ds': "store_kept L F ds1 ds'"
  proof -
    obtain b ds1 where s: "scrape_html L F req ?body True True ds = Inr (b, ds1)"
      using assms(1-4) by (auto simp: ScrapeWithLinks_def ScrapeRequest_def Let_def and_then_eq_Inr split: if_splits)
    moreover from this have "b" using assms(5) by (auto simp: scrape_html_def and_then_eq_Inr)
    moreover have "store_kept L F ds1 ds'"
      using assms(1-4) s \<open>b\<close> crawled_kept [OF crawled_MaybeAddURL]
      by (auto simp: ScrapeWithLinks_def ScrapeRequest_def Let_def and_then_eq_Inr split: if_splits option.splits)
    ultimately show ?thesis using that by simp
  qed
  obtain stored ds2 ds3 where
      ds2: "AddResponseFingerprintToRequest (rq_id req) (value_or HtmlFingerprint (hs_fingerprint hs)) ds = Inr (stored, ds2)"
      and ds3: "add_anchors L F req (hs_anchors hs) ds2 = Inr ds3"
      and last: "ds1 = add_page_issues L F req (hs_issues hs) (add_form_requests L F (hs_requests hs) ds3)"
    using ds1 assms(5) by (auto simp: scrape_html_def and_then_eq_Inr)
  have "crawled L F ds3 (add_form_requests L F (hs_requests hs) ds3)"
    using scraper_Parse_ok [OF assms(5)] by (intro crawled_form_requests) simp
  then have "store_kept L F ds3 ds'"
    using crawled_kept crawled_trans crawled_page_issues ds' store_kept_trans unfolding last by metis
  moreover have "store_kept L F ds ds2" "same_scope ds ds2"
    using crawled_kept [OF crawled_fingerprint [OF ds2]] same_scope_fingerprint [OF ds2] .
  ultimately show ?thesis using offered_anchors [OF ds3 assms(6)] offered_before offered_after by blast
qed

lemma offered_crawler:
  assumes "crawler_RequestCallback L F cr i ds = Inr (n, ds')" "GetRequestById i ds = Some req"
    "rq_response req = Some resp" "\<not> crawler_loop req resp ds" "fl_extract_links F"
    "sniffed_mime resp = ASC_HTML \<or> sniffed_mime resp = XML_XHTML"
    "scraper_Parse L F req (resp_body (rs_http_response resp)) HtmlScraper = Inr (True, hs)" "a \<in> set (hs_anchors hs)"
  shows "\<exists>r. Request_ref L F a (Some req) = Inr r \<and> offered L F r ds ds'"
proof -
  define ds1 where "ds1 = (case cr_passive_auditor cr of None \<Rightarrow> ds | Some pa \<Rightarrow> snd (Check L F pa req ds))"
  define ds2 where "ds2 = (if audits cr resp ds1 then AddRequestToAuditQueue i ds1 else ds1)"
  obtain scraped ds3 where ds3: "ScrapeWithLinks L F req ds2 = Inr (scraped, ds3)" "maybe_truncate F i resp ds3 = Inr ds'"
    using assms(1-4)
    by (auto simp: crawler_RequestCallback_def Let_def and_then_eq_Inr ds1_def [symmetric] ds2_def [symmetric])
  have ds1: "crawled L F ds ds1" "same_scope ds ds1"
    by (auto simp: ds1_def crawled_Check same_scope_Check split: option.split)
  then have "store_kept L F ds ds1" "GetRequestById i ds1 \<noteq> None" using assms(2) by (simp_all add: crawled_def)
  then have "store_kept L F ds ds2" using audit_push_kept store_kept_trans by (auto simp: ds2_def)
  moreover have "same_scope ds ds2" using ds1(2) by (simp add: ds2_def same_scope_def AddRequestToAuditQueue_def)
  ultimately show ?thesis
    using offered_ScrapeWithLinks [OF ds3(1) assms(3,5-8)] offered_before offered_after
      crawled_kept [OF crawled_truncate [OF ds3(2)]] by blast
qed

text \<open>An offered request that is in scope and that the tree has room for is known and stays known.\<close>

lemma offered_known:
  assumes "offered L F r ds ds'" "store_kept L F ds' ds''" "message_law L" "ds_inv ds" "in_scope L r ds"
    "fresh_request r"
  shows "(\<exists>d. store_kept L F ds d \<and> store_kept L F d ds' \<and> site_full F r d) \<or> (\<exists>j. known ds'' j r)"
proof -
  obtain d where d: "store_kept L F ds d" "same_scope ds d" "store_kept L F (snd (AddRequest L F r d)) ds'"
    using assms(1) by (auto simp: offered_def)
  obtain j d' where add: "AddRequest L F r d = (j, d')" by force
  have step: "store_kept L F d d'" using crawled_kept [OF crawled_AddRequest_fresh [OF assms(6)], of L F d] add by simp
  have inv: "ds_inv d'" using ds_steps_inv [of L F ds d'] d(1) step assms(3,4) store_kept_trans
    unfolding store_kept_def by (meson rtranclp_trans)
  show ?thesis
  proof (cases "site_full F r d")
    case True
    then show ?thesis using step d(1,3) add store_kept_trans by (metis snd_conv)
  next
    case False
    then obtain i where "known d' i r" using AddRequest_known [OF add] same_scope_in [OF d(2)] assms(5) by blast
    moreover have "store_kept L F d' ds''" using d(3) assms(2) add store_kept_trans by simp
    ultimately show ?thesis using known_kept assms(3) inv by blast
  qed
qed

text \<open>The end of a transfer of a stored request is a call of the crawler.\<close>

lemma same_request_answered: "same_request req (answered F m resp req)"
  by (simp add: answered_def noted_def SetRequestTimestamps_def set_ip_def same_request_simps split: option.split)

lemma crawler_transfer:
  assumes "well_routed w" "process_message L F m w = Inr w1" "pm_done m"
    "find_handle (pm_easy_handle m) (pf_http_client w) = Some h" "ch_request h = StoredRequest i"
    "deref w (StoredRequest i) = Some req" "rq_raw_response req \<noteq> []"
    "Parse L (rq_raw_response req) Response = Inr (True, resp)" "page = answered F m resp req" "rq_id req = i"
  shows "\<exists>n. crawler_RequestCallback L F (pf_crawler w) i (put_request i page (pf_datastore w)) = Inr (n, pf_datastore w1)"
proof -
  have "h \<in> set (hc_running_handles (pf_http_client w))" using assms(4) by (auto simp: find_handle_def find_Some_iff)
  then have "StoredRequest i \<in># pending (pf_http_client w)" using assms(5) by (force simp: pending_def)
  then have "rq_handler req = Some CrawlerHandler" using assms(1,6) by (auto simp: routed_def)
  from finish_request_answered [OF assms(7,8) this]
  have "finish_request L F m (StoredRequest i) req w =
      RequestCallback L F CrawlerHandler (StoredRequest i) page (put_ref (StoredRequest i) page w)" using assms(9) by simp
  moreover have "rq_id page = i" using same_request_answered [of req F m resp] assms(9,10) by (simp add: same_request_def)
  ultimately show ?thesis using assms(2-6)
    by (auto simp: process_message_def RequestCallback_def and_then_eq_Inr)
qed

section \<open>Properties\<close>

text \<open>
  C5: links are followed. With \<open>--extract_links\<close>, when the transfer of a stored request ends with an
  HTML or XHTML page that parses, then for every link of the page that is in scope there is, in
  every later state of the scan, a stored request that is the link's or equal to it and that
  waits in a queue or was handed to the crawler; unless the site tree was full on the path of
  the link when it was offered. So when the queues have run empty the link was crawled.
\<close>

theorem links_followed:
  assumes "message_law L" "ds_reachable L F (pf_datastore w0)" "parentless (pf_datastore w0)"
    "hosted (pf_datastore w0)" "fresh_scan w0" "tracked (pf_datastore w0)" "(scan_step L F)\<^sup>*\<^sup>* w0 w"
    "process_message L F m w = Inr w1" "(scan_step L F)\<^sup>*\<^sup>* w1 w2"
    "pm_done m" "find_handle (pm_easy_handle m) (pf_http_client w) = Some h" "ch_request h = StoredRequest i"
    "deref w (StoredRequest i) = Some req"
    "rq_raw_response req \<noteq> []" "Parse L (rq_raw_response req) Response = Inr (True, resp)"
    "fl_extract_links F" "sniffed_mime resp = ASC_HTML \<or> sniffed_mime resp = XML_XHTML"
    "page = answered F m resp req"
    "scraper_Parse L F page (resp_body (rs_http_response resp)) HtmlScraper = Inr (True, hs)"
    "a \<in> set (hs_anchors hs)"
  shows "\<exists>r. Request_ref L F a (Some page) = Inr r \<and>
     (in_scope L r (pf_datastore w) \<longrightarrow>
        (\<exists>d. store_kept L F (pf_datastore w) d \<and> store_kept L F d (pf_datastore w1) \<and> site_full F r d) \<or>
        (\<exists>j r'. GetRequestById j (pf_datastore w2) = Some r' \<and> (request_key r' = request_key r \<or> request_Equals r' r) \<and>
           (j \<in> set (ds_probe_queue (pf_datastore w2)) \<or> j \<in> set (ds_crawl_queue (pf_datastore w2)) \<or>
            rq_handler r' = Some CrawlerHandler)))"
proof -
  have w0: "scan_ok L F w0" using assms(2-5) by (simp add: scan_ok_def fresh_scan_def)
  then have kept0: "scan_kept L F w0 w" "well_routed w"
    using scan_steps_keep [OF assms(7,1)] fresh_scan_routed [OF assms(5)] by blast+
  have ok: "scan_ok L F w" using kept0(1) by (rule scan_kept_ok)
  have inv: "ds_inv (pf_datastore w)" using ok ds_reachable_inv assms(1) by (auto simp: scan_ok_def)
  have kept: "scan_kept L F w w1" "scan_kept L F w1 w2"
    using scan_step_keeps [OF scan_step.message [OF assms(8)] assms(1) ok kept0(2)] scan_steps_keep [OF assms(9,1)]
      scan_kept_ok by blast+
  have tracked: "tracked (pf_datastore w2)"
    using kept0(1) kept assms(6) by (auto simp: scan_kept_def store_kept_def)
  have id: "rq_id req = i" using scan_ok_ids [OF ok assms(1)] assms(13) by simp
  let ?ds = "put_request i page (pf_datastore w)"
  obtain n where cb: "crawler_RequestCallback L F (pf_crawler w) i ?ds = Inr (n, pf_datastore w1)"
    using crawler_transfer [OF kept0(2) assms(8,10-15,18) id] by blast
  have "scan_kept L F w (put_ref (StoredRequest i) page w)"
    using scan_ok_put_ref [OF ok assms(13) same_request_answered] assms(18) by simp
  then have put: "store_kept L F (pf_datastore w) ?ds" and ds: "scan_ok L F (w\<lparr>pf_datastore := ?ds\<rparr>)"
    by (simp_all add: scan_kept_def)
  have page: "GetRequestById i ?ds = Some page" "rq_response page = Some resp"
    using assms(18) by (simp_all add: GetRequestById_def put_request_def answered_def)
  have "\<not> crawler_loop page resp ?ds"
    using ds reachable_no_invalid [OF _ assms(1)] not_crawler_loop [OF _ page(1)] by (auto simp: scan_ok_def)
  from offered_crawler [OF cb page this assms(16,17,19,20)]
  obtain r where r: "Request_ref L F a (Some page) = Inr r" "offered L F r (pf_datastore w) (pf_datastore w1)"
    using offered_before [OF put same_scope_put] by blast
  have stored: "(\<exists>d. store_kept L F (pf_datastore w) d \<and> store_kept L F d (pf_datastore w1) \<and> site_full F r d) \<or>
      (\<exists>j. known (pf_datastore w2) j r)" if "in_scope L r (pf_datastore w)"
    using offered_known [OF r(2) _ assms(1) inv that fresh_Request_ref [OF r(1)]] kept(2) by (simp add: scan_kept_def)
  show ?thesis using r(1) stored tracked unfolding known_def tracked_def by (intro exI [of _ r]) metis
qed

text \<open>For a concrete run: one target, whose directory was probed before; its page has one link.\<close>

definition link_answer :: string where
  "link_answer = ''HTTP/1.1 200 OK'' @ [CR, LF] @ ''Content-Type: text/html'' @ [CR, LF, CR, LF] @ ''<a href=/x>''"

definition link_fetched :: "plusfish result" where
  "link_fetched =
     and_then (AddURL page_lib default_flags ''http://a.b/y'' probed_scan) (\<lambda>(ok, w0).
     and_then (probe_next page_lib default_flags 7 w0) (\<lambda>w1.
     and_then (crawl_next w1) (\<lambda>w2.
     and_then (StartNewRequests default_flags (deref w2) demo_env (pf_http_client w2)) (\<lambda>(ok, c, ds).
     delivered_to (StoredRequest 1) link_answer (w2\<lparr>pf_http_client := c\<rparr>)))))"

lemma link_answer_length: "length link_answer < 2 ^ 31"
  by (simp add: link_answer_def)

lemma link_fetched_steps:
  assumes "link_fetched = Inr w"
  shows "scan_steps page_lib default_flags probed_scan w"
proof -
  obtain ok w0 w1 w2 ok' c ds where
      "AddURL page_lib default_flags ''http://a.b/y'' probed_scan = Inr (ok, w0)"
      "probe_next page_lib default_flags 7 w0 = Inr w1" "crawl_next w1 = Inr w2"
      "StartNewRequests default_flags (deref w2) demo_env (pf_http_client w2) = Inr (ok', c, ds)"
      "delivered_to (StoredRequest 1) link_answer (w2\<lparr>pf_http_client := c\<rparr>) = Inr w"
    using assms by (auto simp: link_fetched_def and_then_eq_Inr)
  then have "scan_step page_lib default_flags probed_scan w0" "scan_step page_lib default_flags w0 w1"
    "scan_step page_lib default_flags w1 w2" "scan_step page_lib default_flags w2 (w2\<lparr>pf_http_client := c\<rparr>)"
    "scan_step page_lib default_flags (w2\<lparr>pf_http_client := c\<rparr>) w"
    using link_answer_length by (blast intro: scan_step.intros delivered_to_step)+
  then show ?thesis by (auto intro: converse_rtranclp_into_rtranclp)
qed

definition link_response :: response where
  "link_response = (case Parse page_lib link_answer Response of Inl e \<Rightarrow> Response | Inr (ok, r) \<Rightarrow> r)"

definition link_page :: "plusfish \<Rightarrow> request" where
  "link_page w = answered default_flags sql_done link_response
     (case deref w (StoredRequest 1) of Some req \<Rightarrow> req | None \<Rightarrow> Request_empty)"

text \<open>The hypotheses on the state in which the transfer ends, and what the store has afterwards.\<close>

definition link_ready :: "plusfish \<Rightarrow> bool" where
  "link_ready w \<longleftrightarrow> (case (find_handle 0 (pf_http_client w), deref w (StoredRequest 1)) of
     (Some h, Some req) \<Rightarrow> ch_request h = StoredRequest 1 \<and> rq_raw_response req = link_answer
   | _ \<Rightarrow> False) \<and>
   (case process_message page_lib default_flags sql_done w of
      Inr w1 \<Rightarrow> ds_probe_queue (pf_datastore w1) = [2] | _ \<Rightarrow> False)"

definition link_in_scope :: "plusfish \<Rightarrow> bool" where
  "link_in_scope w \<longleftrightarrow> (case Request_ref page_lib default_flags ''/x'' (Some (link_page w)) of
     Inr r \<Rightarrow> in_scope page_lib r (pf_datastore w) | _ \<Rightarrow> False)"

definition link_found :: "plusfish \<Rightarrow> bool" where
  "link_found w \<longleftrightarrow>
     (case scraper_Parse page_lib default_flags (link_page w) (resp_body (rs_http_response link_response)) HtmlScraper of
        Inr (ok, hs) \<Rightarrow> ok \<and> list_ex (\<lambda>a. a = ''/x'') (hs_anchors hs) | _ \<Rightarrow> False)"

lemma link_run:
  obtains w where "link_fetched = Inr w" "link_ready w" "link_in_scope w" "link_found w"
proof -
  have run: "case link_fetched of Inr w \<Rightarrow> link_ready w | Inl e \<Rightarrow> False"
    "case link_fetched of Inr w \<Rightarrow> link_in_scope w | Inl e \<Rightarrow> False"
    "case link_fetched of Inr w \<Rightarrow> link_found w | Inl e \<Rightarrow> False" by code_simp+
  show ?thesis
  proof (cases link_fetched)
    case (Inr w)
    then show ?thesis using run that [of w] unfolding Inr by simp
  next
    case (Inl e)
    then show ?thesis using run(1) unfolding Inl by simp
  qed
qed

lemma link_response_parsed: "Parse page_lib link_answer Response = Inr (True, link_response)"
  "sniffed_mime link_response = ASC_HTML"
proof -
  have "case Parse page_lib link_answer Response of Inl e \<Rightarrow> False | Inr (ok, r) \<Rightarrow> ok \<and> sniffed_mime r = ASC_HTML"
    by code_simp
  then show "Parse page_lib link_answer Response = Inr (True, link_response)" "sniffed_mime link_response = ASC_HTML"
    by (auto simp: link_response_def split: sum.splits)
qed

lemma probed_scan_start:
  "ds_reachable L F (pf_datastore probed_scan)" "parentless (pf_datastore probed_scan)"
  "hosted (pf_datastore probed_scan)" "fresh_scan probed_scan" "tracked (pf_datastore probed_scan)"
proof -
  have "pf_datastore probed_scan = DataStore" by (simp add: probed_scan_def)
  then show "ds_reachable L F (pf_datastore probed_scan)" "parentless (pf_datastore probed_scan)"
    "hosted (pf_datastore probed_scan)" "tracked (pf_datastore probed_scan)"
    using ds_reachable.init [of L F] by (simp_all add: parentless_def hosted_def tracked_def DataStore_def GetRequestById_def)
  show "fresh_scan probed_scan"
    by (simp add: fresh_scan_def probed_scan_def sample_scan_def SetShutdownTime_def Plusfish_def client_Enable_def
        CurlHttpClient_def NotFoundDetector_def finder_requests_def HiddenObjectsFinder_def runners_def SelectiveAuditor_def)
qed

theorem links_followed_witness:
  "\<exists>w w1 r. process_message page_lib default_flags sql_done w = Inr w1 \<and> ds_probe_queue (pf_datastore w1) = [2] \<and>
     Request_ref page_lib default_flags ''/x'' (Some (link_page w)) = Inr r \<and> in_scope page_lib r (pf_datastore w) \<and>
     ((\<exists>d. store_kept page_lib default_flags (pf_datastore w) d \<and>
         store_kept page_lib default_flags d (pf_datastore w1) \<and> site_full default_flags r d) \<or>
      (\<exists>j r'. GetRequestById j (pf_datastore w1) = Some r' \<and> (request_key r' = request_key r \<or> request_Equals r' r) \<and>
         (j \<in> set (ds_probe_queue (pf_datastore w1)) \<or> j \<in> set (ds_crawl_queue (pf_datastore w1)) \<or>
          rq_handler r' = Some CrawlerHandler)))"
proof -
  obtain w where w: "link_fetched = Inr w" "link_ready w" "link_in_scope w" "link_found w" by (rule link_run)
  obtain h req w1 where h: "find_handle 0 (pf_http_client w) = Some h" "ch_request h = StoredRequest 1"
      and req: "deref w (StoredRequest 1) = Some req" "rq_raw_response req = link_answer"
      and w1: "process_message page_lib default_flags sql_done w = Inr w1" "ds_probe_queue (pf_datastore w1) = [2]"
    using w(2) by (auto simp: link_ready_def split: option.splits sum.splits)
  have page: "link_page w = answered default_flags sql_done link_response req" using req(1) by (simp add: link_page_def)
  obtain hs where hs: "scraper_Parse page_lib default_flags (link_page w)
      (resp_body (rs_http_response link_response)) HtmlScraper = Inr (True, hs)" "''/x'' \<in> set (hs_anchors hs)"
    using w(4) by (auto simp: link_found_def list_ex_iff split: sum.splits)
  have ends: "pm_done sql_done" "find_handle (pm_easy_handle sql_done) (pf_http_client w) = Some h"
    "rq_raw_response req \<noteq> []" "fl_extract_links default_flags"
    using h(1) req(2) by (simp_all add: sql_done_def link_answer_def default_flags_def)
  note parsed = link_response_parsed(1) [folded req(2)] and html = disjI1 [OF link_response_parsed(2)]
  note followed = links_followed [OF message_law_page probed_scan_start link_fetched_steps [OF w(1)] w1(1)
      rtranclp.rtrancl_refl ends(1,2) h(2) req(1) ends(3) parsed ends(4) html page hs]
  obtain r where r: "Request_ref page_lib default_flags ''/x'' (Some (link_page w)) = Inr r" "in_scope page_lib r (pf_datastore w)"
    using w(3) by (auto simp: link_in_scope_def split: sum.splits)
  show ?thesis
    by (rule exI [of _ w], rule exI [of _ w1], rule exI [of _ r]) (use followed w1 r in simp)
qed

end
