(* ===== verification/Cli.thy ===== *)
theory Cli
  imports Scan_Progress
begin

text \<open>
  \<open>src/plusfish_cli.cc\<close> and \<open>src/util/config.{h,cc}\<close>: the set-up of a scan from the command line
  and the run. The files, the protobuf text parser, the clock and libcurl's initialisation are
  the record \<open>cli_env\<close>. \<open>exit\<close> is a value of \<open>outcome\<close>.
\<close>

record cli_env =
  ce_curl_ok :: bool
  ce_glob :: "string \<Rightarrow> string list option"
  ce_read :: "string \<Rightarrow> string option"
  ce_parse_checks :: "string \<Rightarrow> bool \<times> security_check_config"
  ce_parse_requests :: "string \<Rightarrow> bool \<times> http_request list"
  ce_opens :: "string \<Rightarrow> bool"
  ce_time :: int

section \<open>Configuration files\<close>

definition glob_path :: "cli_env \<Rightarrow> string \<Rightarrow> string list \<Rightarrow> bool \<times> string list" where
  "glob_path e pattern filenames =
     (case ce_glob e (c_str pattern) of None \<Rightarrow> (False, filenames) | Some paths \<Rightarrow> (True, filenames @ paths))"

definition ReadProtoFileContent :: "cli_env \<Rightarrow> string \<Rightarrow> string \<Rightarrow> bool \<times> string" where
  "ReadProtoFileContent e filename output =
     (case ce_read e filename of None \<Rightarrow> (False, output) | Some content \<Rightarrow> (True, content))"

text \<open>A file that cannot be read counts as an empty one; what the parser made of a bad one is merged.\<close>

definition LoadCheckConfigs ::
    "cli_env \<Rightarrow> string \<Rightarrow> security_check_config \<Rightarrow> bool \<times> security_check_config" where
  "LoadCheckConfigs e pattern checks_config =
     (let (ok, files) = glob_path e pattern [] in
      if \<not> ok then (False, checks_config)
      else if files = [] then (False, checks_config)
      else
        (True, fold (\<lambda>config_file cfg.
           cfg @ snd (ce_parse_checks e (snd (ReadProtoFileContent e config_file [])))) files checks_config))"

definition LoadRequestsConfig :: "cli_env \<Rightarrow> string \<Rightarrow> bool \<times> http_request list" where
  "LoadRequestsConfig e file =
     (if ce_read e file = None then (False, [])
      else ce_parse_requests e (snd (ReadProtoFileContent e file [])))"

section \<open>The command line\<close>

text \<open>The second argument is not used: the pieces are cut at commas.\<close>

definition SplitString :: "string \<Rightarrow> char \<Rightarrow> string list" where
  "SplitString value delimiter = split_by (\<lambda>c. c = CHR '','') value"

datatype 'a outcome = Exit int | Continue 'a

definition or_exit :: "'a outcome \<Rightarrow> ('a \<Rightarrow> 'b outcome) \<Rightarrow> 'b outcome" where
  "or_exit r f = (case r of Exit n \<Rightarrow> Exit n | Continue x \<Rightarrow> f x)"

text \<open>The auditors: none without a configuration path, else the response time check and the loaded tests.\<close>

fun add_tests ::
    "externals \<Rightarrow> security_test list \<Rightarrow> selective_auditor \<times> passive_auditor \<Rightarrow>
     (selective_auditor \<times> passive_auditor) outcome" where
  "add_tests L [] s = Continue s"
| "add_tests L (check # checks) (sa, pa) =
     (if st_generator_rule check = None \<and> st_matching_rule check = None then Exit 1
      else if st_generator_rule check = None then add_tests L checks (sa, snd (passive_AddSecurityTest L check pa))
      else add_tests L checks (snd (AddSecurityTest L check sa), pa))"

definition make_auditors ::
    "externals \<Rightarrow> flags \<Rightarrow> cli_env \<Rightarrow>
     ((selective_auditor \<times> passive_auditor) option \<times> security_check_config) outcome" where
  "make_auditors L F e =
     (if fl_checks_config_path F = [] then Continue (None, [])
      else
        let sa = AddSecurityCheck (ResponseTimeCheck (fl_response_time_measurements F)
                   (fl_response_time_threshold_ms F)) SelectiveAuditor;
            (ok, config) = LoadCheckConfigs e (fl_checks_config_path F) []
        in if \<not> ok then Exit 1
           else or_exit (add_tests L config (sa, [])) (\<lambda>s. Continue (Some s, config)))"

fun register_headers :: "string list \<Rightarrow> http_client \<Rightarrow> http_client outcome" where
  "register_headers [] c = Continue c"
| "register_headers (header # headers) c =
     (let parts = SplitString header CHR '':'' in
      if length parts \<noteq> 3 then Exit 1
      else
        (case RegisterDefaultHeader (parts ! 0) (parts ! 1) (parts ! 2) c of
           (ok, c') \<Rightarrow> if \<not> ok then Exit 1 else register_headers headers c'))"

definition default_headers :: "flags \<Rightarrow> http_client \<Rightarrow> http_client outcome" where
  "default_headers F c =
     (if fl_default_headers F = [] then Continue c
      else register_headers (SplitString (fl_default_headers F) CHR '','') c)"

definition load_regexes :: "externals \<Rightarrow> flags \<Rightarrow> data_store \<Rightarrow> data_store" where
  "load_regexes L F ds =
     (let ds1 = (if fl_include_regex_list F = [] then ds
                 else fold (\<lambda>re ds. snd (AddWhitelistRegex L re ds)) (SplitString (fl_include_regex_list F) CHR '','') ds)
      in if fl_exclude_regex_list F = [] then ds1
         else fold (\<lambda>re ds. snd (AddBlacklistRegex L re ds)) (SplitString (fl_exclude_regex_list F) CHR '','') ds1)"

definition make_finder :: "externals \<Rightarrow> flags \<Rightarrow> cli_env \<Rightarrow> hidden_objects_finder option" where
  "make_finder L F e =
     (if fl_bruteforce_wordlist F = [] then None
      else
        let hf1 = snd (LoadWordlistFromFile L (ce_read e (fl_bruteforce_wordlist F)) HiddenObjectsFinder)
        in Some (if fl_bruteforce_extensions F = [] then hf1
                 else snd (LoadExtensionsFromFile L (ce_read e (fl_bruteforce_extensions F)) hf1)))"

definition load_requests ::
    "externals \<Rightarrow> flags \<Rightarrow> cli_env \<Rightarrow> plusfish \<Rightarrow> (bool \<times> plusfish) outcome" where
  "load_requests L F e w =
     (if fl_requests_asciipb_file F = [] then Continue (False, w)
      else
        let (ok, collection) = LoadRequestsConfig e (fl_requests_asciipb_file F)
        in if \<not> ok then Exit 1
           else Continue (collection \<noteq> [],
             w\<lparr>pf_datastore := fold (\<lambda>p ds. snd (AddRequest L F (Request_proto L F p) ds)) collection (pf_datastore w)\<rparr>))"

fun add_urls :: "externals \<Rightarrow> flags \<Rightarrow> string list \<Rightarrow> plusfish \<Rightarrow> plusfish outcome result" where
  "add_urls L F [] w = Inr (Continue w)"
| "add_urls L F (url # urls) w =
     and_then (AddURL L F (c_str url) w)
       (\<lambda>(ok, w'). if ok then add_urls L F urls w' else Inr (Exit 1))"

text \<open>\<open>main\<close> up to the call of \<open>Run\<close>; the first argument is the name of the program.\<close>

definition initial_scan ::
    "externals \<Rightarrow> flags \<Rightarrow> cli_env \<Rightarrow> (selective_auditor \<times> passive_auditor) option \<Rightarrow> http_client \<Rightarrow> plusfish" where
  "initial_scan L F e auditors c =
     (let w = Plusfish \<lparr>cr_selective_auditor = (auditors \<noteq> None), cr_passive_auditor = map_option snd auditors\<rparr>
                (map_option fst auditors) NotFoundDetector (make_finder L F e) (fl_max_auditor_runners F) c
                (load_regexes L F DataStore)
      in if fl_max_scan_duration_sec F > 0
         then SetShutdownTime (ce_time e + fl_max_scan_duration_sec F) w else w)"

definition start_reporting :: "flags \<Rightarrow> cli_env \<Rightarrow> plusfish \<Rightarrow> plusfish outcome" where
  "start_reporting F e w =
     (if fl_report_type F = [] then Continue w
      else
        (case scan_InitReporting F (ce_opens e) (fl_report_type F) w of
           (ok, w') \<Rightarrow> if ok then Continue w' else Exit 1))"

definition make_scan :: "externals \<Rightarrow> flags \<Rightarrow> cli_env \<Rightarrow> (plusfish \<times> security_check_config) outcome" where
  "make_scan L F e =
     (case Initialize (ce_curl_ok e) (CurlHttpClient (fl_max_request_rate_sec F)) of
        (False, c) \<Rightarrow> Exit 1
      | (True, c) \<Rightarrow>
          or_exit (make_auditors L F e) (\<lambda>(auditors, config).
          or_exit (default_headers F c) (\<lambda>c'.
          or_exit (start_reporting F e (initial_scan L F e auditors c')) (\<lambda>w. Continue (w, config)))))"

definition add_targets ::
    "externals \<Rightarrow> flags \<Rightarrow> cli_env \<Rightarrow> string list \<Rightarrow> plusfish \<Rightarrow> plusfish outcome result" where
  "add_targets L F e urls w =
     (case load_requests L F e w of
        Exit n \<Rightarrow> Inr (Exit n)
      | Continue (loaded, w') \<Rightarrow>
          if urls = [] \<and> \<not> loaded then Inr (Exit 1) else add_urls L F urls w')"

definition main_setup ::
    "externals \<Rightarrow> flags \<Rightarrow> cli_env \<Rightarrow> string list \<Rightarrow> (plusfish \<times> security_check_config) outcome result" where
  "main_setup L F e argv =
     (case make_scan L F e of
        Exit n \<Rightarrow> Inr (Exit n)
      | Continue (w, config) \<Rightarrow>
          and_then (add_targets L F e (drop 1 argv) w) (\<lambda>r. Inr (or_exit r (\<lambda>w'. Continue (w', config)))))"

text \<open>
  \<open>main\<close>: the exit code, the texts of the report files and the final state, \<^const>\<open>None\<close> where
  the loop is not over after \<open>fuel\<close> rounds.
\<close>

definition main ::
    "externals \<Rightarrow> json_lib \<Rightarrow> flags \<Rightarrow> cli_env \<Rightarrow> (nat \<Rightarrow> loop_env) \<Rightarrow> nat \<Rightarrow> string list \<Rightarrow>
     (int \<times> string list \<times> plusfish option) result option" where
  "main L J F e env fuel argv =
     (case main_setup L F e argv of
        Inl fault \<Rightarrow> Some (Inl fault)
      | Inr (Exit n) \<Rightarrow> Some (Inr (n, [], None))
      | Inr (Continue (w, config)) \<Rightarrow>
          (case plusfish_Run L F env 0 fuel w of
             None \<Rightarrow> None
           | Some (Inl fault) \<Rightarrow> Some (Inl fault)
           | Some (Inr w1) \<Rightarrow>
               (case scan_Report J config w1 of
                  (ok, w2) \<Rightarrow> Some (Inr (0, map (\<lambda>r. fw_written (report_file (delete_reporter r))) (pf_reporters w2),
                    Some w2)))))"

section \<open>Lemmas: what the set-up establishes\<close>

lemma or_exit_Continue: "or_exit r f = Continue y \<longleftrightarrow> (\<exists>x. r = Continue x \<and> f x = Continue y)"
  by (cases r) (simp_all add: or_exit_def)

lemma load_regexes_kept: "store_kept L F ds (load_regexes L F ds)"
proof -
  have white: "store_kept L F d (snd (AddWhitelistRegex L re d))" for re d
    by (rule step_kept [OF ds_step.white]) (simp_all add: AddWhitelistRegex_def)
  have black: "store_kept L F d (snd (AddBlacklistRegex L re d))" for re d
    by (rule step_kept [OF ds_step.black]) (simp_all add: AddBlacklistRegex_def)
  have each: "store_kept L F d (fold f xs d)" if step: "\<And>x d. store_kept L F d (f x d)" for f d and xs :: "string list"
    by (induction xs arbitrary: d) (auto intro: store_kept_trans step)
  have regexes: "store_kept L F d (fold (\<lambda>re d. snd (AddWhitelistRegex L re d)) xs d)"
    "store_kept L F d (fold (\<lambda>re d. snd (AddBlacklistRegex L re d)) xs d)" for xs d
    by (rule each, rule white, rule each, rule black)
  then show ?thesis unfolding load_regexes_def Let_def
    using store_kept_trans [OF regexes(1) regexes(2)] by simp
qed

lemma add_urls_kept:
  "add_urls L F urls w = Inr (Continue w') \<Longrightarrow>
     store_kept L F (pf_datastore w) (pf_datastore w') \<and> pf_objects_finder w' = pf_objects_finder w \<and>
     pf_reporters w' = pf_reporters w \<and> pf_enabled w' = pf_enabled w \<and> pf_http_client w' = pf_http_client w"
proof (induction urls arbitrary: w)
  case (Cons url urls)
  then obtain w1 where w1: "AddURL L F (c_str url) w = Inr (True, w1)" "add_urls L F urls w1 = Inr (Continue w')"
    by (auto simp: and_then_eq_Inr split: if_splits)
  then show ?case using Cons.IH [OF w1(2)] AddURL_kept [OF w1(1)] store_kept_trans by auto
qed simp

lemma register_headers_enabled: "register_headers hs c = Continue c' \<Longrightarrow> hc_enabled c' = hc_enabled c"
proof (induction hs arbitrary: c)
  case (Cons h hs)
  have "hc_enabled (snd (RegisterDefaultHeader a b d c)) = hc_enabled c" for a b d
    by (simp add: RegisterDefaultHeader_def Let_def)
  then show ?case using Cons by (auto simp: Let_def split: if_splits prod.splits) (metis snd_conv)+
qed simp

text \<open>The scan as it is made, before requests and URLs are added.\<close>

lemma make_scan_state:
  assumes "make_scan L F e = Continue (w, config)"
  shows "pf_datastore w = load_regexes L F DataStore \<and> pf_objects_finder w = make_finder L F e \<and> pf_enabled w \<and>
     hc_enabled (pf_http_client w) \<and>
     (if fl_report_type F = [] then pf_reporters w = []
      else InitReporting F (ce_opens e) (fl_report_type F) [] = (True, pf_reporters w))"
proof -
  obtain c where c: "Initialize (ce_curl_ok e) (CurlHttpClient (fl_max_request_rate_sec F)) = (True, c)" "hc_enabled c"
    using assms by (auto simp: make_scan_def Initialize_def split: if_splits)
  obtain auditors c' where c': "default_headers F c = Continue c'"
      "start_reporting F e (initial_scan L F e auditors c') = Continue w"
    using assms c by (auto simp: make_scan_def or_exit_Continue)
  have "hc_enabled c'" using c'(1) c(2) register_headers_enabled by (auto simp: default_headers_def split: if_splits)
  then show ?thesis using c'(2)
    by (auto simp: start_reporting_def initial_scan_def Let_def Plusfish_def SetShutdownTime_def scan_InitReporting_def
        split: if_splits prod.splits)
qed

lemma finder_empty: "finder_requests w = []" if "pf_objects_finder w = make_finder L F e"
proof -
  have line: "hf_requests (snd (AddWordlistLine L s hf)) = hf_requests hf" for s hf
    by (simp add: AddWordlistLine_def Let_def)
  have "hf_requests (fold (\<lambda>s hf. snd (AddWordlistLine L s hf)) ss hf) = hf_requests hf" for ss hf
    by (induction ss arbitrary: hf) (simp_all add: line)
  then have "hf_requests (snd (LoadWordlistFromFile L content hf)) = hf_requests hf" for content hf
    by (simp add: LoadWordlistFromFile_def split_beta Let_def)
  moreover have "hf_requests (snd (LoadExtensionsFromFile L content hf)) = hf_requests hf" for content hf
    by (simp add: LoadExtensionsFromFile_def split_beta Let_def)
  ultimately show ?thesis using that by (simp add: finder_requests_def make_finder_def HiddenObjectsFinder_def Let_def)
qed

lemma main_setup_cut:
  assumes "main_setup L F e argv = Inr (Continue (w, config))"
  obtains w1 loaded w2 where "make_scan L F e = Continue (w1, config)" "load_requests L F e w1 = Continue (loaded, w2)"
    "add_urls L F (drop 1 argv) w2 = Inr (Continue w)"
proof -
  obtain w1 where w1: "make_scan L F e = Continue (w1, config)" "add_targets L F e (drop 1 argv) w1 = Inr (Continue w)"
    using assms by (auto simp: main_setup_def or_exit_Continue and_then_eq_Inr split: outcome.splits)
  then show ?thesis using that by (auto simp: add_targets_def split: outcome.splits if_splits)
qed

lemma main_setup_state:
  assumes "main_setup L F e argv = Inr (Continue (w, config))" "fl_requests_asciipb_file F = []"
  shows "scan_ok L F w \<and> pf_objects_finder w = make_finder L F e \<and> pf_enabled w \<and> hc_enabled (pf_http_client w) \<and>
     finder_requests w = [] \<and> tracked (pf_datastore w) \<and>
     (fl_report_type F \<noteq> [] \<longrightarrow> InitReporting F (ce_opens e) (fl_report_type F) [] = (True, pf_reporters w))"
proof -
  obtain w1 where w1: "make_scan L F e = Continue (w1, config)" "add_urls L F (drop 1 argv) w1 = Inr (Continue w)"
    using main_setup_cut [OF assms(1)] assms(2) by (auto simp: load_requests_def)
  note state = make_scan_state [OF w1(1)] add_urls_kept [OF w1(2)]
  then have finder: "finder_requests w = []" using finder_empty [of w L F e] by simp
  have "store_kept L F DataStore (pf_datastore w)" using state load_regexes_kept store_kept_trans by metis
  moreover have "parentless DataStore" "hosted DataStore" "tracked DataStore"
    by (simp_all add: parentless_def hosted_def tracked_def DataStore_def GetRequestById_def)
  ultimately have "scan_ok L F w" "tracked (pf_datastore w)"
    using finder ds_steps_reachable [OF _ ds_reachable.init] by (auto simp: scan_ok_def store_kept_def)
  then show ?thesis using state finder by (auto split: if_splits)
qed

lemma Run_reporters: "plusfish_Run L F env k fuel w = Some (Inr w') \<Longrightarrow> pf_reporters w' = pf_reporters w"
proof (induction fuel arbitrary: k w)
  case (Suc fuel)
  then obtain b w1 where r: "loop_round L F (env k) w = Inr (b, w1)" by (auto split: sum.splits)
  have signals: "pf_reporters (fold (SignalHandler F t) sigs v) = pf_reporters v" for t sigs v
  proof (induction sigs arbitrary: v)
    case (Cons sig sigs)
    moreover have "pf_reporters (SignalHandler F t sig v) = pf_reporters v" by (simp add: shutdown_defs)
    ultimately show ?case by simp
  qed simp
  have "pf_reporters (snd (KeepRunningOrShutdown F t v)) = pf_reporters v" for t v by (simp add: shutdown_defs)
  then have "pf_reporters w1 = pf_reporters w" using loop_round_cut [OF r] signals by (metis body_frame_def)
  then show ?case using Suc r by (auto split: if_splits)
qed simp

text \<open>A run on the library instance: a text report, a word list, and an impatient user.\<close>

definition demo_flags :: flags where
  "demo_flags = default_flags\<lparr>fl_report_type := ''TEXT'', fl_bruteforce_wordlist := ''words''\<rparr>"

definition demo_cli :: cli_env where
  "demo_cli = \<lparr>ce_curl_ok = True, ce_glob = (\<lambda>p. None), ce_read = (\<lambda>f. Some ''admin 0''),
     ce_parse_checks = (\<lambda>s. (True, [])), ce_parse_requests = (\<lambda>s. (True, [])), ce_opens = (\<lambda>f. True), ce_time = 0\<rparr>"

section \<open>Properties\<close>

text \<open>
  C32: no scan without a word list. If \<open>--bruteforce_wordlist\<close> is not given, the program ends
  with an error code before the scan or with a fault in the first round of the loop, and no
  report is written.
\<close>

theorem main_needs_wordlist:
  assumes "fl_bruteforce_wordlist F = []"
  shows "(\<exists>fault. main L J F e env (Suc fuel) argv = Some (Inl fault)) \<or>
     (\<exists>n. main L J F e env (Suc fuel) argv = Some (Inr (n, [], None)))"
proof (cases "main_setup L F e argv")
  case (Inr r)
  show ?thesis
  proof (cases r)
    case (Continue wc)
    obtain w config where wc: "wc = (w, config)" by (cases wc)
    obtain w1 w2 loaded where w1: "make_scan L F e = Continue (w1, config)"
        "load_requests L F e w1 = Continue (loaded, w2)" "add_urls L F (drop 1 argv) w2 = Inr (Continue w)"
      using main_setup_cut [of L F e argv w config] Inr Continue wc by auto
    have "pf_objects_finder w2 = pf_objects_finder w1"
      using w1(2) by (auto simp: load_requests_def split: if_splits prod.splits)
    then have none: "pf_objects_finder w = None"
      using make_scan_state [OF w1(1)] add_urls_kept [OF w1(3)] assms by (simp add: make_finder_def)
    have "\<exists>fault. loop_body L F (env 0) w = Inl fault" using loop_body_no_finder [OF none] .
    then show ?thesis using Inr Continue wc by (auto simp: main_def loop_round_def and_then_def)
  qed (use Inr in \<open>simp add: main_def\<close>)
qed (simp add: main_def)

theorem main_needs_wordlist_witness:
  "\<exists>r. main simple_lib plain_json default_flags demo_cli two_rounds 2 [''plusfish'', ''http://a.b/x''] = Some r \<and>
     (\<forall>files w. r \<noteq> Inr (0, files, Some w))"
  using main_needs_wordlist [of default_flags simple_lib plain_json demo_cli two_rounds 1 "[''plusfish'', ''http://a.b/x'']"]
  by (auto simp: default_flags_def numeral_2_eq_2)

text \<open>
  C34: \<open>--default_headers\<close> cannot be used. A header is split at commas, not at colons, so whatever
  the flag says, a non-empty value ends the program with code 1.
\<close>

theorem default_headers_exit:
  assumes "fl_default_headers F \<noteq> []"
  shows "default_headers F c = Exit 1"
proof -
  let ?headers = "SplitString (fl_default_headers F) CHR '',''"
  obtain h hs where h: "?headers = h # hs"
    by (metis SplitString_def list.exhaust split_by_nonempty)
  then have "h \<in> set ?headers" by simp
  then have "CHR '','' \<notin> set h"
    using split_by_pieces [of h "\<lambda>c. c = CHR '',''" "fl_default_headers F" "CHR '',''"] by (auto simp: SplitString_def)
  then have "length (SplitString h CHR '':'') = 1" by (simp add: SplitString_def)
  then show ?thesis using assms h by (simp add: default_headers_def Let_def)
qed

theorem default_headers_exit_witness:
  "default_headers (default_flags\<lparr>fl_default_headers := ''*:X-Scanner:plusfish''\<rparr>) (CurlHttpClient 1) = Exit 1"
  by (rule default_headers_exit) (simp add: default_flags_def)

text \<open>
  C1: what a completed run reports. With the text report chosen and the targets given as URLs,
  a run that ends normally leaves a data store that satisfies its invariant, and one report
  file with one line for each stored request, every stored request exactly once. If neither the
  scan nor its client was shut down, each request of the report was handed to the crawler.
\<close>

theorem main_reports_scan:
  assumes "message_law L" "fl_requests_asciipb_file F = []" "fl_report_type F = ''TEXT''"
    "main L J F e env fuel argv = Some (Inr (code, files, Some w))"
  shows "code = 0 \<and> ds_inv (pf_datastore w) \<and> (\<exists>reqs.
     files = [concat (map (\<lambda>r. request_line r @ [LF]) reqs)] \<and>
     mset (map rq_id reqs) = mset (map fst (ds_requests_by_id (pf_datastore w))) \<and>
     (\<forall>r \<in> set reqs. GetRequestById (rq_id r) (pf_datastore w) = Some r) \<and>
     (pf_enabled w \<and> hc_enabled (pf_http_client w) \<longrightarrow> (\<forall>r \<in> set reqs. rq_handler r = Some CrawlerHandler)))"
proof -
  obtain w0 config w1 where made: "main_setup L F e argv = Inr (Continue (w0, config))"
      and run: "plusfish_Run L F env 0 fuel w0 = Some (Inr w1)" and w: "w = snd (scan_Report J config w1)" "code = 0"
      and files: "files = map (\<lambda>r. fw_written (report_file (delete_reporter r))) (pf_reporters w)"
    using assms(4) by (auto simp: main_def split_beta split: sum.splits outcome.splits option.splits prod.splits)
  note state = main_setup_state [OF made assms(2)]
  define out where "out = \<lparr>fw_is_open = True, fw_written = []\<rparr>"
  have reporters: "pf_reporters w1 = [TextReporter out]"
    using state assms(3) Run_reporters [OF run]
    by (auto simp: InitReporting_def GetReporterByName_def ReportType_Parse_def GetReporter_def fw_Open_def
        FileWriter_def out_def Let_def split: if_splits)
  let ?ds = "pf_datastore w1" and ?reqs = "List.map_filter (store_of (pf_datastore w1)) (site_ids (pf_datastore w1))"
  have ds: "ds_reachable L F ?ds" using scan_ok_Run [OF assms(1) _ run] state by (simp add: scan_ok_def)
  have rep: "pf_datastore w = ?ds" "pf_reporters w = [report_calls J ?ds (datastore_Report ?ds) (TextReporter out)]"
    using w reporters by (simp_all add: scan_Report_def plusfish_Report_def report_sites_calls)
  have written: "files = [concat (map (\<lambda>r. request_line r @ [LF]) ?reqs)]"
    using files rep(2) by (simp add: text_report_calls out_def fw_Close_def datastore_Report_requests)
  have crawled: "pf_enabled w \<and> hc_enabled (pf_http_client w) \<longrightarrow> (\<forall>r \<in> set ?reqs. rq_handler r = Some CrawlerHandler)"
  proof (intro impI ballI)
    fix r assume on: "pf_enabled w \<and> hc_enabled (pf_http_client w)" and "r \<in> set ?reqs"
    then have "GetRequestById (rq_id r) ?ds = Some r" using reported_stored [OF assms(1) ds] by blast
    moreover obtain v l where "tracked ?ds" "loop_round L F l v = Inr (False, w1)"
      using Run_last_round [OF assms(1) _ _ run] state by blast
    ultimately show "rq_handler r = Some CrawlerHandler"
      using quiet_round [of L F l v w1] on w(1) by (auto simp: tracked_def scan_Report_def split_beta)
  qed
  have "mset (map rq_id ?reqs) = mset (map fst (ds_requests_by_id ?ds))"
    using reported_requests [OF assms(1) ds] by simp
  with written show ?thesis
    using w(2) rep(1) ds_reachable_inv [OF ds assms(1)] reported_stored [OF assms(1) ds] crawled
    by (intro conjI exI [of _ ?reqs]) simp_all
qed

theorem main_reports_scan_witness:
  "\<exists>files w. main simple_lib plain_json demo_flags demo_cli two_rounds 2 [''plusfish'', ''http://a.b/x''] =
       Some (Inr (0, files, Some w)) \<and> ds_inv (pf_datastore w) \<and>
     (\<exists>reqs. files = [concat (map (\<lambda>r. request_line r @ [LF]) reqs)] \<and> mset (map rq_id reqs) = mset [1])"
proof -
  let ?m = "main simple_lib plain_json demo_flags demo_cli two_rounds 2 [''plusfish'', ''http://a.b/x'']"
  have "map_option (map_sum id (\<lambda>(code, files, w). map_option (\<lambda>w. map fst (ds_requests_by_id (pf_datastore w))) w)) ?m =
      Some (Inr (Some [1]))" by code_simp
  then obtain code files w where m: "?m = Some (Inr (code, files, Some w))"
      and ids: "map fst (ds_requests_by_id (pf_datastore w)) = [1]"
    by (cases ?m; cases "the ?m") auto
  have "fl_requests_asciipb_file demo_flags = []" "fl_report_type demo_flags = ''TEXT''"
    by (simp_all add: demo_flags_def default_flags_def)
  note out = main_reports_scan [OF message_law_simple this m]
  then have "code = 0" by simp
  with out ids m show ?thesis by (elim conjE exE) (intro exI conjI; simp only:)
qed

end
