(* ===== verification/Spec2Isabelle.thy ===== *)
theory Spec2Isabelle
  imports Url_Util Escaping Rate_Limiter Http_Util Clock Base_Library Curl Scan_Progress Detection Crawl_Coverage Cli
begin

text \<open>
  A model of plusfish, a web application security scanner in C++, and its correctness.

  \<^bold>\<open>The program.\<close> \<open>main\<close> (\<open>src/plusfish_cli.cc\<close>) makes the components from the flags, adds the
  target URLs to the data store and calls \<open>Plusfish::Run\<close> (\<open>src/plusfish.cc\<close>). Each round of that
  loop lets the HTTP client (\<open>src/curl_http_client.cc\<close>) start queued requests and poll libcurl;
  polling hands each finished response to the handler of its request: the crawler, the 404
  detector, the hidden objects finder or a security check runner. The round then moves one
  request from the probe queue to the detector, one from the crawl queue to the client, lets
  the finder schedule guesses and the selective auditor start the checks of one page. The
  crawler scrapes responses with the Gumbo filters and stores what it finds: pages as requests
  of the data store, weaknesses as issues. When the loop ends the reporters write the site
  trees. Components refer to each other's requests by pointer, and the pointers are what goes
  wrong in several places.

  \<^bold>\<open>Conventions.\<close> One theory models one part; definitions keep the names of the code, with the
  class as a prefix where two would clash (\<open>nfd_\<close> detector, \<open>hof_\<close> finder, \<open>fw_\<close> file writer). A
  class is a record, an operation a function from the state to the new state and the result.
  Undefined behaviour and uncaught exceptions are values: an operation that can end in one
  returns \<open>'a result\<close>, a fault (null pointer, use after free, out of range, length error,
  division by zero, a call that does not return) or a value. A stored request is named by its id where the code has its
  pointer; other requests by their owner and a number (\<open>req_ref\<close>). A string is a list of bytes,
  and machine integers wrap where the code lets them (\<open>32 word\<close>, or \<open>mod\<close> written out). A mutex
  makes an operation one step.

  \<^bold>\<open>Parameters.\<close> Code that is not in the repository is an argument: the record \<open>externals\<close>
  (Abseil, RE2, googleurl, Gumbo, protobuf comparison), \<open>json_lib\<close> (protobuf's JSON printer and
  the order of a hash set), \<open>start_env\<close>, \<open>poll_env\<close> and \<open>loop_env\<close> (libcurl, clock, signals and the
  random number of one round), \<open>libcurl\<close> (from which the first two are made), \<open>cli_env\<close> (files, protobuf text format). What the code relies on
  is a named law (\<open>split_law\<close>, \<open>message_law\<close>, \<open>gurl_law\<close>, \<dots>); \<open>simple_lib\<close> is an instance for
  concrete runs, on which every witness is evaluated.

  \<^bold>\<open>The theories\<close>, lowest first:

  \<^item> \<open>Prelude\<close> (faults, C strings, ordered maps), \<open>Proto\<close> (the messages of \<open>src/proto\<close>),
    \<open>Externals\<close> (parameters, laws, flags).
  \<^item> \<open>Http_Util\<close>, \<open>Url_Util\<close>, \<open>Escaping\<close>, \<open>Html_Fingerprint\<close>, \<open>Rate_Limiter\<close>, \<open>Scrape_Util\<close>,
    \<open>Audit_Util\<close>: the utilities. Shown: round trips of the escapings, the rate bound per second,
    that the scraping loops end and what they find.
  \<^item> \<open>Response\<close>, \<open>Request\<close>: parsing and printing. Shown: what is printed is parsed back, and when
    the response parser faults.
  \<^item> \<open>Pivot\<close>, \<open>Data_Store\<close>: the site trees, the id map, queues and issues. The step relation
    \<open>ds_step\<close> has one rule per operation; \<open>ds_inv\<close> holds in every reachable state (ids without
    gaps, every request owned by one pivot, queues of stored requests, issue counters).
    The locale \<open>request_queue\<close> states the queues' contract and is interpreted three times.
  \<^item> \<open>Matchers\<close>, \<open>Generic_Generator\<close>, \<open>Security_Checks\<close>, \<open>Check_Runner\<close>: the checks. Shown: the
    matchers refine the documented meaning of a rule (\<open>condition_meant\<close>, stated on strings without the
    matchers), the generator's in-place loops make exactly the requests of a specification without
    them (\<open>requests_of\<close>), the auditor starts the first check that a new runner can run, with nothing
    left of those before it, a runner finishes with the last callback and its
    requests name the tested page as parent (the locales \<open>text_matcher\<close>, \<open>request_creator\<close>).
  \<^item> \<open>Http_Client\<close>: scheduling, starting, response data. Shown: first in first out, and when the
    starting of requests stops (no request, the rate, six fifths of the connection limit).
  \<^item> \<open>Gumbo_Parser\<close>, \<open>Gumbo_Filters\<close>, \<open>Html_Scraper\<close>: the document walk is verified once for every
    filter that keeps a contract (\<open>filter_contract\<close>), and each filter is shown to keep it; a form gives
    the request and the issues that its input fields call for; the scraper and the detector compute the same fingerprint.
  \<^item> \<open>Crawler\<close>, \<open>Not_Found_Detector\<close>, \<open>Hidden_Objects_Finder\<close>: the handlers of responses. Shown:
    the crawler changes the store only by the store's operations and keeps every request it
    stores in a queue (\<open>store_kept\<close>), a directory is probed once,
    a page that looks like a known missing page is not reported.
  \<^item> \<open>Reports\<close>: writers and reporters down to the text of the files.
  \<^item> \<open>Scanner\<close>: \<open>Plusfish\<close>, \<open>Poll\<close>, the dispatch of responses and the main loop on the state of
    the whole program. The locale \<open>body_steps\<close> lifts a relation that every step of a round
    respects to the round; it is interpreted with the frame of a round and with the invariant
    of the store. Shown: the loop returns after the shutdown time and the grace period, the
    store's invariant survives any scan, a target reaches the client in the first round.
  \<^item> \<open>Routing\<close>: the steps of the program in any order as a relation (\<open>scan_step\<close>, an abstraction of the
    main loop: the locale's interpretation \<open>as_steps\<close> shows that every round follows it), and its invariant
    \<open>well_routed\<close> on the pointers the client holds. Shown: a pointer that can be followed leads to
    a request of the component whose handler gets the answer; two equal test URLs leave one that
    cannot be followed.
  \<^item> \<open>Scan_Progress\<close>: \<open>tracked\<close> (a stored request waits in a queue or was handed to the crawler)
    holds in every round. Shown: a scan that ends by itself has crawled everything it stored, but
    may have left pages in the audit queue.
  \<^item> \<open>Detection\<close>: from the end of a transfer to the issue. Shown: issues are never lost, and an answer
    for which a rule holds is filed as an issue of the tested page and stays there.
  \<^item> \<open>Crawl_Coverage\<close>: from the end of a transfer to the next pages. Shown: stored requests are never
    lost, and every link of a fetched page that is in scope is known to the store from then on,
    unless a limit of the site tree is reached.
  \<^item> \<open>Curl\<close>: the wrapper of libcurl, and the environments of \<open>StartNewRequests\<close> and \<open>Poll\<close> made
    from what libcurl returns. Shown: the time \<open>Poll\<close> waits, that header lines are appended in
    order, and that without a descriptor to wait for no transfer is carried on.
  \<^item> \<open>Clock\<close>: the clock and the pacing of the loop. Shown: when a round sleeps and when it warns.
  \<^item> \<open>Cli\<close>: configuration, set-up, \<open>main\<close>. Shown: a completed run reports every stored request
    once, each one crawled unless the run was shut down; a run without a word list never completes.

  \<^bold>\<open>Loops and fuel.\<close> Loops over containers are structural recursion. \<open>UnescapeHtml\<close>, the script
  anchors and \<open>ScheduleNextCheck\<close> are total by a measure. The loop of
  \<open>ScrapeUrl\<close> is a partial function, \<open>None\<close> when it does not end; it ends because each match consumes
  at least one byte. \<open>plusfish_Run\<close> has its rounds as
  fuel and returns \<open>None\<close> when they do not suffice; how many do follows from the times in the
  environment.

  \<^bold>\<open>Not modelled.\<close> Logging, \<open>DCHECK\<close> and the printed console text (its numbers are), the
  system's time (an argument), the releasing of libcurl's handles and lists, protobuf,
  the macros and compiler-specific parts of the vendored \<open>src/opensource\<close> (\<open>Base_Library\<close> has its
  string, byte order and memory functions, which plusfish itself hardly uses), and tests. Threads: plusfish runs its callbacks on the thread of the
  main loop, so a round is a sequence of steps; a signal is taken at the end of a round.
  Hash containers are iterated in insertion order where the order is not a parameter.
  Memory that is leaked is not tracked.
\<close>

end
